(* ===== verification/Prelude.thy ===== *)
theory Prelude
  imports Main "HOL-Library.Word" "HOL-Library.List_Lexorder" "HOL-Library.Product_Lexorder"
begin

text \<open>
  Shared base of the MeshMine verification library: the names of the machine types, the
  result type of fallible Rust code with the combinators that stand for the question-mark
  operator, for \<open>collect\<close> into a result and for loops with early return, the standard library's
  byte conversions and checked arithmetic, and the generic list lemmas the components use.

  Conventions.  A byte is an \<open>8 word\<close> and a byte vector, slice or fixed array is a list of
  bytes; the length of a fixed array is part of the validity predicate of the structure that
  holds it.  Rust orders byte arrays, vectors and tuples lexicographically, which is the order
  of \<open>List_Lexorder\<close> and \<open>Product_Lexorder\<close>.  \<open>usize\<close> is a natural number with its 64-bit bound
  written out (\<open>usize_max\<close>).  A \<open>Result\<close> is a sum, \<open>Inl\<close> the error.
\<close>

unbundle bit_operations_syntax

type_synonym u8 = "8 word"
type_synonym u16 = "16 word"
type_synonym u32 = "32 word"
type_synonym u64 = "64 word"
type_synonym bytes = "u8 list"
type_synonym hash256 = bytes

named_theorems codec_rt \<open>reading back what an encoder wrote\<close>
named_theorems codec_inv \<open>what a successful read says about the input\<close>
named_theorems res_simps \<open>unfolding of the result combinators\<close>

section \<open>Results\<close>

definition res_bind :: "'e + 'a \<Rightarrow> ('a \<Rightarrow> 'e + 'b) \<Rightarrow> 'e + 'b" where
  "res_bind r f = (case r of Inl e \<Rightarrow> Inl e | Inr a \<Rightarrow> f a)"

definition ok_or :: "'e \<Rightarrow> 'a option \<Rightarrow> 'e + 'a" where
  "ok_or e x = (case x of None \<Rightarrow> Inl e | Some a \<Rightarrow> Inr a)"

definition map_err :: "('e \<Rightarrow> 'f) \<Rightarrow> 'e + 'a \<Rightarrow> 'f + 'a" where
  "map_err g r = (case r of Inl e \<Rightarrow> Inl (g e) | Inr a \<Rightarrow> Inr a)"

fun res_foldM :: "('s \<Rightarrow> 'x \<Rightarrow> 'e + 's) \<Rightarrow> 's \<Rightarrow> 'x list \<Rightarrow> 'e + 's" where
  "res_foldM f s [] = Inr s"
| "res_foldM f s (x # xs) = res_bind (f s x) (\<lambda>s'. res_foldM f s' xs)"

fun res_mapM :: "('x \<Rightarrow> 'e + 'y) \<Rightarrow> 'x list \<Rightarrow> 'e + 'y list" where
  "res_mapM f [] = Inr []"
| "res_mapM f (x # xs) = res_bind (f x) (\<lambda>y. res_bind (res_mapM f xs) (\<lambda>ys. Inr (y # ys)))"

lemma res_bind_simps [simp]:
  "res_bind (Inl e) f = Inl e"
  "res_bind (Inr a) f = f a"
  by (simp_all add: res_bind_def)

lemma res_bind_Inr_iff [res_simps]:
  "res_bind r f = Inr b \<longleftrightarrow> (\<exists>a. r = Inr a \<and> f a = Inr b)"
  by (cases r) auto

lemma res_bind_Inl_iff:
  "res_bind r f = Inl e \<longleftrightarrow> r = Inl e \<or> (\<exists>a. r = Inr a \<and> f a = Inl e)"
  by (cases r) auto

lemma ok_or_simps [simp]:
  "ok_or e None = Inl e"
  "ok_or e (Some a) = Inr a"
  by (simp_all add: ok_or_def)

lemma ok_or_Inr_iff [res_simps]: "ok_or e x = Inr a \<longleftrightarrow> x = Some a"
  by (cases x) auto

lemma map_err_simps [simp]:
  "map_err g (Inl e) = Inl (g e)"
  "map_err g (Inr a) = Inr a"
  by (simp_all add: map_err_def)

lemma map_err_Inr_iff [res_simps]: "map_err g r = Inr a \<longleftrightarrow> r = Inr a"
  by (cases r) auto

lemma if_Inl_Inr_iff [res_simps]:
  "(if c then Inl e else r) = Inr a \<longleftrightarrow> \<not> c \<and> r = Inr a"
  by simp

text \<open>An invariant of the loop body is an invariant of the loop.\<close>

lemma res_foldM_invariant:
  assumes "res_foldM f s xs = Inr t" and "P s"
    and "\<And>s x s'. x \<in> set xs \<Longrightarrow> P s \<Longrightarrow> f s x = Inr s' \<Longrightarrow> P s'"
  shows "P t"
  using assms
proof (induction xs arbitrary: s)
  case (Cons x xs)
  then obtain s' where "f s x = Inr s'" "res_foldM f s' xs = Inr t"
    by (auto simp: res_simps)
  with Cons show ?case by (metis list.set_intros)
qed simp

lemma res_foldM_append:
  "res_foldM f s (xs @ ys) = res_bind (res_foldM f s xs) (\<lambda>t. res_foldM f t ys)"
proof (induction xs arbitrary: s)
  case (Cons x xs)
  then show ?case by (cases "f s x") auto
qed simp

lemma res_foldM_total:
  assumes "\<And>s x. x \<in> set xs \<Longrightarrow> \<exists>s'. f s x = Inr s'"
  shows "\<exists>t. res_foldM f s xs = Inr t"
  using assms
proof (induction xs arbitrary: s)
  case (Cons x xs)
  then obtain s' where "f s x = Inr s'" by force
  with Cons show ?case by simp
qed simp

lemma res_mapM_length: "res_mapM f xs = Inr ys \<Longrightarrow> length ys = length xs"
  by (induction xs arbitrary: ys) (auto simp: res_simps)

lemma res_mapM_Inr_iff:
  "res_mapM f xs = Inr ys \<longleftrightarrow> list_all2 (\<lambda>x y. f x = Inr y) xs ys"
  by (induction xs arbitrary: ys) (auto simp: res_simps list_all2_Cons1)

section \<open>Checked arithmetic\<close>

definition usize_max :: nat where
  "usize_max = 2 ^ 64 - 1"

definition usize_checked_add :: "nat \<Rightarrow> nat \<Rightarrow> nat option" where
  "usize_checked_add a b = (if a + b > usize_max then None else Some (a + b))"

definition usize_checked_mul :: "nat \<Rightarrow> nat \<Rightarrow> nat option" where
  "usize_checked_mul a b = (if a * b > usize_max then None else Some (a * b))"

definition checked_add :: "'a::len word \<Rightarrow> 'a word \<Rightarrow> 'a word option" where
  "checked_add a b = (if unat a + unat b < 2 ^ LENGTH('a) then Some (a + b) else None)"

definition saturating_add :: "'a::len word \<Rightarrow> 'a word \<Rightarrow> 'a word" where
  "saturating_add a b = (if unat a + unat b < 2 ^ LENGTH('a) then a + b else - 1)"

lemma usize_checked_add_code [code]:
  "usize_checked_add a b = (if int a + int b > 18446744073709551615 then None else Some (a + b))"
  unfolding usize_checked_add_def usize_max_def by (simp flip: of_nat_add add: zless_nat_eq_int_zless)

lemma usize_checked_mul_code [code]:
  "usize_checked_mul a b = (if int a * int b > 18446744073709551615 then None else Some (a * b))"
  unfolding usize_checked_mul_def usize_max_def by (simp flip: of_nat_mult add: zless_nat_eq_int_zless)

lemma usize_checked_add_Some [res_simps]:
  "usize_checked_add a b = Some c \<longleftrightarrow> c = a + b \<and> a + b \<le> usize_max"
  by (auto simp: usize_checked_add_def)

lemma usize_checked_mul_Some [res_simps]:
  "usize_checked_mul a b = Some c \<longleftrightarrow> c = a * b \<and> a * b \<le> usize_max"
  by (auto simp: usize_checked_mul_def)

lemma checked_add_Some:
  fixes a b c :: "'a::len word"
  shows "checked_add a b = Some c \<longleftrightarrow> unat c = unat a + unat b"
proof
  assume "checked_add a b = Some c"
  then show "unat c = unat a + unat b"
    by (auto simp: checked_add_def unat_word_ariths split: if_splits)
next
  assume *: "unat c = unat a + unat b"
  moreover have "unat c < 2 ^ LENGTH('a)"
    by (rule unsigned_less)
  moreover from calculation have "c = a + b"
    by (simp add: word_unat_eq_iff unat_word_ariths)
  ultimately show "checked_add a b = Some c"
    by (simp add: checked_add_def)
qed

text \<open>Evaluation without the power of two in unary.\<close>

lemma checked_add_code [code]:
  fixes a b :: "'a::len word"
  shows "checked_add a b = (if unat (a + b) = unat a + unat b then Some (a + b) else None)"
proof (cases "unat a + unat b < 2 ^ LENGTH('a)")
  case True
  then show ?thesis by (simp add: checked_add_def unat_word_ariths)
next
  case False
  have "unat (a + b) < 2 ^ LENGTH('a)" by (rule unsigned_less)
  with False have "unat (a + b) \<noteq> unat a + unat b" by linarith
  with False show ?thesis by (simp add: checked_add_def)
qed

lemma saturating_add_code [code]:
  fixes a b :: "'a::len word"
  shows "saturating_add a b = (case checked_add a b of Some c \<Rightarrow> c | None \<Rightarrow> - 1)"
  by (simp add: saturating_add_def checked_add_def)

section \<open>Byte conversions\<close>

text \<open>\<open>to_le_bytes\<close> and \<open>from_le_bytes\<close> of the integer types, for any width.\<close>

primrec to_le :: "nat \<Rightarrow> 'a::len word \<Rightarrow> bytes" where
  "to_le 0 w = []"
| "to_le (Suc n) w = ucast w # to_le n (drop_bit 8 w)"

primrec from_le :: "bytes \<Rightarrow> 'a::len word" where
  "from_le [] = 0"
| "from_le (b # bs) = ucast b OR push_bit 8 (from_le bs)"

lemma length_to_le [simp]: "length (to_le n w) = n"
  by (induction n arbitrary: w) auto

lemma from_le_to_le: "from_le (to_le n w) = take_bit (8 * n) (w :: 'a::len word)"
proof (induction n arbitrary: w)
  case (Suc n)
  show ?case
    by (rule bit_word_eqI) (auto simp: Suc bit_simps)
qed simp

lemma from_le_to_le_self: "8 * n = LENGTH('a) \<Longrightarrow> from_le (to_le n w) = (w :: 'a::len word)"
  by (rule bit_word_eqI) (simp add: from_le_to_le bit_simps)

lemma from_le_bound: "bit (from_le bs :: 'a::len word) k \<Longrightarrow> k < 8 * length bs"
proof (induction bs arbitrary: k)
  case (Cons b bs)
  show ?case
  proof (cases "k < 8")
    case False
    with Cons.prems have "bit (from_le bs :: 'a word) (k - 8)"
      by (auto simp: bit_simps dest: bit_imp_le_length)
    from Cons.IH [OF this] False show ?thesis by simp
  qed simp
qed simp

lemma to_le_inject:
  "8 * n = LENGTH('a) \<Longrightarrow> to_le n v = to_le n w \<longleftrightarrow> v = (w :: 'a::len word)"
  by (metis from_le_to_le_self)

lemma to_le_from_le:
  "8 * length bs \<le> LENGTH('a) \<Longrightarrow> to_le (length bs) (from_le bs :: 'a::len word) = bs"
proof (induction bs)
  case (Cons b bs)
  have "ucast (from_le (b # bs) :: 'a word) = b"
    using Cons.prems by (intro bit_word_eqI) (auto simp: bit_simps)
  moreover have "drop_bit 8 (from_le (b # bs)) = (from_le bs :: 'a word)"
    using Cons.prems
    by (intro bit_word_eqI) (auto simp: bit_simps dest: bit_imp_le_length from_le_bound)
  ultimately show ?case
    using Cons by simp
qed simp

text \<open>\<open>BigUint::from_bytes_be\<close>, and the left-padded big-endian bytes of a number that fits.\<close>

definition from_be :: "bytes \<Rightarrow> nat" where
  "from_be bs = foldl (\<lambda>a b. a * 256 + unat b) 0 bs"

primrec be_pad :: "nat \<Rightarrow> nat \<Rightarrow> bytes" where
  "be_pad 0 v = []"
| "be_pad (Suc n) v = be_pad n (v div 256) @ [of_nat v]"

lemma from_be_snoc [simp]: "from_be (bs @ [b]) = from_be bs * 256 + unat b"
  by (simp add: from_be_def)

lemma from_be_Nil [simp]: "from_be [] = 0"
  by (simp add: from_be_def)

lemma length_be_pad [simp]: "length (be_pad n v) = n"
  by (induction n arbitrary: v) auto

lemma from_be_be_pad: "from_be (be_pad n v) = v mod 256 ^ n"
proof (induction n arbitrary: v)
  case (Suc n)
  have "v mod 256 ^ Suc n = 256 * (v div 256 mod 256 ^ n) + v mod 256"
    by (simp add: mod_mult2_eq mult.commute)
  then show ?case
    by (simp add: Suc unat_of_nat mult.commute)
qed simp

lemma unat_u8_less: "unat (b :: u8) < 256"
  using unsigned_less [of b] by simp

lemma from_be_less: "from_be bs < 256 ^ length bs"
proof (induction bs rule: rev_induct)
  case (snoc b bs)
  have "unat b < 256" by (rule unat_u8_less)
  with snoc show ?case by simp
qed simp

lemma be_pad_from_be: "be_pad (length bs) (from_be bs) = bs"
proof (induction bs rule: rev_induct)
  case (snoc b bs)
  have "unat b < 256" by (rule unat_u8_less)
  then have "(from_be bs * 256 + unat b) div 256 = from_be bs"
    by simp
  moreover have "(of_nat (from_be bs * 256 + unat b) :: u8) = b"
    using \<open>unat b < 256\<close> by (simp only: word_unat_eq_iff unat_of_nat) simp
  ultimately show ?case
    using snoc by (simp del: of_nat_add of_nat_mult)
qed simp

lemma from_be_inject:
  "length xs = length ys \<Longrightarrow> from_be xs = from_be ys \<longleftrightarrow> xs = ys"
  by (metis be_pad_from_be)

section \<open>Adjacent pairs\<close>

text \<open>\<open>slice.windows(2).any(p)\<close>.\<close>

fun windows2_any :: "('a \<Rightarrow> 'a \<Rightarrow> bool) \<Rightarrow> 'a list \<Rightarrow> bool" where
  "windows2_any p (x # y # xs) = (p x y \<or> windows2_any p (y # xs))"
| "windows2_any p _ = False"

lemma windows2_any_strict:
  fixes f :: "'a \<Rightarrow> 'b::linorder"
  shows "\<not> windows2_any (\<lambda>x y. f x \<ge> f y) xs \<longleftrightarrow> sorted_wrt (<) (map f xs)"
  by (induction "\<lambda>x y. f x \<ge> f y" xs rule: windows2_any.induct) (auto simp: not_le dest: order.strict_trans)

lemma windows2_any_strict_id:
  fixes xs :: "'b::linorder list"
  shows "\<not> windows2_any (\<lambda>x y. x \<ge> y) xs \<longleftrightarrow> sorted_wrt (<) xs"
  using windows2_any_strict [of "\<lambda>x. x" xs] by simp

lemma windows2_any_weak:
  fixes f :: "'a \<Rightarrow> 'b::linorder"
  shows "\<not> windows2_any (\<lambda>x y. \<not> f x \<le> f y) xs \<longleftrightarrow> sorted (map f xs)"
  by (induction "\<lambda>x y. \<not> f x \<le> f y" xs rule: windows2_any.induct) (auto dest: order.trans)

lemma windows2_any_equal:
  fixes f :: "'a \<Rightarrow> 'b::linorder"
  assumes "sorted (map f xs)"
  shows "\<not> windows2_any (\<lambda>x y. f x = f y) xs \<longleftrightarrow> distinct (map f xs)"
  using assms
proof (induction "\<lambda>x y. f x = f y" xs rule: windows2_any.induct)
  case (1 x y xs)
  then show ?case by (fastforce simp: image_iff)
qed auto

lemma zip_inject:
  assumes "zip xs ys = zip us vs" "length xs = length ys" "length us = length vs"
  shows "xs = us \<and> ys = vs"
  using assms by (metis map_fst_zip map_snd_zip)

lemma replicate_less:
  "a < b \<Longrightarrow> replicate (Suc n) a < replicate (Suc n) (b :: 'a::linorder)"
  by simp

lemma sorted_wrt_less_distinct:
  fixes xs :: "'a::linorder list"
  shows "sorted_wrt (<) xs \<Longrightarrow> distinct xs"
  by (induction xs) auto

end
