(* ===== verification/Codec.thy ===== *)
theory Codec
  imports Prelude
begin

text \<open>
  The canonical binary codec of \<open>crates/meshmine-codec/src/lib.rs\<close>.

  An \<open>Encoder\<close> is its byte vector and every method appends to it, so a method is modelled by
  the bytes it appends and a sequence of calls by \<open>@\<close>.  A \<open>Decoder\<close> is a record of the input,
  the offset and the limits; a method is a function of the decoder that returns its value and
  the advanced decoder, or the error (callers propagate every error, so the decoder after a
  failure is never looked at).

  The locale \<open>canonical_codec\<close> is the contract between an object's encoder and decoder: what
  was written is read back, and a successful read determines the bytes consumed.  It is
  interpreted here for the primitive readers and in later theories for the protocol objects;
  the theorems about whole messages are proved once inside it.
\<close>

section \<open>Errors, limits and state\<close>

record DecodeLimits =
  max_object_bytes :: nat
  max_vector_items :: nat

definition default_limits :: DecodeLimits where
  "default_limits = \<lparr>max_object_bytes = 4 * 1024 * 1024, max_vector_items = 100000\<rparr>"

datatype CodecError =
    ObjectTooLarge nat nat
  | UnexpectedEof nat nat
  | NonCanonicalVarint
  | VarintOverflow
  | LengthLimit nat nat
  | InvalidOption u8
  | TrailingBytes nat
  | InvalidField string

record Decoder =
  dec_bytes :: bytes
  dec_offset :: nat
  dec_limits :: DecodeLimits

type_synonym 'a decode = "Decoder \<Rightarrow> CodecError + ('a \<times> Decoder)"

section \<open>Encoder\<close>

definition enc_u8 :: "u8 \<Rightarrow> bytes" where
  "enc_u8 v = [v]"

definition enc_u16 :: "u16 \<Rightarrow> bytes" where
  "enc_u16 v = to_le 2 v"

definition enc_u32 :: "u32 \<Rightarrow> bytes" where
  "enc_u32 v = to_le 4 v"

definition enc_u64 :: "u64 \<Rightarrow> bytes" where
  "enc_u64 v = to_le 8 v"

definition enc_fixed :: "bytes \<Rightarrow> bytes" where
  "enc_fixed v = v"

function enc_varint :: "u64 \<Rightarrow> bytes" where
  "enc_varint v =
     (let byte = ucast (v AND 0x7f);
          v' = drop_bit 7 v
      in if v' \<noteq> 0 then enc_u8 (byte OR 0x80) @ enc_varint v' else enc_u8 byte)"
  by pat_completeness auto
termination
proof (relation "measure unat")
  fix v v' :: u64
  assume "v' = drop_bit 7 v" and "v' \<noteq> 0"
  then have "unat v' = unat v div 128"
    by (simp add: unat_drop_bit_eq drop_bit_nat_def)
  moreover have "unat v' \<noteq> 0"
    using \<open>v' \<noteq> 0\<close> by (simp add: unat_eq_0)
  ultimately show "(v', v) \<in> measure unat"
    by simp
qed simp

declare enc_varint.simps [simp del]

definition enc_bytes :: "bytes \<Rightarrow> bytes" where
  "enc_bytes v = enc_varint (of_nat (length v)) @ enc_fixed v"

section \<open>Decoder\<close>

definition decoder_new :: "bytes \<Rightarrow> DecodeLimits \<Rightarrow> CodecError + Decoder" where
  "decoder_new bs limits =
     (if length bs > max_object_bytes limits
      then Inl (ObjectTooLarge (length bs) (max_object_bytes limits))
      else Inr \<lparr>dec_bytes = bs, dec_offset = 0, dec_limits = limits\<rparr>)"

definition dbind :: "'a decode \<Rightarrow> ('a \<Rightarrow> 'b decode) \<Rightarrow> 'b decode" where
  "dbind p f d = (case p d of Inl e \<Rightarrow> Inl e | Inr (a, d') \<Rightarrow> f a d')"

definition dreturn :: "'a \<Rightarrow> 'a decode" where
  "dreturn a d = Inr (a, d)"

definition dfail :: "CodecError \<Rightarrow> 'a decode" where
  "dfail e d = Inl e"

text \<open>\<open>check.map_err(|_| error)?; Ok(value)\<close>.\<close>

definition dvalidate :: "'e + unit \<Rightarrow> CodecError \<Rightarrow> 'a \<Rightarrow> 'a decode" where
  "dvalidate r e v = (case r of Inl _ \<Rightarrow> dfail e | Inr _ \<Rightarrow> dreturn v)"

definition dec_take :: "nat \<Rightarrow> bytes decode" where
  "dec_take n d =
     (case usize_checked_add (dec_offset d) n of
        None \<Rightarrow> Inl (UnexpectedEof (dec_offset d) n)
      | Some end \<Rightarrow>
          if end > length (dec_bytes d)
          then Inl (UnexpectedEof (dec_offset d) (end - length (dec_bytes d)))
          else Inr (take n (drop (dec_offset d) (dec_bytes d)), d\<lparr>dec_offset := end\<rparr>))"

definition dec_array :: "nat \<Rightarrow> bytes decode" where
  "dec_array n = dec_take n"

definition dec_u8 :: "u8 decode" where
  "dec_u8 = dbind (dec_take 1) (\<lambda>bs. dreturn (hd bs))"

definition dec_u16 :: "u16 decode" where
  "dec_u16 = dbind (dec_array 2) (\<lambda>bs. dreturn (from_le bs))"

definition dec_u32 :: "u32 decode" where
  "dec_u32 = dbind (dec_array 4) (\<lambda>bs. dreturn (from_le bs))"

definition dec_u64 :: "u64 decode" where
  "dec_u64 = dbind (dec_array 8) (\<lambda>bs. dreturn (from_le bs))"

text \<open>The loop \<open>for index in 0..10\<close> of \<open>Decoder::varint\<close>, from \<open>index\<close> on.\<close>

function dec_varint_from :: "nat \<Rightarrow> u64 \<Rightarrow> u64 decode" where
  "dec_varint_from index value =
     (if index < 10 then
        dbind dec_u8 (\<lambda>byte.
          let payload = ucast (byte AND 0x7f) :: u64
          in if index = 9 \<and> (payload > 1 \<or> byte AND 0x80 \<noteq> 0) then dfail VarintOverflow
             else let value = value OR push_bit (index * 7) payload
                  in if byte AND 0x80 = 0
                     then (if index > 0 \<and> payload = 0 then dfail NonCanonicalVarint
                           else dreturn value)
                     else dec_varint_from (Suc index) value)
      else dfail VarintOverflow)"
  by pat_completeness auto
termination
  by (relation "measure (\<lambda>(index, _). 10 - index)") auto

declare dec_varint_from.simps [simp del]

definition dec_varint :: "u64 decode" where
  "dec_varint = dec_varint_from 0 0"

definition dec_length :: "nat \<Rightarrow> nat decode" where
  "dec_length maximum = dbind dec_varint (\<lambda>value.
     if unat value > usize_max then dfail (LengthLimit usize_max maximum)
     else (\<lambda>d. let n = unat value
               in if n > maximum \<or> n > max_vector_items (dec_limits d)
                  then dfail (LengthLimit n (min maximum (max_vector_items (dec_limits d)))) d
                  else dreturn n d))"

definition dec_fixed_bytes :: "nat \<Rightarrow> nat \<Rightarrow> bytes decode" where
  "dec_fixed_bytes n maximum d =
     (if n > maximum \<or> n > max_object_bytes (dec_limits d)
      then dfail (LengthLimit n (min maximum (max_object_bytes (dec_limits d)))) d
      else dec_take n d)"

definition dec_bytes_of :: "nat \<Rightarrow> bytes decode" where
  "dec_bytes_of maximum = dbind dec_varint (\<lambda>value.
     if unat value > usize_max then dfail (LengthLimit usize_max maximum)
     else (\<lambda>d. let n = unat value
               in if n > maximum \<or> n > max_object_bytes (dec_limits d)
                  then dfail (LengthLimit n (min maximum (max_object_bytes (dec_limits d)))) d
                  else dec_take n d))"

definition dec_option :: "'a decode \<Rightarrow> 'a option decode" where
  "dec_option decode = dbind dec_u8 (\<lambda>tag.
     if tag = 0 then dreturn None
     else if tag = 1 then dbind decode (\<lambda>v. dreturn (Some v))
     else dfail (InvalidOption tag))"

definition dec_finish :: "Decoder \<Rightarrow> CodecError + unit" where
  "dec_finish d =
     (let remaining = length (dec_bytes d) - dec_offset d
      in if remaining \<noteq> 0 then Inl (TrailingBytes remaining) else Inr ())"

definition dec_remaining :: "Decoder \<Rightarrow> nat" where
  "dec_remaining d = length (dec_bytes d) - dec_offset d"

text \<open>\<open>(0..count).map(|_| decode).collect()\<close>: stops at the first error.\<close>

primrec dec_many :: "nat \<Rightarrow> 'a decode \<Rightarrow> 'a list decode" where
  "dec_many 0 p = dreturn []"
| "dec_many (Suc n) p = dbind p (\<lambda>v. dbind (dec_many n p) (\<lambda>vs. dreturn (v # vs)))"

text \<open>\<open>CanonicalDecode::from_canonical_bytes\<close>.\<close>

definition from_canonical_bytes :: "'a decode \<Rightarrow> bytes \<Rightarrow> DecodeLimits \<Rightarrow> CodecError + 'a" where
  "from_canonical_bytes decode bs limits =
     res_bind (decoder_new bs limits) (\<lambda>d.
     res_bind (decode d) (\<lambda>(value, d').
     res_bind (dec_finish d') (\<lambda>_. Inr value)))"

section \<open>Decoder positions\<close>

text \<open>
  A decoder that has consumed \<open>pre\<close> and has \<open>rest\<close> left.  A Rust slice never exceeds the
  address space (\<open>fits\<close>), so the offset addition of \<open>take\<close> cannot overflow.
\<close>

definition dec_at :: "bytes \<Rightarrow> bytes \<Rightarrow> DecodeLimits \<Rightarrow> Decoder" where
  "dec_at pre rest L = \<lparr>dec_bytes = pre @ rest, dec_offset = length pre, dec_limits = L\<rparr>"

definition fits :: "bytes \<Rightarrow> bool" where
  "fits bs \<longleftrightarrow> length bs \<le> usize_max"

lemma dec_limits_dec_at [simp]: "dec_limits (dec_at pre rest L) = L"
  by (simp add: dec_at_def)

lemma dbind_Inr_iff:
  "dbind p f d = Inr (b, d'') \<longleftrightarrow> (\<exists>a d'. p d = Inr (a, d') \<and> f a d' = Inr (b, d''))"
  by (auto simp: dbind_def split: sum.splits)

lemma dbind_assoc: "dbind (dbind p f) g = dbind p (\<lambda>a. dbind (f a) g)"
  by (auto simp: dbind_def fun_eq_iff split: sum.splits)

lemma dbindE [codec_inv]:
  assumes "dbind p f d = Inr (b, d'')"
  obtains a d' where "p d = Inr (a, d')" "f a d' = Inr (b, d'')"
  using assms by (auto simp: dbind_Inr_iff)

lemma dbind_Inr [simp]: "p d = Inr (a, d') \<Longrightarrow> dbind p f d = f a d'"
  by (simp add: dbind_def)

lemma dreturn_iff [simp]: "dreturn a d = Inr (b, d') \<longleftrightarrow> b = a \<and> d' = d"
  by (auto simp: dreturn_def)

lemma dfail_iff [simp]: "dfail e d \<noteq> Inr x"
  by (simp add: dfail_def)

lemma dec_take_at:
  "fits (pre @ e @ rest) \<Longrightarrow> length e = n \<Longrightarrow>
   dec_take n (dec_at pre (e @ rest) L) = Inr (e, dec_at (pre @ e) rest L)"
  by (auto simp: dec_take_def dec_at_def fits_def usize_checked_add_def split: option.splits if_splits)

lemma dec_take_inv:
  assumes "dec_take n (dec_at pre rest L) = Inr (e, d')"
  obtains rest' where "rest = e @ rest'" "length e = n" "d' = dec_at (pre @ e) rest' L"
proof -
  from assms have "n \<le> length rest" "e = take n rest" "dec_offset d' = length pre + n"
    and d': "d' = (dec_at pre rest L)\<lparr>dec_offset := length pre + n\<rparr>"
    by (auto simp: dec_take_def dec_at_def res_simps split: option.splits if_splits)
  then show ?thesis
    by (intro that [of "drop n rest"]) (auto simp: dec_at_def)
qed

section \<open>The codec contract\<close>

locale canonical_codec =
  fixes enc :: "'a \<Rightarrow> bytes" and dec :: "'a decode" and valid :: "DecodeLimits \<Rightarrow> 'a \<Rightarrow> bool"
  assumes dec_enc: "valid L v \<Longrightarrow> fits (pre @ enc v @ rest) \<Longrightarrow>
      dec (dec_at pre (enc v @ rest) L) = Inr (v, dec_at (pre @ enc v) rest L)"
    and enc_dec: "dec (dec_at pre rest L) = Inr (v, d') \<Longrightarrow>
      valid L v \<and> (\<exists>rest'. rest = enc v @ rest' \<and> d' = dec_at (pre @ enc v) rest' L)"
begin

lemma inv_dec:
  assumes "dec (dec_at pre rest L) = Inr (v, d')"
  obtains rest' where "valid L v" "rest = enc v @ rest'" "d' = dec_at (pre @ enc v) rest' L"
  using enc_dec [OF assms] by blast

text \<open>A whole message: the decoder accepts exactly the encodings of valid values in bounds.\<close>

lemma from_canonical_bytes_iff:
  assumes "max_object_bytes L \<le> usize_max"
  shows "from_canonical_bytes dec bs L = Inr v \<longleftrightarrow>
    bs = enc v \<and> valid L v \<and> length bs \<le> max_object_bytes L"
proof
  assume "from_canonical_bytes dec bs L = Inr v"
  then obtain d' where len: "length bs \<le> max_object_bytes L"
    and dec: "dec (dec_at [] bs L) = Inr (v, d')"
    and fin: "dec_finish d' = Inr ()"
    by (auto simp: from_canonical_bytes_def decoder_new_def dec_at_def res_simps split: if_splits)
  from dec obtain rest' where "valid L v" "bs = enc v @ rest'" "d' = dec_at (enc v) rest' L"
    by (auto elim: inv_dec)
  moreover from this fin have "rest' = []"
    by (simp add: dec_finish_def dec_at_def split: if_splits)
  ultimately show "bs = enc v \<and> valid L v \<and> length bs \<le> max_object_bytes L"
    using len by simp
next
  assume *: "bs = enc v \<and> valid L v \<and> length bs \<le> max_object_bytes L"
  then have "dec (dec_at [] bs L) = Inr (v, dec_at bs [] L)"
    using dec_enc [of L v "[]" "[]"] assms * by (auto simp: fits_def)
  with * show "from_canonical_bytes dec bs L = Inr v"
    by (auto simp: from_canonical_bytes_def decoder_new_def dec_at_def dec_finish_def)
qed

text \<open>Two different byte strings never decode to the same value, and encodings are prefix-free.\<close>

lemma decoded_bytes_unique:
  assumes "max_object_bytes L \<le> usize_max" "max_object_bytes M \<le> usize_max"
    and "from_canonical_bytes dec bs L = Inr v" "from_canonical_bytes dec cs M = Inr v"
  shows "bs = cs"
  using assms by (simp add: from_canonical_bytes_iff)

lemma enc_prefix_free:
  assumes "valid L v" "valid L w" "enc v @ xs = enc w @ ys" "fits (enc v @ xs)"
  shows "v = w \<and> xs = ys"
proof -
  have "dec (dec_at [] (enc v @ xs) L) = Inr (v, dec_at (enc v) xs L)"
    using dec_enc [of L v "[]" xs] assms by simp
  moreover have "dec (dec_at [] (enc v @ xs) L) = Inr (w, dec_at (enc w) ys L)"
    using dec_enc [of L w "[]" ys] assms by simp
  ultimately have "v = w" by simp
  with assms show ?thesis by simp
qed

lemma dec_many_enc:
  assumes "\<forall>v \<in> set vs. valid L v" "fits (pre @ concat (map enc vs) @ rest)"
  shows "dec_many (length vs) dec (dec_at pre (concat (map enc vs) @ rest) L)
       = Inr (vs, dec_at (pre @ concat (map enc vs)) rest L)"
  using assms
proof (induction vs arbitrary: pre)
  case Nil
  then show ?case by (simp add: dreturn_def)
next
  case (Cons v vs)
  from Cons.prems Cons.IH [of "pre @ enc v"] show ?case
    by (simp add: dec_enc dreturn_def)
qed

lemma enc_dec_many:
  assumes "dec_many n dec (dec_at pre rest L) = Inr (vs, d')"
  shows "length vs = n \<and> (\<forall>v \<in> set vs. valid L v) \<and>
    (\<exists>rest'. rest = concat (map enc vs) @ rest' \<and> d' = dec_at (pre @ concat (map enc vs)) rest' L)"
  using assms
proof (induction n arbitrary: pre rest vs)
  case (Suc n)
  then obtain v d1 vs' where v: "dec (dec_at pre rest L) = Inr (v, d1)"
    and vs': "dec_many n dec d1 = Inr (vs', d')" and vs: "vs = v # vs'"
    by (auto elim!: dbindE)
  from v obtain r where r: "valid L v" "rest = enc v @ r" "d1 = dec_at (pre @ enc v) r L"
    by (rule inv_dec)
  from Suc.IH [OF vs' [unfolded r(3)]] r(1,2) show ?case
    by (auto simp: vs)
qed simp

end

section \<open>The primitive readers\<close>

lemma enc_fixed_id [simp]: "enc_fixed v = v"
  by (simp add: enc_fixed_def)

lemma dec_array_codec: "canonical_codec enc_fixed (dec_array n) (\<lambda>_ v. length v = n)"
  by unfold_locales (auto simp: dec_array_def dec_take_at elim: dec_take_inv)

lemma dec_word_codec:
  assumes "8 * n = LENGTH('a)"
  shows "canonical_codec (\<lambda>v :: 'a::len word. to_le n v)
    (dbind (dec_array n) (\<lambda>bs. dreturn (from_le bs))) (\<lambda>_ _. True)"
proof unfold_locales
  fix L pre rest and v :: "'a word"
  assume "fits (pre @ to_le n v @ rest)"
  then show "dbind (dec_array n) (\<lambda>bs. dreturn (from_le bs)) (dec_at pre (to_le n v @ rest) L)
      = Inr (v, dec_at (pre @ to_le n v) rest L)"
    using assms
    by (simp add: dec_array_def dec_take_at from_le_to_le_self)
next
  fix pre rest L d' and v :: "'a word"
  assume "dbind (dec_array n) (\<lambda>bs. dreturn (from_le bs)) (dec_at pre rest L) = Inr (v, d')"
  then obtain bs where "dec_take n (dec_at pre rest L) = Inr (bs, d')" and v: "v = from_le bs"
    by (auto simp: dec_array_def elim!: dbindE)
  then obtain r where "rest = bs @ r" "length bs = n" "d' = dec_at (pre @ bs) r L"
    by (elim dec_take_inv)
  then show "True \<and> (\<exists>rest'. rest = to_le n v @ rest' \<and> d' = dec_at (pre @ to_le n v) rest' L)"
    using to_le_from_le [of bs, where 'a = 'a] assms v by auto
qed

interpretation u8_codec: canonical_codec enc_u8 dec_u8 "\<lambda>_ _. True"
proof unfold_locales
  fix L v pre rest
  assume "fits (pre @ enc_u8 v @ rest)"
  then show "dec_u8 (dec_at pre (enc_u8 v @ rest) L) = Inr (v, dec_at (pre @ enc_u8 v) rest L)"
    using dec_take_at [of pre "[v]" rest 1 L] by (simp add: dec_u8_def enc_u8_def)
next
  fix pre rest L v d'
  assume "dec_u8 (dec_at pre rest L) = Inr (v, d')"
  then obtain bs where "dec_take 1 (dec_at pre rest L) = Inr (bs, d')" and v: "v = hd bs"
    by (auto simp: dec_u8_def elim!: dbindE)
  then obtain r where "rest = bs @ r" "length bs = 1" "d' = dec_at (pre @ bs) r L"
    by (elim dec_take_inv)
  moreover from this have "bs = [v]"
    using v by (cases bs) auto
  ultimately show "True \<and> (\<exists>rest'. rest = enc_u8 v @ rest' \<and> d' = dec_at (pre @ enc_u8 v) rest' L)"
    by (auto simp: enc_u8_def)
qed

interpretation u16_codec: canonical_codec enc_u16 dec_u16 "\<lambda>_ _. True"
  using dec_word_codec [of 2, where 'a = 16] by (simp add: enc_u16_def [abs_def] dec_u16_def)

interpretation u32_codec: canonical_codec enc_u32 dec_u32 "\<lambda>_ _. True"
  using dec_word_codec [of 4, where 'a = 32] by (simp add: enc_u32_def [abs_def] dec_u32_def)

interpretation u64_codec: canonical_codec enc_u64 dec_u64 "\<lambda>_ _. True"
  using dec_word_codec [of 8, where 'a = 64] by (simp add: enc_u64_def [abs_def] dec_u64_def)

interpretation array_codec: canonical_codec enc_fixed "dec_array n" "\<lambda>_ v. length v = n" for n
  by (rule dec_array_codec)

section \<open>Variable-length integers\<close>

lemma and_7f: "w AND 0x7f = take_bit 7 (w :: 'a::len word)"
  by (simp add: take_bit_eq_mask mask_eq_exp_minus_1)

lemma bit_0x80: "bit (0x80 :: u8) k \<longleftrightarrow> k = 7"
proof -
  have "(0x80 :: u8) = 2 ^ 7" by simp
  then show ?thesis by (simp only: bit_exp_iff) auto
qed

lemma and_0x80: "(b :: u8) AND 0x80 = 0 \<longleftrightarrow> \<not> bit b 7"
proof
  assume "b AND 0x80 = 0"
  then have "\<not> bit (b AND 0x80) 7" by simp
  then show "\<not> bit b 7" by (simp only: bit_and_iff bit_0x80) simp
next
  assume "\<not> bit b 7"
  then show "b AND 0x80 = 0"
    by (intro bit_word_eqI) (auto simp only: bit_and_iff bit_0x80 bit_0_eq bot_apply bot_bool_def)
qed

lemma u8_eqI:
  fixes a b :: u8
  assumes "\<And>n. n < 7 \<Longrightarrow> bit a n = bit b n" "bit a 7 = bit b 7"
  shows "a = b"
proof (rule bit_word_eqI)
  fix n
  assume "n < LENGTH(8)"
  then have "n < 7 \<or> n = 7" by auto
  then show "bit a n = bit b n" using assms by auto
qed

lemma varint_split:
  "push_bit (7 * i) (take_bit 7 w) OR push_bit (7 * Suc i) (drop_bit 7 w) = push_bit (7 * i) (w :: u64)"
proof (rule bit_word_eqI)
  fix n
  assume "n < LENGTH(64)"
  show "bit (push_bit (7 * i) (take_bit 7 w) OR push_bit (7 * Suc i) (drop_bit 7 w)) n
      = bit (push_bit (7 * i) w) n"
  proof (cases "n < 7 + 7 * i")
    case False
    then have "7 + (n - (7 + 7 * i)) = n - 7 * i" by linarith
    with False \<open>n < LENGTH(64)\<close> show ?thesis by (auto simp: bit_simps)
  qed (use \<open>n < LENGTH(64)\<close> in \<open>auto simp: bit_simps\<close>)
qed

text \<open>Reading back an encoded integer, from any position of the loop.\<close>

lemma dec_varint_from_enc:
  assumes "i \<le> 9" "\<And>k. bit w k \<Longrightarrow> 7 * i + k < 64" "i > 0 \<Longrightarrow> w \<noteq> 0"
    and "fits (pre @ enc_varint w @ rest)"
  shows "dec_varint_from i acc (dec_at pre (enc_varint w @ rest) L)
    = Inr (acc OR push_bit (7 * i) w, dec_at (pre @ enc_varint w) rest L)"
  using assms
proof (induction w arbitrary: i acc pre rule: enc_varint.induct)
  case (1 w)
  show ?case
  proof (cases "drop_bit 7 w = 0")
    case True
    then have low: "take_bit 7 w = w"
      by (metis add_0 bits_ident push_bit_of_0)
    have e: "enc_varint w = enc_u8 (ucast w)"
      using True low by (simp add: enc_varint.simps [of w] and_7f)
    have nb: "\<not> bit (ucast w :: u8) 7"
      by (subst low [symmetric]) (simp add: bit_simps)
    have pl: "ucast (take_bit 7 (ucast w :: u8)) = w"
      by (subst (2) low [symmetric]) (rule bit_word_eqI, auto simp: bit_simps)
    have "\<not> w > 1" if "i = 9"
    proof -
      have "bit w k \<Longrightarrow> k = 0" for k
        using "1.prems"(2) [of k] that by simp
      then have "w = w AND 1"
        by (intro bit_word_eqI) (auto simp only: bit_and_iff bit_1_iff)
      then show ?thesis
        by (metis word_and_le1 linorder_not_less)
    qed
    moreover have "i = 0 \<or> w \<noteq> 0"
      using "1.prems"(3) by blast
    ultimately show ?thesis
      using "1.prems"
      by (subst dec_varint_from.simps)
        (simp add: e u8_codec.dec_enc and_7f and_0x80 nb pl Let_def mult.commute dreturn_def)
  next
    case False
    let ?b = "ucast (take_bit 7 w) OR 0x80 :: u8"
    have e: "enc_varint w = enc_u8 ?b @ enc_varint (drop_bit 7 w)"
      using False by (simp add: enc_varint.simps [of w] and_7f)
    have nb: "bit ?b 7"
      by (simp only: bit_or_iff bit_0x80) simp
    have pl: "ucast (take_bit 7 (ucast (take_bit 7 w) :: u8)) = take_bit 7 w"
      by (rule bit_word_eqI) (auto simp: bit_take_bit_iff bit_ucast_iff)
    have split: "(acc OR push_bit (i * 7) (take_bit 7 w)) OR push_bit (7 + i * 7) (drop_bit 7 w)
        = acc OR push_bit (i * 7) w"
      using varint_split [of i w] by (simp add: mult.commute or.assoc)
    obtain k where "bit (drop_bit 7 w) k"
      using False bit_word_eqI [of "drop_bit 7 w" 0] by auto
    then have "bit w (7 + k)"
      by (simp add: bit_drop_bit_eq)
    from "1.prems"(2) [OF this] have "i < 9"
      by simp
    have bound: "7 * Suc i + k < 64" if "bit (drop_bit 7 w) k" for k
      using "1.prems"(2) [of "7 + k"] that by (simp add: bit_drop_bit_eq)
    have "dec_varint_from (Suc i) (acc OR push_bit (7 * i) (take_bit 7 w))
        (dec_at (pre @ enc_u8 ?b) (enc_varint (drop_bit 7 w) @ rest) L)
      = Inr ((acc OR push_bit (7 * i) (take_bit 7 w)) OR push_bit (7 * Suc i) (drop_bit 7 w),
          dec_at ((pre @ enc_u8 ?b) @ enc_varint (drop_bit 7 w)) rest L)"
      using \<open>i < 9\<close> False "1.prems"(4) by (intro "1.IH" bound) (simp_all add: e)
    then show ?thesis
      using \<open>i < 9\<close> "1.prems"(4)
      by (subst dec_varint_from.simps)
        (simp add: e u8_codec.dec_enc and_7f and_0x80 nb pl split Let_def mult.commute)
  qed
qed

text \<open>A successful read determines the bytes it consumed.\<close>

lemma dec_varint_from_inv:
  assumes "dec_varint_from i acc (dec_at pre rest L) = Inr (v, d')"
  shows "\<exists>w rest'. rest = enc_varint w @ rest' \<and> d' = dec_at (pre @ enc_varint w) rest' L \<and>
    v = acc OR push_bit (7 * i) w \<and> (i > 0 \<longrightarrow> w \<noteq> 0) \<and> (\<forall>k. bit w k \<longrightarrow> 7 * i + k < 64)"
  using assms
proof (induction "10 - i" arbitrary: i acc pre rest rule: less_induct)
  case less
  from less.prems have "i < 10"
    by (subst (asm) dec_varint_from.simps) (auto split: if_splits)
  with less.prems obtain b d1 where b: "dec_u8 (dec_at pre rest L) = Inr (b, d1)"
    and step: "(let payload = ucast (b AND 0x7f) :: u64
        in if i = 9 \<and> (payload > 1 \<or> b AND 0x80 \<noteq> 0) then dfail VarintOverflow
           else let acc = acc OR push_bit (i * 7) payload
                in if b AND 0x80 = 0
                   then (if i > 0 \<and> payload = 0 then dfail NonCanonicalVarint else dreturn acc)
                   else dec_varint_from (Suc i) acc) d1 = Inr (v, d')"
    by (subst (asm) dec_varint_from.simps) (auto elim!: dbindE)
  from b obtain r where r: "rest = enc_u8 b @ r" "d1 = dec_at (pre @ enc_u8 b) r L"
    by (rule u8_codec.inv_dec)
  let ?p = "ucast (take_bit 7 b) :: u64"
  have p_bits: "bit ?p k \<longleftrightarrow> k < 7 \<and> bit b k" for k
    by (auto simp: bit_simps dest: bit_imp_le_length)
  show ?case
  proof (cases "bit b 7")
    case False
    have "ucast ?p = b"
      using False by (intro u8_eqI) (auto simp: bit_ucast_iff bit_take_bit_iff)
    moreover have "drop_bit 7 ?p = 0" "take_bit 7 ?p = ?p"
      by (rule bit_word_eqI; simp add: bit_drop_bit_eq bit_take_bit_iff p_bits; blast)+
    ultimately have e: "enc_varint ?p = enc_u8 b"
      by (simp add: enc_varint.simps [of ?p] and_7f)
    have "7 * i + k < 64" if "bit ?p k" for k
    proof (cases "i = 9")
      case True
      with step False r have "\<not> ?p > 1"
        by (auto simp: Let_def and_7f and_0x80 split: if_splits)
      then have "unat ?p \<le> 1"
        by (simp add: word_less_nat_alt)
      then have "?p = 0 \<or> ?p = 1"
        by (auto simp: le_Suc_eq word_unat_eq_iff)
      then show ?thesis
        using that True by (auto simp: bit_1_iff)
    next
      case f: False
      with that \<open>i < 10\<close> show ?thesis by (auto simp: p_bits)
    qed
    with step False r e show ?thesis
      by (intro exI [of _ ?p] exI [of _ r])
        (auto simp: Let_def and_7f and_0x80 mult.commute split: if_splits)
  next
    case True
    then have "i \<noteq> 9" and "dec_varint_from (Suc i) (acc OR push_bit (7 * i) ?p)
        (dec_at (pre @ enc_u8 b) r L) = Inr (v, d')"
      using step r by (auto simp: Let_def and_7f and_0x80 mult.commute split: if_splits)
    then obtain w r' where w: "r = enc_varint w @ r'"
      "d' = dec_at ((pre @ enc_u8 b) @ enc_varint w) r' L"
      "v = (acc OR push_bit (7 * i) ?p) OR push_bit (7 * Suc i) w" "w \<noteq> 0"
      "\<forall>k. bit w k \<longrightarrow> 7 * Suc i + k < 64"
      using less.hyps [of "Suc i"] \<open>i < 10\<close> by force
    let ?w = "?p OR push_bit 7 w"
    have low: "take_bit 7 ?w = ?p"
      by (rule bit_word_eqI) (auto simp: bit_take_bit_iff bit_or_iff bit_push_bit_iff p_bits)
    have high: "drop_bit 7 ?w = w"
      using w(5) by (intro bit_word_eqI)
        (auto simp: bit_drop_bit_eq bit_or_iff bit_push_bit_iff p_bits)
    have "ucast ?p OR 0x80 = b"
      using True by (intro u8_eqI) (auto simp: bit_or_iff bit_0x80 bit_ucast_iff bit_take_bit_iff simp del: bit_numeral_word_iff)
    then have "enc_varint ?w = enc_u8 b @ enc_varint w"
      using w(4) unfolding enc_varint.simps [of ?w] and_7f low high by (simp add: Let_def)
    moreover have "?w \<noteq> 0"
      using high w(4) by (metis drop_bit_of_0)
    moreover have "v = acc OR push_bit (7 * i) ?w"
      using varint_split [of i ?w, unfolded low high] by (simp only: w(3) or.assoc)
    moreover have "7 * i + k < 64" if "bit ?w k" for k
      using that w(5) \<open>i < 10\<close> \<open>i \<noteq> 9\<close> by (auto simp: bit_or_iff bit_push_bit_iff p_bits)
    ultimately show ?thesis
      using r w(1,2) by (intro exI [of _ ?w] exI [of _ r']) simp
  qed
qed

interpretation varint_codec: canonical_codec enc_varint dec_varint "\<lambda>_ _. True"
proof unfold_locales
  fix L v pre rest
  assume "fits (pre @ enc_varint v @ rest)"
  then show "dec_varint (dec_at pre (enc_varint v @ rest) L)
      = Inr (v, dec_at (pre @ enc_varint v) rest L)"
    using dec_varint_from_enc [of 0 v pre rest 0 L]
    by (simp add: dec_varint_def bit_imp_le_length [where 'a = 64, simplified])
next
  fix pre rest L v d'
  assume "dec_varint (dec_at pre rest L) = Inr (v, d')"
  then show "True \<and> (\<exists>rest'. rest = enc_varint v @ rest' \<and> d' = dec_at (pre @ enc_varint v) rest' L)"
    using dec_varint_from_inv [of 0 0 pre rest L v d'] by (auto simp: dec_varint_def)
qed

section \<open>Length-prefixed data\<close>

lemma length_enc_varint:
  "unat v < 2 ^ (7 * Suc k) \<Longrightarrow> length (enc_varint v) \<le> Suc k"
proof (induction k arbitrary: v)
  case 0
  moreover have "unat (drop_bit 7 v) = unat v div 2 ^ 7"
    unfolding unat_drop_bit_eq by (rule drop_bit_eq_div)
  ultimately have "unat (drop_bit 7 v) = 0" by simp
  then have "drop_bit 7 v = 0" by (simp only: unat_eq_zero)
  then show ?case by (simp add: enc_varint.simps [of v] enc_u8_def)
next
  case (Suc k)
  have "unat (drop_bit 7 v) < 2 ^ (7 * Suc k)"
    unfolding unat_drop_bit_eq drop_bit_eq_div [of 7 "unat v"]
    using Suc.prems by (simp add: power_add less_mult_imp_div_less)
  from Suc.IH [OF this] show ?case by (simp add: enc_varint.simps [of v] enc_u8_def Let_def)
qed

lemma length_enc_varint_le: "length (enc_varint v) \<le> 10"
proof -
  have "unat v < 2 ^ LENGTH(64)" by (rule unsigned_less)
  then show ?thesis using length_enc_varint [of v 9] by simp
qed

lemma enc_varint_nonempty: "enc_varint v \<noteq> []"
  by (subst enc_varint.simps) (simp add: Let_def enc_u8_def)

lemma dec_length_at:
  assumes "fits (pre @ enc_varint (of_nat n) @ rest)"
    and "n \<le> m" "n \<le> max_vector_items L" "n \<le> usize_max"
  shows "dec_length m (dec_at pre (enc_varint (of_nat n) @ rest) L)
    = Inr (n, dec_at (pre @ enc_varint (of_nat n)) rest L)"
proof -
  have "unat (of_nat n :: u64) = n"
    using assms(4) by (simp add: unat_of_nat usize_max_def)
  then show ?thesis
    using assms by (simp add: dec_length_def varint_codec.dec_enc dreturn_def)
qed

lemma dec_length_inv:
  assumes "dec_length m (dec_at pre rest L) = Inr (n, d')"
  obtains rest' where "n \<le> m" "n \<le> max_vector_items L"
    "rest = enc_varint (of_nat n) @ rest'" "d' = dec_at (pre @ enc_varint (of_nat n)) rest' L"
proof -
  from assms obtain v d1 where v: "dec_varint (dec_at pre rest L) = Inr (v, d1)"
    and n: "n = unat v" "n \<le> m" "n \<le> max_vector_items (dec_limits d1)" "d' = d1"
    by (auto simp: dec_length_def Let_def elim!: dbindE split: if_splits)
  from v obtain r where "rest = enc_varint v @ r" "d1 = dec_at (pre @ enc_varint v) r L"
    by (rule varint_codec.inv_dec)
  with n show ?thesis
    by (intro that [of r]) auto
qed

definition enc_vec :: "('a \<Rightarrow> bytes) \<Rightarrow> 'a list \<Rightarrow> bytes" where
  "enc_vec enc vs = enc_varint (of_nat (length vs)) @ concat (map enc vs)"

definition dec_vec :: "nat \<Rightarrow> 'a decode \<Rightarrow> 'a list decode" where
  "dec_vec m p = dbind (dec_length m) (\<lambda>n. dec_many n p)"

definition valid_vec :: "nat \<Rightarrow> (DecodeLimits \<Rightarrow> 'a \<Rightarrow> bool) \<Rightarrow> DecodeLimits \<Rightarrow> 'a list \<Rightarrow> bool" where
  "valid_vec m valid L vs \<longleftrightarrow>
     length vs \<le> m \<and> length vs \<le> max_vector_items L \<and> (\<forall>v \<in> set vs. valid L v)"

context canonical_codec
begin

lemma vec_codec:
  assumes "m \<le> usize_max"
  shows "canonical_codec (enc_vec enc) (dec_vec m dec) (valid_vec m valid)"
proof unfold_locales
  fix L vs pre rest
  assume "valid_vec m valid L vs" and fit: "fits (pre @ enc_vec enc vs @ rest)"
  then show "dec_vec m dec (dec_at pre (enc_vec enc vs @ rest) L)
      = Inr (vs, dec_at (pre @ enc_vec enc vs) rest L)"
    using assms dec_many_enc [of vs L "pre @ enc_varint (of_nat (length vs))" rest]
    by (simp add: dec_vec_def enc_vec_def valid_vec_def dec_length_at)
next
  fix pre rest L vs d'
  assume "dec_vec m dec (dec_at pre rest L) = Inr (vs, d')"
  then obtain n d1 where n: "dec_length m (dec_at pre rest L) = Inr (n, d1)"
    and vs: "dec_many n dec d1 = Inr (vs, d')"
    by (auto simp: dec_vec_def elim!: dbindE)
  from n obtain r where r: "n \<le> m" "n \<le> max_vector_items L"
    "rest = enc_varint (of_nat n) @ r" "d1 = dec_at (pre @ enc_varint (of_nat n)) r L"
    by (rule dec_length_inv)
  from enc_dec_many [OF vs [unfolded r(4)]] r(1-3)
  show "valid_vec m valid L vs \<and>
      (\<exists>rest'. rest = enc_vec enc vs @ rest' \<and> d' = dec_at (pre @ enc_vec enc vs) rest' L)"
    by (auto simp: valid_vec_def enc_vec_def)
qed

end

lemma bytes_codec:
  "canonical_codec enc_bytes (dec_bytes_of m)
     (\<lambda>L v. length v \<le> m \<and> length v \<le> max_object_bytes L)"
proof unfold_locales
  fix L :: DecodeLimits and v pre rest
  assume v: "length v \<le> m \<and> length v \<le> max_object_bytes L"
    and fit: "fits (pre @ enc_bytes v @ rest)"
  from fit have "unat (of_nat (length v) :: u64) = length v" "length v \<le> usize_max"
    by (simp_all add: fits_def enc_bytes_def unat_of_nat usize_max_def)
  with v fit show "dec_bytes_of m (dec_at pre (enc_bytes v @ rest) L)
      = Inr (v, dec_at (pre @ enc_bytes v) rest L)"
    by (simp add: dec_bytes_of_def enc_bytes_def varint_codec.dec_enc dec_take_at)
next
  fix pre rest v d' and L :: DecodeLimits
  assume "dec_bytes_of m (dec_at pre rest L) = Inr (v, d')"
  then obtain n d1 where n: "dec_varint (dec_at pre rest L) = Inr (n, d1)"
    and le: "unat n \<le> m" "unat n \<le> max_object_bytes (dec_limits d1)"
    and v: "dec_take (unat n) d1 = Inr (v, d')"
    by (auto simp: dec_bytes_of_def Let_def elim!: dbindE split: if_splits)
  from n obtain r where r: "rest = enc_varint n @ r" "d1 = dec_at (pre @ enc_varint n) r L"
    by (rule varint_codec.inv_dec)
  from v obtain r' where "r = v @ r'" "length v = unat n"
    "d' = dec_at ((pre @ enc_varint n) @ v) r' L"
    unfolding r by (rule dec_take_inv)
  with r le show "(length v \<le> m \<and> length v \<le> max_object_bytes L) \<and>
      (\<exists>rest'. rest = enc_bytes v @ rest' \<and> d' = dec_at (pre @ enc_bytes v) rest' L)"
    by (auto simp: enc_bytes_def)
qed

interpretation bytes_codec: canonical_codec enc_bytes "dec_bytes_of m"
    "\<lambda>L v. length v \<le> m \<and> length v \<le> max_object_bytes L" for m
  by (rule bytes_codec)

section \<open>Rules for sequences of reads\<close>

text \<open>
  An object's decoder is a chain of reads.  Going forward, \<open>codec_rt\<close> evaluates the chain on
  the concatenation of the encoded fields; going backward, \<open>codec_inv\<close> opens a successful chain
  read by read and leaves the input as the concatenation of the encoded fields.
\<close>

lemma dec_array_at [codec_rt]:
  "fits (pre @ e @ rest) \<Longrightarrow> length e = n \<Longrightarrow>
   dec_array n (dec_at pre (e @ rest) L) = Inr (e, dec_at (pre @ e) rest L)"
  by (simp add: dec_array_def dec_take_at)

lemma dec_array_inv [codec_inv]:
  assumes "dec_array n (dec_at pre rest L) = Inr (e, d')"
  obtains rest' where "rest = e @ rest'" "length e = n" "d' = dec_at (pre @ e) rest' L"
  using assms unfolding dec_array_def by (rule dec_take_inv)

lemmas word_codec_rt [codec_rt] =
  u8_codec.dec_enc u16_codec.dec_enc u32_codec.dec_enc u64_codec.dec_enc bytes_codec.dec_enc

lemmas word_codec_inv [codec_inv] =
  u8_codec.inv_dec u16_codec.inv_dec u32_codec.inv_dec u64_codec.inv_dec bytes_codec.inv_dec

lemma dvalidate_rt [codec_rt]: "r = Inr () \<Longrightarrow> dvalidate r e v = dreturn v"
  by (simp add: dvalidate_def)

lemma dvalidateE [codec_inv]:
  assumes "dvalidate r e v d = Inr (w, d')"
  obtains "r = Inr ()" "w = v" "d' = d"
  using assms by (cases r) (auto simp: dvalidate_def)

lemma dreturnE [codec_inv]:
  assumes "dreturn a d = Inr (b, d')"
  obtains "b = a" "d' = d"
  using assms by simp

lemma dreturn_rt [codec_rt]: "dreturn a d = Inr (a, d)"
  by (simp add: dreturn_def)

end
