(* ===== verification/Core_Common.thy ===== *)
theory Core_Common
  imports Codec
begin

text \<open>
  The shared part of the Core v2 protocol objects (\<open>crates/meshmine-types/src/common.rs\<close>):
  fixed-width big integers, signatures and signature sets, payout leaves, object identifiers.

  The newtypes \<open>U256\<close>, \<open>U512\<close> and \<open>SignatureBytes\<close> are their byte strings.  Record fields carry
  a prefix for their structure (\<open>sgs_\<close>, \<open>sset_\<close>, \<open>wb_\<close>, \<open>sb_\<close>) where the source reuses a field name.
  BLAKE2b is a parameter: \<open>H\<close> is the 256-bit digest of one byte string.  The validity predicate of
  a structure collects what its Rust type guarantees (array lengths) and what its decoder checks.
\<close>

section \<open>Data\<close>

type_synonym U256 = bytes
type_synonym U512 = bytes
type_synonym SignatureBytes = bytes

definition CORE_V2 :: u16 where
  "CORE_V2 = 2"

definition ED25519_SUITE :: u16 where
  "ED25519_SUITE = 1"

definition MAX_ADDRESS_HASH_BYTES :: nat where
  "MAX_ADDRESS_HASH_BYTES = 64"

definition MAX_SIGNATURE_BYTES :: nat where
  "MAX_SIGNATURE_BYTES = 128"

definition MAX_CERTIFICATE_SIGNERS :: nat where
  "MAX_CERTIFICATE_SIGNERS = 4096"

definition MAX_OBJECT_HASHES :: nat where
  "MAX_OBJECT_HASHES = 100000"

definition MAX_BUCKETS :: nat where
  "MAX_BUCKETS = 100000"

definition MAX_BODY_BYTES :: nat where
  "MAX_BODY_BYTES = 4 * 1024 * 1024"

record SignerSignature =
  sgs_signer_pubkey :: bytes
  sgs_signature :: SignatureBytes

record SignatureSet =
  sset_signature_suite :: u16
  sset_signatures :: "SignerSignature list"

record WorkBucketLeaf =
  wb_bucket_id :: hash256
  wb_operator_pubkey :: bytes
  wb_hns_address_version :: u8
  wb_hns_address_hash :: bytes
  wb_credited_work :: U512

record ServiceBucketLeaf =
  sb_bucket_id :: hash256
  sb_operator_pubkey :: bytes
  sb_hns_address_version :: u8
  sb_hns_address_hash :: bytes
  sb_certified_service_credit :: U512

datatype ObjectError =
    Codec CodecError
  | UnsortedSigners
  | UnsortedBuckets
  | UnsortedReceiptEntries
  | ReceiptLengthMismatch
  | UnsortedDagParents
  | NonAsciiDomain

definition empty_ed25519 :: SignatureSet where
  "empty_ed25519 = \<lparr>sset_signature_suite = ED25519_SUITE, sset_signatures = []\<rparr>"

definition validate_order :: "SignatureSet \<Rightarrow> ObjectError + unit" where
  "validate_order s =
     (if windows2_any (\<lambda>a b. sgs_signer_pubkey a \<ge> sgs_signer_pubkey b) (sset_signatures s)
      then Inl UnsortedSigners else Inr ())"

definition validate_bucket_order :: "'a list \<Rightarrow> ('a \<Rightarrow> hash256) \<Rightarrow> ObjectError + unit" where
  "validate_bucket_order xs bucket_id =
     (if windows2_any (\<lambda>a b. bucket_id a \<ge> bucket_id b) xs then Inl UnsortedBuckets else Inr ())"

section \<open>Object identifiers\<close>

definition str_bytes :: "string \<Rightarrow> bytes" where
  "str_bytes s = map of_char s"

text \<open>\<open>blake2b_256\<close> hashes the concatenation of its parts.\<close>

definition blake2b_256 :: "(bytes \<Rightarrow> hash256) \<Rightarrow> bytes list \<Rightarrow> hash256" where
  "blake2b_256 H parts = H (concat parts)"

definition domain_hash :: "(bytes \<Rightarrow> hash256) \<Rightarrow> string \<Rightarrow> bytes \<Rightarrow> hash256" where
  "domain_hash H domain body =
     blake2b_256 H [enc_bytes (str_bytes domain) @ enc_fixed body]"

section \<open>Encoders and decoders\<close>

definition encode_option :: "('a \<Rightarrow> bytes) \<Rightarrow> 'a option \<Rightarrow> bytes" where
  "encode_option encode v =
     (case v of None \<Rightarrow> enc_u8 0 | Some x \<Rightarrow> enc_u8 1 @ encode x)"

definition encode_hashes :: "hash256 list \<Rightarrow> bytes" where
  "encode_hashes vs = enc_vec enc_fixed vs"

definition decode_hashes :: "hash256 list decode" where
  "decode_hashes = dec_vec MAX_OBJECT_HASHES (dec_array 32)"

definition encode_u256 :: "U256 \<Rightarrow> bytes" where
  "encode_u256 v = enc_fixed v"

definition decode_u256 :: "U256 decode" where
  "decode_u256 = dec_array 32"

definition encode_u512 :: "U512 \<Rightarrow> bytes" where
  "encode_u512 v = enc_fixed v"

definition decode_u512 :: "U512 decode" where
  "decode_u512 = dec_array 64"

definition encode_u512s :: "U512 list \<Rightarrow> bytes" where
  "encode_u512s vs = enc_vec encode_u512 vs"

definition decode_u512s :: "U512 list decode" where
  "decode_u512s = dec_vec MAX_OBJECT_HASHES decode_u512"

definition encode_SignatureBytes :: "SignatureBytes \<Rightarrow> bytes" where
  "encode_SignatureBytes v = enc_bytes v"

definition decode_SignatureBytes :: "SignatureBytes decode" where
  "decode_SignatureBytes = dec_bytes_of MAX_SIGNATURE_BYTES"

definition encode_SignerSignature :: "SignerSignature \<Rightarrow> bytes" where
  "encode_SignerSignature v =
     enc_fixed (sgs_signer_pubkey v) @ encode_SignatureBytes (sgs_signature v)"

definition decode_SignerSignature :: "SignerSignature decode" where
  "decode_SignerSignature =
     dbind (dec_array 32) (\<lambda>signer_pubkey.
     dbind decode_SignatureBytes (\<lambda>signature.
     dreturn \<lparr>sgs_signer_pubkey = signer_pubkey, sgs_signature = signature\<rparr>))"

definition encode_SignatureSet :: "SignatureSet \<Rightarrow> bytes" where
  "encode_SignatureSet v =
     enc_u16 (sset_signature_suite v) @
     enc_vec encode_SignerSignature (sset_signatures v)"

definition decode_SignatureSet :: "SignatureSet decode" where
  "decode_SignatureSet =
     dbind dec_u16 (\<lambda>signature_suite.
     dbind (dec_vec MAX_CERTIFICATE_SIGNERS decode_SignerSignature) (\<lambda>signatures.
     let set = \<lparr>sset_signature_suite = signature_suite, sset_signatures = signatures\<rparr>
     in dvalidate (validate_order set) (InvalidField ''unsorted certificate signers'') set))"

definition encode_WorkBucketLeaf :: "WorkBucketLeaf \<Rightarrow> bytes" where
  "encode_WorkBucketLeaf v =
     enc_fixed (wb_bucket_id v) @
     enc_fixed (wb_operator_pubkey v) @
     enc_u8 (wb_hns_address_version v) @
     enc_bytes (wb_hns_address_hash v) @
     encode_u512 (wb_credited_work v)"

definition decode_WorkBucketLeaf :: "WorkBucketLeaf decode" where
  "decode_WorkBucketLeaf =
     dbind (dec_array 32) (\<lambda>bucket_id.
     dbind (dec_array 32) (\<lambda>operator_pubkey.
     dbind dec_u8 (\<lambda>hns_address_version.
     dbind (dec_bytes_of MAX_ADDRESS_HASH_BYTES) (\<lambda>hns_address_hash.
     dbind decode_u512 (\<lambda>credited_work.
     dreturn \<lparr>wb_bucket_id = bucket_id, wb_operator_pubkey = operator_pubkey,
       wb_hns_address_version = hns_address_version, wb_hns_address_hash = hns_address_hash,
       wb_credited_work = credited_work\<rparr>)))))"

definition encode_ServiceBucketLeaf :: "ServiceBucketLeaf \<Rightarrow> bytes" where
  "encode_ServiceBucketLeaf v =
     enc_fixed (sb_bucket_id v) @
     enc_fixed (sb_operator_pubkey v) @
     enc_u8 (sb_hns_address_version v) @
     enc_bytes (sb_hns_address_hash v) @
     encode_u512 (sb_certified_service_credit v)"

definition decode_ServiceBucketLeaf :: "ServiceBucketLeaf decode" where
  "decode_ServiceBucketLeaf =
     dbind (dec_array 32) (\<lambda>bucket_id.
     dbind (dec_array 32) (\<lambda>operator_pubkey.
     dbind dec_u8 (\<lambda>hns_address_version.
     dbind (dec_bytes_of MAX_ADDRESS_HASH_BYTES) (\<lambda>hns_address_hash.
     dbind decode_u512 (\<lambda>certified_service_credit.
     dreturn \<lparr>sb_bucket_id = bucket_id, sb_operator_pubkey = operator_pubkey,
       sb_hns_address_version = hns_address_version, sb_hns_address_hash = hns_address_hash,
       sb_certified_service_credit = certified_service_credit\<rparr>)))))"

text \<open>The version and network prefix of the objects (\<open>crates/meshmine-types/src/objects.rs\<close>).\<close>

definition encode_prefix :: "u16 \<Rightarrow> u8 \<Rightarrow> bytes" where
  "encode_prefix protocol_version network_id = enc_u16 protocol_version @ enc_u8 network_id"

definition decode_prefix :: "(u16 \<times> u8) decode" where
  "decode_prefix =
     dbind dec_u16 (\<lambda>protocol_version.
     dbind dec_u8 (\<lambda>network_id.
     dreturn (protocol_version, network_id)))"

section \<open>Validity\<close>

definition valid_hash :: "hash256 \<Rightarrow> bool" where
  "valid_hash h \<longleftrightarrow> length h = 32"

fun valid_hash_option :: "hash256 option \<Rightarrow> bool" where
  "valid_hash_option None = True"
| "valid_hash_option (Some h) = valid_hash h"

definition valid_u512 :: "U512 \<Rightarrow> bool" where
  "valid_u512 h \<longleftrightarrow> length h = 64"

definition valid_bytes :: "nat \<Rightarrow> DecodeLimits \<Rightarrow> bytes \<Rightarrow> bool" where
  "valid_bytes m L v \<longleftrightarrow> length v \<le> m \<and> length v \<le> max_object_bytes L"

definition valid_hashes :: "DecodeLimits \<Rightarrow> hash256 list \<Rightarrow> bool" where
  "valid_hashes L vs \<longleftrightarrow> valid_vec MAX_OBJECT_HASHES (\<lambda>_. valid_hash) L vs"

definition valid_SignatureBytes :: "DecodeLimits \<Rightarrow> SignatureBytes \<Rightarrow> bool" where
  "valid_SignatureBytes L v \<longleftrightarrow> valid_bytes MAX_SIGNATURE_BYTES L v"

definition valid_SignerSignature :: "DecodeLimits \<Rightarrow> SignerSignature \<Rightarrow> bool" where
  "valid_SignerSignature L v \<longleftrightarrow>
     valid_hash (sgs_signer_pubkey v) \<and> valid_SignatureBytes L (sgs_signature v)"

definition valid_SignatureSet :: "DecodeLimits \<Rightarrow> SignatureSet \<Rightarrow> bool" where
  "valid_SignatureSet L v \<longleftrightarrow>
     valid_vec MAX_CERTIFICATE_SIGNERS valid_SignerSignature L (sset_signatures v) \<and>
     sorted_wrt (<) (map sgs_signer_pubkey (sset_signatures v))"

definition valid_WorkBucketLeaf :: "DecodeLimits \<Rightarrow> WorkBucketLeaf \<Rightarrow> bool" where
  "valid_WorkBucketLeaf L v \<longleftrightarrow>
     valid_hash (wb_bucket_id v) \<and> valid_hash (wb_operator_pubkey v) \<and>
     valid_bytes MAX_ADDRESS_HASH_BYTES L (wb_hns_address_hash v) \<and>
     valid_u512 (wb_credited_work v)"

definition valid_ServiceBucketLeaf :: "DecodeLimits \<Rightarrow> ServiceBucketLeaf \<Rightarrow> bool" where
  "valid_ServiceBucketLeaf L v \<longleftrightarrow>
     valid_hash (sb_bucket_id v) \<and> valid_hash (sb_operator_pubkey v) \<and>
     valid_bytes MAX_ADDRESS_HASH_BYTES L (sb_hns_address_hash v) \<and>
     valid_u512 (sb_certified_service_credit v)"

lemmas valid_defs = valid_hash_def valid_bytes_def

lemmas max_defs = MAX_ADDRESS_HASH_BYTES_def MAX_SIGNATURE_BYTES_def MAX_CERTIFICATE_SIGNERS_def
  MAX_OBJECT_HASHES_def MAX_BUCKETS_def MAX_BODY_BYTES_def usize_max_def

section \<open>The codec contract of the shared structures\<close>

lemma validate_order_ok [simp]:
  "validate_order s = Inr u \<longleftrightarrow> sorted_wrt (<) (map sgs_signer_pubkey (sset_signatures s))"
  by (simp add: validate_order_def windows2_any_strict [symmetric])

lemma validate_bucket_order_ok [simp]:
  "validate_bucket_order xs f = Inr u \<longleftrightarrow> sorted_wrt (<) (map f xs)"
  by (simp add: validate_bucket_order_def windows2_any_strict [symmetric])

context canonical_codec
begin

lemma option_codec:
  "canonical_codec (encode_option enc) (dec_option dec)
     (\<lambda>L v. case v of None \<Rightarrow> True | Some x \<Rightarrow> valid L x)"
proof unfold_locales
  fix L v pre rest
  assume "case v of None \<Rightarrow> True | Some x \<Rightarrow> valid L x" "fits (pre @ encode_option enc v @ rest)"
  then show "dec_option dec (dec_at pre (encode_option enc v @ rest) L)
      = Inr (v, dec_at (pre @ encode_option enc v) rest L)"
    by (cases v) (simp_all add: encode_option_def dec_option_def codec_rt dec_enc)
next
  fix pre rest L v d'
  assume "dec_option dec (dec_at pre rest L) = Inr (v, d')"
  then show "(case v of None \<Rightarrow> True | Some x \<Rightarrow> valid L x) \<and>
      (\<exists>rest'. rest = encode_option enc v @ rest' \<and> d' = dec_at (pre @ encode_option enc v) rest' L)"
    unfolding dec_option_def
    by (auto simp: encode_option_def elim!: codec_inv inv_dec split: if_splits)
qed

end

interpretation hashes_codec: canonical_codec encode_hashes decode_hashes valid_hashes
  using array_codec.vec_codec [of MAX_OBJECT_HASHES 32]
  by (simp add: encode_hashes_def [abs_def] decode_hashes_def valid_hashes_def [abs_def]
      valid_hash_def [abs_def] max_defs)

interpretation u256_codec: canonical_codec encode_u256 decode_u256 "\<lambda>_. valid_hash"
  using array_codec.canonical_codec_axioms [of 32]
  by (simp add: encode_u256_def [abs_def] decode_u256_def valid_hash_def [abs_def] enc_fixed_def [abs_def])

interpretation u512_codec: canonical_codec encode_u512 decode_u512 "\<lambda>_. valid_u512"
  using array_codec.canonical_codec_axioms [of 64]
  by (simp add: encode_u512_def [abs_def] decode_u512_def valid_u512_def [abs_def] enc_fixed_def [abs_def])

interpretation u512s_codec: canonical_codec encode_u512s decode_u512s
    "valid_vec MAX_OBJECT_HASHES (\<lambda>_. valid_u512)"
  using u512_codec.vec_codec [of MAX_OBJECT_HASHES]
  by (simp add: encode_u512s_def [abs_def] decode_u512s_def max_defs)

interpretation signature_bytes_codec:
  canonical_codec encode_SignatureBytes decode_SignatureBytes valid_SignatureBytes
  using bytes_codec [of MAX_SIGNATURE_BYTES]
  by (simp add: encode_SignatureBytes_def [abs_def] decode_SignatureBytes_def
      valid_SignatureBytes_def [abs_def] valid_bytes_def)

interpretation hash_option_codec: canonical_codec "encode_option enc_fixed" "dec_option (dec_array 32)"
    "\<lambda>_. valid_hash_option"
proof -
  have "valid_hash_option = (\<lambda>v. case v of None \<Rightarrow> True | Some x \<Rightarrow> length x = 32)"
    by (auto simp: fun_eq_iff valid_hash_def split: option.splits)
  then show "canonical_codec (encode_option enc_fixed) (dec_option (dec_array 32)) (\<lambda>_. valid_hash_option)"
    using array_codec.option_codec [of 32] by simp
qed

interpretation u32_option_codec: canonical_codec "encode_option enc_u32" "dec_option dec_u32"
    "\<lambda>_ _. True"
proof -
  have "(\<lambda>(L :: DecodeLimits) v. case v of None \<Rightarrow> True | Some (x :: u32) \<Rightarrow> True) = (\<lambda>_ _. True)"
    by (auto simp: fun_eq_iff split: option.splits)
  then show "canonical_codec (encode_option enc_u32) (dec_option dec_u32) (\<lambda>_ _. True)"
    using u32_codec.option_codec by simp
qed

lemmas common_codec_rt [codec_rt] =
  hashes_codec.dec_enc u512s_codec.dec_enc u256_codec.dec_enc u512_codec.dec_enc
  signature_bytes_codec.dec_enc hash_option_codec.dec_enc u32_option_codec.dec_enc

lemmas common_codec_inv [codec_inv] =
  hashes_codec.inv_dec u512s_codec.inv_dec u256_codec.inv_dec u512_codec.inv_dec
  signature_bytes_codec.inv_dec hash_option_codec.inv_dec u32_option_codec.inv_dec

text \<open>
  One proof pattern serves every structure: the forward law is evaluation with \<open>codec_rt\<close>, the
  backward law is case analysis with \<open>codec_inv\<close>.
\<close>

interpretation signer_signature_codec:
  canonical_codec encode_SignerSignature decode_SignerSignature valid_SignerSignature
  unfolding encode_SignerSignature_def decode_SignerSignature_def valid_SignerSignature_def
  by unfold_locales (simp add: codec_rt valid_defs, auto simp: valid_defs elim!: codec_inv)

interpretation signatures_codec: canonical_codec "enc_vec encode_SignerSignature"
    "dec_vec MAX_CERTIFICATE_SIGNERS decode_SignerSignature"
    "valid_vec MAX_CERTIFICATE_SIGNERS valid_SignerSignature"
  by (rule signer_signature_codec.vec_codec) (simp add: max_defs)

interpretation signature_set_codec:
  canonical_codec encode_SignatureSet decode_SignatureSet valid_SignatureSet
  unfolding encode_SignatureSet_def decode_SignatureSet_def valid_SignatureSet_def Let_def
  by unfold_locales (simp add: codec_rt signatures_codec.dec_enc,
      auto elim!: codec_inv signatures_codec.inv_dec)

interpretation work_bucket_codec:
  canonical_codec encode_WorkBucketLeaf decode_WorkBucketLeaf valid_WorkBucketLeaf
  unfolding encode_WorkBucketLeaf_def decode_WorkBucketLeaf_def valid_WorkBucketLeaf_def
  by unfold_locales (simp add: codec_rt valid_defs, auto simp: valid_defs elim!: codec_inv)

interpretation service_bucket_codec:
  canonical_codec encode_ServiceBucketLeaf decode_ServiceBucketLeaf valid_ServiceBucketLeaf
  unfolding encode_ServiceBucketLeaf_def decode_ServiceBucketLeaf_def valid_ServiceBucketLeaf_def
  by unfold_locales (simp add: codec_rt valid_defs, auto simp: valid_defs elim!: codec_inv)

interpretation work_buckets_codec: canonical_codec "enc_vec encode_WorkBucketLeaf"
    "dec_vec MAX_BUCKETS decode_WorkBucketLeaf" "valid_vec MAX_BUCKETS valid_WorkBucketLeaf"
  by (rule work_bucket_codec.vec_codec) (simp add: max_defs)

interpretation service_buckets_codec: canonical_codec "enc_vec encode_ServiceBucketLeaf"
    "dec_vec MAX_BUCKETS decode_ServiceBucketLeaf" "valid_vec MAX_BUCKETS valid_ServiceBucketLeaf"
  by (rule service_bucket_codec.vec_codec) (simp add: max_defs)

lemmas object_codec_rt [codec_rt] =
  signature_set_codec.dec_enc work_buckets_codec.dec_enc service_buckets_codec.dec_enc

lemmas object_codec_inv [codec_inv] =
  signature_set_codec.inv_dec work_buckets_codec.inv_dec service_buckets_codec.inv_dec

interpretation prefix_codec: canonical_codec "\<lambda>(v, n). encode_prefix v n" decode_prefix "\<lambda>_ _. True"
  unfolding encode_prefix_def decode_prefix_def
  by unfold_locales (auto simp: codec_rt, auto elim!: codec_inv)

lemma decode_prefix_rt [codec_rt]:
  "fits (pre @ encode_prefix v n @ rest) \<Longrightarrow>
   decode_prefix (dec_at pre (encode_prefix v n @ rest) L)
     = Inr ((v, n), dec_at (pre @ encode_prefix v n) rest L)"
  using prefix_codec.dec_enc [where v = "(v, n)"] by simp

lemma decode_prefix_inv [codec_inv]:
  assumes "decode_prefix (dec_at pre rest L) = Inr (p, d')"
  obtains v n rest' where "p = (v, n)" "rest = encode_prefix v n @ rest'"
    "d' = dec_at (pre @ encode_prefix v n) rest' L"
  using assms by (cases p) (auto elim!: prefix_codec.inv_dec)

end
