(* ===== verification/Objects_Payout.thy ===== *)
theory Objects_Payout
  imports Core_Common
begin

text \<open>
  Operator and settlement objects of \<open>crates/meshmine-types/src/objects.rs\<close>: operator records,
  payout buckets, payout snapshots and payout plans, with their unsigned and full encodings,
  object identifiers and decoders.  Field names carry the prefixes \<open>op_\<close>, \<open>pb_\<close>, \<open>ps_\<close>, \<open>pp_\<close>.
  Each object interprets the codec contract; \<open>valid_X L v\<close> says which values the decoder with
  limits \<open>L\<close> can return.
\<close>

section \<open>OperatorRecordV2\<close>

record OperatorRecordV2 =
  op_protocol_version :: u16
  op_network_id :: u8
  op_operator_pubkey :: bytes
  op_sequence :: u64
  op_supported_features :: u64
  op_payout_bucket_ids :: "hash256 list"
  op_contact_metadata_hash :: "hash256 option"
  op_signature_suite :: u16
  op_signature :: SignatureBytes

definition encode_unsigned_OperatorRecordV2 :: "OperatorRecordV2 \<Rightarrow> bytes" where
  "encode_unsigned_OperatorRecordV2 v =
     encode_prefix (op_protocol_version v) (op_network_id v) @
     enc_fixed (op_operator_pubkey v) @
     enc_u64 (op_sequence v) @
     enc_u64 (op_supported_features v) @
     encode_hashes (op_payout_bucket_ids v) @
     encode_option enc_fixed (op_contact_metadata_hash v) @
     enc_u16 (op_signature_suite v)"

definition encode_OperatorRecordV2 :: "OperatorRecordV2 \<Rightarrow> bytes" where
  "encode_OperatorRecordV2 v = encode_unsigned_OperatorRecordV2 v @ encode_SignatureBytes (op_signature v)"

definition object_id_OperatorRecordV2 :: "(bytes \<Rightarrow> hash256) \<Rightarrow> OperatorRecordV2 \<Rightarrow> hash256" where
  "object_id_OperatorRecordV2 H v = domain_hash H ''meshmine/operator/v2'' (encode_unsigned_OperatorRecordV2 v)"

definition decode_OperatorRecordV2 :: "OperatorRecordV2 decode" where
  "decode_OperatorRecordV2 =
     dbind decode_prefix (\<lambda>(protocol_version, network_id).
     dbind (dec_array 32) (\<lambda>operator_pubkey.
     dbind dec_u64 (\<lambda>sequence.
     dbind dec_u64 (\<lambda>supported_features.
     dbind decode_hashes (\<lambda>payout_bucket_ids.
     dbind (dec_option (dec_array 32)) (\<lambda>contact_metadata_hash.
     dbind dec_u16 (\<lambda>signature_suite.
     dbind decode_SignatureBytes (\<lambda>signature.
     dreturn \<lparr>op_protocol_version = protocol_version, op_network_id = network_id,
       op_operator_pubkey = operator_pubkey, op_sequence = sequence,
       op_supported_features = supported_features, op_payout_bucket_ids = payout_bucket_ids,
       op_contact_metadata_hash = contact_metadata_hash, op_signature_suite = signature_suite,
       op_signature = signature\<rparr>))))))))"

definition valid_OperatorRecordV2 :: "DecodeLimits \<Rightarrow> OperatorRecordV2 \<Rightarrow> bool" where
  "valid_OperatorRecordV2 L v \<longleftrightarrow>
     valid_hash (op_operator_pubkey v) \<and> valid_hashes L (op_payout_bucket_ids v) \<and>
     valid_hash_option (op_contact_metadata_hash v) \<and>
     valid_SignatureBytes L (op_signature v)"

interpretation operator_record_codec:
  canonical_codec encode_OperatorRecordV2 decode_OperatorRecordV2 valid_OperatorRecordV2
  unfolding encode_OperatorRecordV2_def encode_unsigned_OperatorRecordV2_def decode_OperatorRecordV2_def
    valid_OperatorRecordV2_def Let_def
  by unfold_locales (simp add: codec_rt valid_defs, auto simp: valid_defs elim!: codec_inv)

section \<open>PayoutBucketV2\<close>

record PayoutBucketV2 =
  pb_protocol_version :: u16
  pb_network_id :: u8
  pb_operator_pubkey :: bytes
  pb_bucket_sequence :: u64
  pb_hns_address_version :: u8
  pb_hns_address_hash :: bytes
  pb_activation_height :: u32
  pb_retirement_height :: "u32 option"
  pb_signature :: SignatureBytes

definition encode_unsigned_PayoutBucketV2 :: "PayoutBucketV2 \<Rightarrow> bytes" where
  "encode_unsigned_PayoutBucketV2 v =
     encode_prefix (pb_protocol_version v) (pb_network_id v) @
     enc_fixed (pb_operator_pubkey v) @
     enc_u64 (pb_bucket_sequence v) @
     enc_u8 (pb_hns_address_version v) @
     enc_bytes (pb_hns_address_hash v) @
     enc_u32 (pb_activation_height v) @
     encode_option enc_u32 (pb_retirement_height v)"

definition encode_PayoutBucketV2 :: "PayoutBucketV2 \<Rightarrow> bytes" where
  "encode_PayoutBucketV2 v = encode_unsigned_PayoutBucketV2 v @ encode_SignatureBytes (pb_signature v)"

definition object_id_PayoutBucketV2 :: "(bytes \<Rightarrow> hash256) \<Rightarrow> PayoutBucketV2 \<Rightarrow> hash256" where
  "object_id_PayoutBucketV2 H v = domain_hash H ''meshmine/payout-bucket/v2'' (encode_unsigned_PayoutBucketV2 v)"

definition decode_PayoutBucketV2 :: "PayoutBucketV2 decode" where
  "decode_PayoutBucketV2 =
     dbind decode_prefix (\<lambda>(protocol_version, network_id).
     dbind (dec_array 32) (\<lambda>operator_pubkey.
     dbind dec_u64 (\<lambda>bucket_sequence.
     dbind dec_u8 (\<lambda>hns_address_version.
     dbind (dec_bytes_of MAX_ADDRESS_HASH_BYTES) (\<lambda>hns_address_hash.
     dbind dec_u32 (\<lambda>activation_height.
     dbind (dec_option dec_u32) (\<lambda>retirement_height.
     dbind decode_SignatureBytes (\<lambda>signature.
     dreturn \<lparr>pb_protocol_version = protocol_version, pb_network_id = network_id,
       pb_operator_pubkey = operator_pubkey, pb_bucket_sequence = bucket_sequence,
       pb_hns_address_version = hns_address_version, pb_hns_address_hash = hns_address_hash,
       pb_activation_height = activation_height, pb_retirement_height = retirement_height,
       pb_signature = signature\<rparr>))))))))"

definition valid_PayoutBucketV2 :: "DecodeLimits \<Rightarrow> PayoutBucketV2 \<Rightarrow> bool" where
  "valid_PayoutBucketV2 L v \<longleftrightarrow>
     valid_hash (pb_operator_pubkey v) \<and>
     valid_bytes MAX_ADDRESS_HASH_BYTES L (pb_hns_address_hash v) \<and>
     valid_SignatureBytes L (pb_signature v)"

interpretation payout_bucket_codec:
  canonical_codec encode_PayoutBucketV2 decode_PayoutBucketV2 valid_PayoutBucketV2
  unfolding encode_PayoutBucketV2_def encode_unsigned_PayoutBucketV2_def decode_PayoutBucketV2_def
    valid_PayoutBucketV2_def Let_def
  by unfold_locales (simp add: codec_rt valid_defs, auto simp: valid_defs elim!: codec_inv)

section \<open>PayoutSnapshotV2\<close>

record PayoutSnapshotV2 =
  ps_protocol_version :: u16
  ps_network_id :: u8
  ps_snapshot_sequence :: u64
  ps_previous_snapshot_id :: hash256
  ps_first_session_close_id :: hash256
  ps_last_session_close_id :: hash256
  ps_close_anchor_height :: u32
  ps_work_window_target :: U512
  ps_actual_work_in_window :: U512
  ps_work_buckets :: "WorkBucketLeaf list"
  ps_service_buckets :: "ServiceBucketLeaf list"
  ps_share_set_root :: hash256
  ps_service_set_root :: hash256
  ps_settlement_committee_id :: hash256
  ps_signer_set :: SignatureSet

definition encode_unsigned_PayoutSnapshotV2 :: "PayoutSnapshotV2 \<Rightarrow> bytes" where
  "encode_unsigned_PayoutSnapshotV2 v =
     encode_prefix (ps_protocol_version v) (ps_network_id v) @
     enc_u64 (ps_snapshot_sequence v) @
     enc_fixed (ps_previous_snapshot_id v) @
     enc_fixed (ps_first_session_close_id v) @
     enc_fixed (ps_last_session_close_id v) @
     enc_u32 (ps_close_anchor_height v) @
     encode_u512 (ps_work_window_target v) @
     encode_u512 (ps_actual_work_in_window v) @
     enc_vec encode_WorkBucketLeaf (ps_work_buckets v) @
     enc_vec encode_ServiceBucketLeaf (ps_service_buckets v) @
     enc_fixed (ps_share_set_root v) @
     enc_fixed (ps_service_set_root v) @
     enc_fixed (ps_settlement_committee_id v)"

definition encode_PayoutSnapshotV2 :: "PayoutSnapshotV2 \<Rightarrow> bytes" where
  "encode_PayoutSnapshotV2 v = encode_unsigned_PayoutSnapshotV2 v @ encode_SignatureSet (ps_signer_set v)"

definition object_id_PayoutSnapshotV2 :: "(bytes \<Rightarrow> hash256) \<Rightarrow> PayoutSnapshotV2 \<Rightarrow> hash256" where
  "object_id_PayoutSnapshotV2 H v = domain_hash H ''meshmine/payout-snapshot/v2'' (encode_unsigned_PayoutSnapshotV2 v)"

definition validate_PayoutSnapshotV2 :: "PayoutSnapshotV2 \<Rightarrow> ObjectError + unit" where
  "validate_PayoutSnapshotV2 v =
     res_bind (validate_bucket_order (ps_work_buckets v) wb_bucket_id) (\<lambda>_.
     res_bind (validate_bucket_order (ps_service_buckets v) sb_bucket_id) (\<lambda>_.
     res_bind (validate_order (ps_signer_set v)) (\<lambda>_. Inr ())))"

lemma validate_PayoutSnapshotV2_ok:
  "validate_PayoutSnapshotV2 v = Inr u \<longleftrightarrow>
     sorted_wrt (<) (map wb_bucket_id (ps_work_buckets v)) \<and>
     sorted_wrt (<) (map sb_bucket_id (ps_service_buckets v)) \<and>
     sorted_wrt (<) (map sgs_signer_pubkey (sset_signatures (ps_signer_set v)))"
  by (simp add: validate_PayoutSnapshotV2_def res_simps)

definition decode_PayoutSnapshotV2 :: "PayoutSnapshotV2 decode" where
  "decode_PayoutSnapshotV2 =
     dbind decode_prefix (\<lambda>(protocol_version, network_id).
     dbind dec_u64 (\<lambda>snapshot_sequence.
     dbind (dec_array 32) (\<lambda>previous_snapshot_id.
     dbind (dec_array 32) (\<lambda>first_session_close_id.
     dbind (dec_array 32) (\<lambda>last_session_close_id.
     dbind dec_u32 (\<lambda>close_anchor_height.
     dbind decode_u512 (\<lambda>work_window_target.
     dbind decode_u512 (\<lambda>actual_work_in_window.
     dbind (dec_vec MAX_BUCKETS decode_WorkBucketLeaf) (\<lambda>work_buckets.
     dbind (dec_vec MAX_BUCKETS decode_ServiceBucketLeaf) (\<lambda>service_buckets.
     dbind (dec_array 32) (\<lambda>share_set_root.
     dbind (dec_array 32) (\<lambda>service_set_root.
     dbind (dec_array 32) (\<lambda>settlement_committee_id.
     dbind decode_SignatureSet (\<lambda>signer_set.
     let result = \<lparr>ps_protocol_version = protocol_version, ps_network_id = network_id,
       ps_snapshot_sequence = snapshot_sequence,
       ps_previous_snapshot_id = previous_snapshot_id,
       ps_first_session_close_id = first_session_close_id,
       ps_last_session_close_id = last_session_close_id,
       ps_close_anchor_height = close_anchor_height,
       ps_work_window_target = work_window_target,
       ps_actual_work_in_window = actual_work_in_window, ps_work_buckets = work_buckets,
       ps_service_buckets = service_buckets, ps_share_set_root = share_set_root,
       ps_service_set_root = service_set_root,
       ps_settlement_committee_id = settlement_committee_id, ps_signer_set = signer_set\<rparr>
     in dvalidate (validate_PayoutSnapshotV2 result) (InvalidField ''invalid payout snapshot ordering'') result))))))))))))))"

definition valid_PayoutSnapshotV2 :: "DecodeLimits \<Rightarrow> PayoutSnapshotV2 \<Rightarrow> bool" where
  "valid_PayoutSnapshotV2 L v \<longleftrightarrow>
     valid_hash (ps_previous_snapshot_id v) \<and>
     valid_hash (ps_first_session_close_id v) \<and>
     valid_hash (ps_last_session_close_id v) \<and> valid_u512 (ps_work_window_target v) \<and>
     valid_u512 (ps_actual_work_in_window v) \<and>
     valid_vec MAX_BUCKETS valid_WorkBucketLeaf L (ps_work_buckets v) \<and>
     valid_vec MAX_BUCKETS valid_ServiceBucketLeaf L (ps_service_buckets v) \<and>
     valid_hash (ps_share_set_root v) \<and> valid_hash (ps_service_set_root v) \<and>
     valid_hash (ps_settlement_committee_id v) \<and>
     valid_SignatureSet L (ps_signer_set v) \<and>
     sorted_wrt (<) (map wb_bucket_id (ps_work_buckets v)) \<and>
     sorted_wrt (<) (map sb_bucket_id (ps_service_buckets v))"

interpretation payout_snapshot_codec:
  canonical_codec encode_PayoutSnapshotV2 decode_PayoutSnapshotV2 valid_PayoutSnapshotV2
  unfolding encode_PayoutSnapshotV2_def encode_unsigned_PayoutSnapshotV2_def decode_PayoutSnapshotV2_def
    valid_PayoutSnapshotV2_def Let_def
  by unfold_locales (simp add: codec_rt valid_defs validate_PayoutSnapshotV2_ok valid_SignatureSet_def, auto simp: valid_defs validate_PayoutSnapshotV2_ok valid_SignatureSet_def elim!: codec_inv)

section \<open>PayoutPlanV2\<close>

record PayoutPlanV2 =
  pp_protocol_version :: u16
  pp_network_id :: u8
  pp_plan_sequence :: u64
  pp_snapshot_id :: hash256
  pp_entropy_anchor_start :: u32
  pp_entropy_anchor_count :: u16
  pp_entropy_hashes :: "hash256 list"
  pp_prior_beacon :: hash256
  pp_plan_seed :: hash256
  pp_work_ticket_count :: u16
  pp_service_ticket_count :: u16
  pp_work_winners :: "hash256 list"
  pp_service_winners :: "hash256 list"
  pp_selection_transcript_hash :: hash256
  pp_signer_set :: SignatureSet

definition encode_unsigned_PayoutPlanV2 :: "PayoutPlanV2 \<Rightarrow> bytes" where
  "encode_unsigned_PayoutPlanV2 v =
     encode_prefix (pp_protocol_version v) (pp_network_id v) @
     enc_u64 (pp_plan_sequence v) @
     enc_fixed (pp_snapshot_id v) @
     enc_u32 (pp_entropy_anchor_start v) @
     enc_u16 (pp_entropy_anchor_count v) @
     encode_hashes (pp_entropy_hashes v) @
     enc_fixed (pp_prior_beacon v) @
     enc_fixed (pp_plan_seed v) @
     enc_u16 (pp_work_ticket_count v) @
     enc_u16 (pp_service_ticket_count v) @
     encode_hashes (pp_work_winners v) @
     encode_hashes (pp_service_winners v) @
     enc_fixed (pp_selection_transcript_hash v)"

definition encode_PayoutPlanV2 :: "PayoutPlanV2 \<Rightarrow> bytes" where
  "encode_PayoutPlanV2 v = encode_unsigned_PayoutPlanV2 v @ encode_SignatureSet (pp_signer_set v)"

definition object_id_PayoutPlanV2 :: "(bytes \<Rightarrow> hash256) \<Rightarrow> PayoutPlanV2 \<Rightarrow> hash256" where
  "object_id_PayoutPlanV2 H v = domain_hash H ''meshmine/payout-plan/v2'' (encode_unsigned_PayoutPlanV2 v)"

definition decode_PayoutPlanV2 :: "PayoutPlanV2 decode" where
  "decode_PayoutPlanV2 =
     dbind decode_prefix (\<lambda>(protocol_version, network_id).
     dbind dec_u64 (\<lambda>plan_sequence.
     dbind (dec_array 32) (\<lambda>snapshot_id.
     dbind dec_u32 (\<lambda>entropy_anchor_start.
     dbind dec_u16 (\<lambda>entropy_anchor_count.
     dbind decode_hashes (\<lambda>entropy_hashes.
     dbind (dec_array 32) (\<lambda>prior_beacon.
     dbind (dec_array 32) (\<lambda>plan_seed.
     dbind dec_u16 (\<lambda>work_ticket_count.
     dbind dec_u16 (\<lambda>service_ticket_count.
     dbind decode_hashes (\<lambda>work_winners.
     dbind decode_hashes (\<lambda>service_winners.
     dbind (dec_array 32) (\<lambda>selection_transcript_hash.
     dbind decode_SignatureSet (\<lambda>signer_set.
     let result = \<lparr>pp_protocol_version = protocol_version, pp_network_id = network_id,
       pp_plan_sequence = plan_sequence, pp_snapshot_id = snapshot_id,
       pp_entropy_anchor_start = entropy_anchor_start,
       pp_entropy_anchor_count = entropy_anchor_count, pp_entropy_hashes = entropy_hashes,
       pp_prior_beacon = prior_beacon, pp_plan_seed = plan_seed,
       pp_work_ticket_count = work_ticket_count,
       pp_service_ticket_count = service_ticket_count, pp_work_winners = work_winners,
       pp_service_winners = service_winners,
       pp_selection_transcript_hash = selection_transcript_hash, pp_signer_set = signer_set\<rparr>
     in if unat (pp_entropy_anchor_count result) \<noteq> length (pp_entropy_hashes result)
        then dfail (InvalidField ''entropy anchor count does not match entropy hashes'')
        else dreturn result))))))))))))))"

definition valid_PayoutPlanV2 :: "DecodeLimits \<Rightarrow> PayoutPlanV2 \<Rightarrow> bool" where
  "valid_PayoutPlanV2 L v \<longleftrightarrow>
     valid_hash (pp_snapshot_id v) \<and> valid_hashes L (pp_entropy_hashes v) \<and>
     valid_hash (pp_prior_beacon v) \<and> valid_hash (pp_plan_seed v) \<and>
     valid_hashes L (pp_work_winners v) \<and> valid_hashes L (pp_service_winners v) \<and>
     valid_hash (pp_selection_transcript_hash v) \<and>
     valid_SignatureSet L (pp_signer_set v) \<and>
     unat (pp_entropy_anchor_count v) = length (pp_entropy_hashes v)"

interpretation payout_plan_codec:
  canonical_codec encode_PayoutPlanV2 decode_PayoutPlanV2 valid_PayoutPlanV2
  unfolding encode_PayoutPlanV2_def encode_unsigned_PayoutPlanV2_def decode_PayoutPlanV2_def
    valid_PayoutPlanV2_def Let_def
  by unfold_locales (simp add: codec_rt valid_defs, auto simp: valid_defs elim!: codec_inv split: if_splits)

end
