(* ===== verification/Objects_Body.thy ===== *)
theory Objects_Body
  imports Core_Common
begin

text \<open>
  Block-body and parent objects of \<open>crates/meshmine-types/src/objects.rs\<close>: template cores, body
  packages, erasure descriptors, availability certificates and parent certificates.  Field names
  carry the prefixes \<open>tc_\<close>, \<open>bp_\<close>, \<open>be_\<close>, \<open>ac_\<close>, \<open>pc_\<close>.  Decoding a body package recomputes the
  identifier of its template core, so its decoder takes the hash \<open>H\<close>.
\<close>

section \<open>TemplateCoreV2\<close>

record TemplateCoreV2 =
  tc_protocol_version :: u16
  tc_network_id :: u8
  tc_hns_parent_hash :: hash256
  tc_hns_parent_height :: u32
  tc_operator_pubkey :: bytes
  tc_operator_fee_bucket_id :: hash256
  tc_payout_snapshot_id :: hash256
  tc_payout_plan_id :: hash256
  tc_plan_sequence :: u64
  tc_ordered_non_coinbase_txids :: "hash256 list"
  tc_ordered_claim_ids :: "hash256 list"
  tc_ordered_airdrop_ids :: "hash256 list"
  tc_block_version :: u32
  tc_bits :: u32
  tc_minimum_ntime :: u64
  tc_policy_commitment :: hash256

definition encode_unsigned_TemplateCoreV2 :: "TemplateCoreV2 \<Rightarrow> bytes" where
  "encode_unsigned_TemplateCoreV2 v =
     encode_prefix (tc_protocol_version v) (tc_network_id v) @
     enc_fixed (tc_hns_parent_hash v) @
     enc_u32 (tc_hns_parent_height v) @
     enc_fixed (tc_operator_pubkey v) @
     enc_fixed (tc_operator_fee_bucket_id v) @
     enc_fixed (tc_payout_snapshot_id v) @
     enc_fixed (tc_payout_plan_id v) @
     enc_u64 (tc_plan_sequence v) @
     encode_hashes (tc_ordered_non_coinbase_txids v) @
     encode_hashes (tc_ordered_claim_ids v) @
     encode_hashes (tc_ordered_airdrop_ids v) @
     enc_u32 (tc_block_version v) @
     enc_u32 (tc_bits v) @
     enc_u64 (tc_minimum_ntime v) @
     enc_fixed (tc_policy_commitment v)"

definition encode_TemplateCoreV2 :: "TemplateCoreV2 \<Rightarrow> bytes" where
  "encode_TemplateCoreV2 v = encode_unsigned_TemplateCoreV2 v"

definition object_id_TemplateCoreV2 :: "(bytes \<Rightarrow> hash256) \<Rightarrow> TemplateCoreV2 \<Rightarrow> hash256" where
  "object_id_TemplateCoreV2 H v = domain_hash H ''meshmine/template-core/v2'' (encode_unsigned_TemplateCoreV2 v)"

definition decode_TemplateCoreV2 :: "TemplateCoreV2 decode" where
  "decode_TemplateCoreV2 =
     dbind decode_prefix (\<lambda>(protocol_version, network_id).
     dbind (dec_array 32) (\<lambda>hns_parent_hash.
     dbind dec_u32 (\<lambda>hns_parent_height.
     dbind (dec_array 32) (\<lambda>operator_pubkey.
     dbind (dec_array 32) (\<lambda>operator_fee_bucket_id.
     dbind (dec_array 32) (\<lambda>payout_snapshot_id.
     dbind (dec_array 32) (\<lambda>payout_plan_id.
     dbind dec_u64 (\<lambda>plan_sequence.
     dbind decode_hashes (\<lambda>ordered_non_coinbase_txids.
     dbind decode_hashes (\<lambda>ordered_claim_ids.
     dbind decode_hashes (\<lambda>ordered_airdrop_ids.
     dbind dec_u32 (\<lambda>block_version.
     dbind dec_u32 (\<lambda>bits.
     dbind dec_u64 (\<lambda>minimum_ntime.
     dbind (dec_array 32) (\<lambda>policy_commitment.
     dreturn \<lparr>tc_protocol_version = protocol_version, tc_network_id = network_id,
       tc_hns_parent_hash = hns_parent_hash, tc_hns_parent_height = hns_parent_height,
       tc_operator_pubkey = operator_pubkey,
       tc_operator_fee_bucket_id = operator_fee_bucket_id,
       tc_payout_snapshot_id = payout_snapshot_id, tc_payout_plan_id = payout_plan_id,
       tc_plan_sequence = plan_sequence,
       tc_ordered_non_coinbase_txids = ordered_non_coinbase_txids,
       tc_ordered_claim_ids = ordered_claim_ids, tc_ordered_airdrop_ids = ordered_airdrop_ids,
       tc_block_version = block_version, tc_bits = bits, tc_minimum_ntime = minimum_ntime,
       tc_policy_commitment = policy_commitment\<rparr>)))))))))))))))"

definition valid_TemplateCoreV2 :: "DecodeLimits \<Rightarrow> TemplateCoreV2 \<Rightarrow> bool" where
  "valid_TemplateCoreV2 L v \<longleftrightarrow>
     valid_hash (tc_hns_parent_hash v) \<and> valid_hash (tc_operator_pubkey v) \<and>
     valid_hash (tc_operator_fee_bucket_id v) \<and>
     valid_hash (tc_payout_snapshot_id v) \<and> valid_hash (tc_payout_plan_id v) \<and>
     valid_hashes L (tc_ordered_non_coinbase_txids v) \<and>
     valid_hashes L (tc_ordered_claim_ids v) \<and>
     valid_hashes L (tc_ordered_airdrop_ids v) \<and> valid_hash (tc_policy_commitment v)"

interpretation template_core_codec:
  canonical_codec encode_TemplateCoreV2 decode_TemplateCoreV2 valid_TemplateCoreV2
  unfolding encode_TemplateCoreV2_def encode_unsigned_TemplateCoreV2_def decode_TemplateCoreV2_def
    valid_TemplateCoreV2_def Let_def
  by unfold_locales (simp add: codec_rt valid_defs, auto simp: valid_defs elim!: codec_inv)

lemmas template_codec_rt [codec_rt] = template_core_codec.dec_enc

lemmas template_codec_inv [codec_inv] = template_core_codec.inv_dec

lemma valid_bytes_codec: "canonical_codec enc_bytes (dec_bytes_of m) (valid_bytes m)"
  using bytes_codec [of m] by (simp add: valid_bytes_def [abs_def])

interpretation transactions_codec: canonical_codec "enc_vec enc_bytes"
    "dec_vec MAX_OBJECT_HASHES (dec_bytes_of MAX_BODY_BYTES)"
    "valid_vec MAX_OBJECT_HASHES (valid_bytes MAX_BODY_BYTES)"
  by (rule canonical_codec.vec_codec [OF valid_bytes_codec]) (simp add: max_defs)

lemmas transactions_codec_rt [codec_rt] = transactions_codec.dec_enc

lemmas transactions_codec_inv [codec_inv] = transactions_codec.inv_dec

section \<open>BlockBodyPackageV2\<close>

record BlockBodyPackageV2 =
  bp_protocol_version :: u16
  bp_network_id :: u8
  bp_template_core :: TemplateCoreV2
  bp_template_core_id :: hash256
  bp_coinbase_raw :: bytes
  bp_transactions_raw :: "bytes list"
  bp_merkle_root :: hash256
  bp_witness_root :: hash256
  bp_tree_root :: hash256
  bp_reserved_root :: hash256
  bp_block_weight :: u32
  bp_block_sigops :: u32
  bp_miner_subsidy :: u64
  bp_ordinary_transaction_fees :: u64
  bp_claim_airdrop_principal :: u64
  bp_claim_airdrop_fees :: u64
  bp_operator_fee_value :: u64
  bp_work_service_subsidy_value :: u64
  bp_consensus_validation_result_hash :: hash256
  bp_operator_signature :: SignatureBytes

definition encode_unsigned_BlockBodyPackageV2 :: "BlockBodyPackageV2 \<Rightarrow> bytes" where
  "encode_unsigned_BlockBodyPackageV2 v =
     encode_prefix (bp_protocol_version v) (bp_network_id v) @
     encode_TemplateCoreV2 (bp_template_core v) @
     enc_fixed (bp_template_core_id v) @
     enc_bytes (bp_coinbase_raw v) @
     enc_vec enc_bytes (bp_transactions_raw v) @
     enc_fixed (bp_merkle_root v) @
     enc_fixed (bp_witness_root v) @
     enc_fixed (bp_tree_root v) @
     enc_fixed (bp_reserved_root v) @
     enc_u32 (bp_block_weight v) @
     enc_u32 (bp_block_sigops v) @
     enc_u64 (bp_miner_subsidy v) @
     enc_u64 (bp_ordinary_transaction_fees v) @
     enc_u64 (bp_claim_airdrop_principal v) @
     enc_u64 (bp_claim_airdrop_fees v) @
     enc_u64 (bp_operator_fee_value v) @
     enc_u64 (bp_work_service_subsidy_value v) @
     enc_fixed (bp_consensus_validation_result_hash v)"

definition encode_BlockBodyPackageV2 :: "BlockBodyPackageV2 \<Rightarrow> bytes" where
  "encode_BlockBodyPackageV2 v = encode_unsigned_BlockBodyPackageV2 v @ encode_SignatureBytes (bp_operator_signature v)"

definition object_id_BlockBodyPackageV2 :: "(bytes \<Rightarrow> hash256) \<Rightarrow> BlockBodyPackageV2 \<Rightarrow> hash256" where
  "object_id_BlockBodyPackageV2 H v = domain_hash H ''meshmine/body-package/v2'' (encode_unsigned_BlockBodyPackageV2 v)"

definition validate_links :: "(bytes \<Rightarrow> hash256) \<Rightarrow> BlockBodyPackageV2 \<Rightarrow> ObjectError + unit" where
  "validate_links H v =
     (if bp_protocol_version v \<noteq> tc_protocol_version (bp_template_core v)
         \<or> bp_network_id v \<noteq> tc_network_id (bp_template_core v)
      then Inl (Codec (InvalidField ''body and template version/network mismatch''))
      else if object_id_TemplateCoreV2 H (bp_template_core v) \<noteq> bp_template_core_id v
      then Inl (Codec (InvalidField ''template core ID mismatch''))
      else Inr ())"

lemma validate_links_ok:
  "validate_links H v = Inr u \<longleftrightarrow>
     bp_protocol_version v = tc_protocol_version (bp_template_core v) \<and>
     bp_network_id v = tc_network_id (bp_template_core v) \<and>
     object_id_TemplateCoreV2 H (bp_template_core v) = bp_template_core_id v"
  by (auto simp: validate_links_def)

definition decode_BlockBodyPackageV2 :: "(bytes \<Rightarrow> hash256) \<Rightarrow> BlockBodyPackageV2 decode" where
  "decode_BlockBodyPackageV2 H =
     dbind decode_prefix (\<lambda>(protocol_version, network_id).
     dbind decode_TemplateCoreV2 (\<lambda>template_core.
     dbind (dec_array 32) (\<lambda>template_core_id.
     dbind (dec_bytes_of MAX_BODY_BYTES) (\<lambda>coinbase_raw.
     dbind (dec_vec MAX_OBJECT_HASHES (dec_bytes_of MAX_BODY_BYTES)) (\<lambda>transactions_raw.
     dbind (dec_array 32) (\<lambda>merkle_root.
     dbind (dec_array 32) (\<lambda>witness_root.
     dbind (dec_array 32) (\<lambda>tree_root.
     dbind (dec_array 32) (\<lambda>reserved_root.
     dbind dec_u32 (\<lambda>block_weight.
     dbind dec_u32 (\<lambda>block_sigops.
     dbind dec_u64 (\<lambda>miner_subsidy.
     dbind dec_u64 (\<lambda>ordinary_transaction_fees.
     dbind dec_u64 (\<lambda>claim_airdrop_principal.
     dbind dec_u64 (\<lambda>claim_airdrop_fees.
     dbind dec_u64 (\<lambda>operator_fee_value.
     dbind dec_u64 (\<lambda>work_service_subsidy_value.
     dbind (dec_array 32) (\<lambda>consensus_validation_result_hash.
     dbind decode_SignatureBytes (\<lambda>operator_signature.
     let result = \<lparr>bp_protocol_version = protocol_version, bp_network_id = network_id,
       bp_template_core = template_core, bp_template_core_id = template_core_id,
       bp_coinbase_raw = coinbase_raw, bp_transactions_raw = transactions_raw,
       bp_merkle_root = merkle_root, bp_witness_root = witness_root, bp_tree_root = tree_root,
       bp_reserved_root = reserved_root, bp_block_weight = block_weight,
       bp_block_sigops = block_sigops, bp_miner_subsidy = miner_subsidy,
       bp_ordinary_transaction_fees = ordinary_transaction_fees,
       bp_claim_airdrop_principal = claim_airdrop_principal,
       bp_claim_airdrop_fees = claim_airdrop_fees, bp_operator_fee_value = operator_fee_value,
       bp_work_service_subsidy_value = work_service_subsidy_value,
       bp_consensus_validation_result_hash = consensus_validation_result_hash,
       bp_operator_signature = operator_signature\<rparr>
     in dvalidate (validate_links H result) (InvalidField ''invalid body/template linkage'') result)))))))))))))))))))"

definition valid_BlockBodyPackageV2 :: "(bytes \<Rightarrow> hash256) \<Rightarrow> DecodeLimits \<Rightarrow> BlockBodyPackageV2 \<Rightarrow> bool" where
  "valid_BlockBodyPackageV2 H L v \<longleftrightarrow>
     valid_TemplateCoreV2 L (bp_template_core v) \<and>
     valid_hash (bp_template_core_id v) \<and>
     valid_bytes MAX_BODY_BYTES L (bp_coinbase_raw v) \<and>
     valid_vec MAX_OBJECT_HASHES (valid_bytes MAX_BODY_BYTES) L (bp_transactions_raw v) \<and>
     valid_hash (bp_merkle_root v) \<and> valid_hash (bp_witness_root v) \<and>
     valid_hash (bp_tree_root v) \<and> valid_hash (bp_reserved_root v) \<and>
     valid_hash (bp_consensus_validation_result_hash v) \<and>
     valid_SignatureBytes L (bp_operator_signature v) \<and>
     bp_protocol_version v = tc_protocol_version (bp_template_core v) \<and>
     bp_network_id v = tc_network_id (bp_template_core v) \<and>
     object_id_TemplateCoreV2 H (bp_template_core v) = bp_template_core_id v"

interpretation block_body_package_codec:
  canonical_codec encode_BlockBodyPackageV2 "decode_BlockBodyPackageV2 H" "valid_BlockBodyPackageV2 H" for H
  unfolding encode_BlockBodyPackageV2_def encode_unsigned_BlockBodyPackageV2_def decode_BlockBodyPackageV2_def
    valid_BlockBodyPackageV2_def Let_def
  by unfold_locales (simp add: codec_rt valid_defs validate_links_ok, auto simp: valid_defs validate_links_ok elim!: codec_inv)

section \<open>BodyErasureDescriptorV2\<close>

record BodyErasureDescriptorV2 =
  be_protocol_version :: u16
  be_network_id :: u8
  be_body_package_id :: hash256
  be_original_size :: u32
  be_data_shards :: u16
  be_parity_shards :: u16
  be_shard_size :: u32
  be_shard_merkle_root :: hash256
  be_expiry_height :: u32
  be_compression :: u16

definition encode_unsigned_BodyErasureDescriptorV2 :: "BodyErasureDescriptorV2 \<Rightarrow> bytes" where
  "encode_unsigned_BodyErasureDescriptorV2 v =
     encode_prefix (be_protocol_version v) (be_network_id v) @
     enc_fixed (be_body_package_id v) @
     enc_u32 (be_original_size v) @
     enc_u16 (be_data_shards v) @
     enc_u16 (be_parity_shards v) @
     enc_u32 (be_shard_size v) @
     enc_fixed (be_shard_merkle_root v) @
     enc_u32 (be_expiry_height v) @
     enc_u16 (be_compression v)"

definition encode_BodyErasureDescriptorV2 :: "BodyErasureDescriptorV2 \<Rightarrow> bytes" where
  "encode_BodyErasureDescriptorV2 v = encode_unsigned_BodyErasureDescriptorV2 v"

definition object_id_BodyErasureDescriptorV2 :: "(bytes \<Rightarrow> hash256) \<Rightarrow> BodyErasureDescriptorV2 \<Rightarrow> hash256" where
  "object_id_BodyErasureDescriptorV2 H v = domain_hash H ''meshmine/body-erasure/v2'' (encode_unsigned_BodyErasureDescriptorV2 v)"

definition decode_BodyErasureDescriptorV2 :: "BodyErasureDescriptorV2 decode" where
  "decode_BodyErasureDescriptorV2 =
     dbind decode_prefix (\<lambda>(protocol_version, network_id).
     dbind (dec_array 32) (\<lambda>body_package_id.
     dbind dec_u32 (\<lambda>original_size.
     dbind dec_u16 (\<lambda>data_shards.
     dbind dec_u16 (\<lambda>parity_shards.
     dbind dec_u32 (\<lambda>shard_size.
     dbind (dec_array 32) (\<lambda>shard_merkle_root.
     dbind dec_u32 (\<lambda>expiry_height.
     dbind dec_u16 (\<lambda>compression.
     dreturn \<lparr>be_protocol_version = protocol_version, be_network_id = network_id,
       be_body_package_id = body_package_id, be_original_size = original_size,
       be_data_shards = data_shards, be_parity_shards = parity_shards,
       be_shard_size = shard_size, be_shard_merkle_root = shard_merkle_root,
       be_expiry_height = expiry_height, be_compression = compression\<rparr>)))))))))"

definition valid_BodyErasureDescriptorV2 :: "DecodeLimits \<Rightarrow> BodyErasureDescriptorV2 \<Rightarrow> bool" where
  "valid_BodyErasureDescriptorV2 L v \<longleftrightarrow>
     valid_hash (be_body_package_id v) \<and> valid_hash (be_shard_merkle_root v)"

interpretation body_erasure_descriptor_codec:
  canonical_codec encode_BodyErasureDescriptorV2 decode_BodyErasureDescriptorV2 valid_BodyErasureDescriptorV2
  unfolding encode_BodyErasureDescriptorV2_def encode_unsigned_BodyErasureDescriptorV2_def decode_BodyErasureDescriptorV2_def
    valid_BodyErasureDescriptorV2_def Let_def
  by unfold_locales (simp add: codec_rt valid_defs, auto simp: valid_defs elim!: codec_inv)

section \<open>BodyAvailabilityCertificateV2\<close>

record BodyAvailabilityCertificateV2 =
  ac_protocol_version :: u16
  ac_network_id :: u8
  ac_descriptor_id :: hash256
  ac_parent_hash :: hash256
  ac_parent_height :: u32
  ac_consensus_validation_result_hash :: hash256
  ac_challenge_round :: u64
  ac_challenge_transcript_root :: hash256
  ac_signer_set :: SignatureSet

definition encode_unsigned_BodyAvailabilityCertificateV2 :: "BodyAvailabilityCertificateV2 \<Rightarrow> bytes" where
  "encode_unsigned_BodyAvailabilityCertificateV2 v =
     encode_prefix (ac_protocol_version v) (ac_network_id v) @
     enc_fixed (ac_descriptor_id v) @
     enc_fixed (ac_parent_hash v) @
     enc_u32 (ac_parent_height v) @
     enc_fixed (ac_consensus_validation_result_hash v) @
     enc_u64 (ac_challenge_round v) @
     enc_fixed (ac_challenge_transcript_root v)"

definition encode_BodyAvailabilityCertificateV2 :: "BodyAvailabilityCertificateV2 \<Rightarrow> bytes" where
  "encode_BodyAvailabilityCertificateV2 v = encode_unsigned_BodyAvailabilityCertificateV2 v @ encode_SignatureSet (ac_signer_set v)"

definition object_id_BodyAvailabilityCertificateV2 :: "(bytes \<Rightarrow> hash256) \<Rightarrow> BodyAvailabilityCertificateV2 \<Rightarrow> hash256" where
  "object_id_BodyAvailabilityCertificateV2 H v = domain_hash H ''meshmine/body-certificate/v2'' (encode_unsigned_BodyAvailabilityCertificateV2 v)"

definition decode_BodyAvailabilityCertificateV2 :: "BodyAvailabilityCertificateV2 decode" where
  "decode_BodyAvailabilityCertificateV2 =
     dbind decode_prefix (\<lambda>(protocol_version, network_id).
     dbind (dec_array 32) (\<lambda>descriptor_id.
     dbind (dec_array 32) (\<lambda>parent_hash.
     dbind dec_u32 (\<lambda>parent_height.
     dbind (dec_array 32) (\<lambda>consensus_validation_result_hash.
     dbind dec_u64 (\<lambda>challenge_round.
     dbind (dec_array 32) (\<lambda>challenge_transcript_root.
     dbind decode_SignatureSet (\<lambda>signer_set.
     dreturn \<lparr>ac_protocol_version = protocol_version, ac_network_id = network_id,
       ac_descriptor_id = descriptor_id, ac_parent_hash = parent_hash,
       ac_parent_height = parent_height,
       ac_consensus_validation_result_hash = consensus_validation_result_hash,
       ac_challenge_round = challenge_round,
       ac_challenge_transcript_root = challenge_transcript_root, ac_signer_set = signer_set\<rparr>))))))))"

definition valid_BodyAvailabilityCertificateV2 :: "DecodeLimits \<Rightarrow> BodyAvailabilityCertificateV2 \<Rightarrow> bool" where
  "valid_BodyAvailabilityCertificateV2 L v \<longleftrightarrow>
     valid_hash (ac_descriptor_id v) \<and> valid_hash (ac_parent_hash v) \<and>
     valid_hash (ac_consensus_validation_result_hash v) \<and>
     valid_hash (ac_challenge_transcript_root v) \<and> valid_SignatureSet L (ac_signer_set v)"

interpretation body_availability_certificate_codec:
  canonical_codec encode_BodyAvailabilityCertificateV2 decode_BodyAvailabilityCertificateV2 valid_BodyAvailabilityCertificateV2
  unfolding encode_BodyAvailabilityCertificateV2_def encode_unsigned_BodyAvailabilityCertificateV2_def decode_BodyAvailabilityCertificateV2_def
    valid_BodyAvailabilityCertificateV2_def Let_def
  by unfold_locales (simp add: codec_rt valid_defs, auto simp: valid_defs elim!: codec_inv)

section \<open>SessionParentCertificateV2\<close>

record SessionParentCertificateV2 =
  pc_protocol_version :: u16
  pc_network_id :: u8
  pc_parent_hash :: hash256
  pc_parent_height :: u32
  pc_parent_chainwork :: U256
  pc_observed_ntime :: u64
  pc_certificate_sequence :: u64
  pc_previous_parent_certificate_id :: hash256
  pc_signer_set :: SignatureSet

definition encode_unsigned_SessionParentCertificateV2 :: "SessionParentCertificateV2 \<Rightarrow> bytes" where
  "encode_unsigned_SessionParentCertificateV2 v =
     encode_prefix (pc_protocol_version v) (pc_network_id v) @
     enc_fixed (pc_parent_hash v) @
     enc_u32 (pc_parent_height v) @
     encode_u256 (pc_parent_chainwork v) @
     enc_u64 (pc_observed_ntime v) @
     enc_u64 (pc_certificate_sequence v) @
     enc_fixed (pc_previous_parent_certificate_id v)"

definition encode_SessionParentCertificateV2 :: "SessionParentCertificateV2 \<Rightarrow> bytes" where
  "encode_SessionParentCertificateV2 v = encode_unsigned_SessionParentCertificateV2 v @ encode_SignatureSet (pc_signer_set v)"

definition object_id_SessionParentCertificateV2 :: "(bytes \<Rightarrow> hash256) \<Rightarrow> SessionParentCertificateV2 \<Rightarrow> hash256" where
  "object_id_SessionParentCertificateV2 H v = domain_hash H ''meshmine/parent-certificate/v2'' (encode_unsigned_SessionParentCertificateV2 v)"

definition decode_SessionParentCertificateV2 :: "SessionParentCertificateV2 decode" where
  "decode_SessionParentCertificateV2 =
     dbind decode_prefix (\<lambda>(protocol_version, network_id).
     dbind (dec_array 32) (\<lambda>parent_hash.
     dbind dec_u32 (\<lambda>parent_height.
     dbind decode_u256 (\<lambda>parent_chainwork.
     dbind dec_u64 (\<lambda>observed_ntime.
     dbind dec_u64 (\<lambda>certificate_sequence.
     dbind (dec_array 32) (\<lambda>previous_parent_certificate_id.
     dbind decode_SignatureSet (\<lambda>signer_set.
     dreturn \<lparr>pc_protocol_version = protocol_version, pc_network_id = network_id,
       pc_parent_hash = parent_hash, pc_parent_height = parent_height,
       pc_parent_chainwork = parent_chainwork, pc_observed_ntime = observed_ntime,
       pc_certificate_sequence = certificate_sequence,
       pc_previous_parent_certificate_id = previous_parent_certificate_id,
       pc_signer_set = signer_set\<rparr>))))))))"

definition valid_SessionParentCertificateV2 :: "DecodeLimits \<Rightarrow> SessionParentCertificateV2 \<Rightarrow> bool" where
  "valid_SessionParentCertificateV2 L v \<longleftrightarrow>
     valid_hash (pc_parent_hash v) \<and> valid_hash (pc_parent_chainwork v) \<and>
     valid_hash (pc_previous_parent_certificate_id v) \<and>
     valid_SignatureSet L (pc_signer_set v)"

interpretation session_parent_certificate_codec:
  canonical_codec encode_SessionParentCertificateV2 decode_SessionParentCertificateV2 valid_SessionParentCertificateV2
  unfolding encode_SessionParentCertificateV2_def encode_unsigned_SessionParentCertificateV2_def decode_SessionParentCertificateV2_def
    valid_SessionParentCertificateV2_def Let_def
  by unfold_locales (simp add: codec_rt valid_defs, auto simp: valid_defs elim!: codec_inv)

end
