(* ===== verification/Objects_Mining.thy ===== *)
theory Objects_Mining
  imports Core_Common
begin

text \<open>
  Session and share objects of \<open>crates/meshmine-types/src/objects.rs\<close>: mask sessions, assignments,
  gateway assignments, shares, receipt batches and session closes.  Field names carry the prefixes
  \<open>ms_\<close>, \<open>asg_\<close>, \<open>ga_\<close>, \<open>sh_\<close>, \<open>rb_\<close>, \<open>sc_\<close>.
\<close>

section \<open>MaskSessionV2\<close>

record MaskSessionV2 =
  ms_protocol_version :: u16
  ms_network_id :: u8
  ms_lane_id :: u16
  ms_session_sequence :: u64
  ms_parent_certificate_id :: hash256
  ms_parent_hash :: hash256
  ms_hns_network_target :: U256
  ms_capture_target :: U256
  ms_accounting_target :: U256
  ms_leading_zero_prefix_q :: u16
  ms_blind_band_bits_d :: u16
  ms_mask_hash :: hash256
  ms_mask_commitment_root :: hash256
  ms_mask_committee_id :: hash256
  ms_fast_eval_policy :: u16
  ms_assignment_start_ms :: u64
  ms_assignment_end_ms :: u64
  ms_submission_end_ms :: u64
  ms_timed_open_after_ms :: u64
  ms_previous_session_id :: hash256
  ms_signer_set :: SignatureSet

definition encode_unsigned_MaskSessionV2 :: "MaskSessionV2 \<Rightarrow> bytes" where
  "encode_unsigned_MaskSessionV2 v =
     encode_prefix (ms_protocol_version v) (ms_network_id v) @
     enc_u16 (ms_lane_id v) @
     enc_u64 (ms_session_sequence v) @
     enc_fixed (ms_parent_certificate_id v) @
     enc_fixed (ms_parent_hash v) @
     encode_u256 (ms_hns_network_target v) @
     encode_u256 (ms_capture_target v) @
     encode_u256 (ms_accounting_target v) @
     enc_u16 (ms_leading_zero_prefix_q v) @
     enc_u16 (ms_blind_band_bits_d v) @
     enc_fixed (ms_mask_hash v) @
     enc_fixed (ms_mask_commitment_root v) @
     enc_fixed (ms_mask_committee_id v) @
     enc_u16 (ms_fast_eval_policy v) @
     enc_u64 (ms_assignment_start_ms v) @
     enc_u64 (ms_assignment_end_ms v) @
     enc_u64 (ms_submission_end_ms v) @
     enc_u64 (ms_timed_open_after_ms v) @
     enc_fixed (ms_previous_session_id v)"

definition encode_MaskSessionV2 :: "MaskSessionV2 \<Rightarrow> bytes" where
  "encode_MaskSessionV2 v = encode_unsigned_MaskSessionV2 v @ encode_SignatureSet (ms_signer_set v)"

definition object_id_MaskSessionV2 :: "(bytes \<Rightarrow> hash256) \<Rightarrow> MaskSessionV2 \<Rightarrow> hash256" where
  "object_id_MaskSessionV2 H v = domain_hash H ''meshmine/mask-session/v2'' (encode_unsigned_MaskSessionV2 v)"

definition decode_MaskSessionV2 :: "MaskSessionV2 decode" where
  "decode_MaskSessionV2 =
     dbind decode_prefix (\<lambda>(protocol_version, network_id).
     dbind dec_u16 (\<lambda>lane_id.
     dbind dec_u64 (\<lambda>session_sequence.
     dbind (dec_array 32) (\<lambda>parent_certificate_id.
     dbind (dec_array 32) (\<lambda>parent_hash.
     dbind decode_u256 (\<lambda>hns_network_target.
     dbind decode_u256 (\<lambda>capture_target.
     dbind decode_u256 (\<lambda>accounting_target.
     dbind dec_u16 (\<lambda>leading_zero_prefix_q.
     dbind dec_u16 (\<lambda>blind_band_bits_d.
     dbind (dec_array 32) (\<lambda>mask_hash.
     dbind (dec_array 32) (\<lambda>mask_commitment_root.
     dbind (dec_array 32) (\<lambda>mask_committee_id.
     dbind dec_u16 (\<lambda>fast_eval_policy.
     dbind dec_u64 (\<lambda>assignment_start_ms.
     dbind dec_u64 (\<lambda>assignment_end_ms.
     dbind dec_u64 (\<lambda>submission_end_ms.
     dbind dec_u64 (\<lambda>timed_open_after_ms.
     dbind (dec_array 32) (\<lambda>previous_session_id.
     dbind decode_SignatureSet (\<lambda>signer_set.
     dreturn \<lparr>ms_protocol_version = protocol_version, ms_network_id = network_id,
       ms_lane_id = lane_id, ms_session_sequence = session_sequence,
       ms_parent_certificate_id = parent_certificate_id, ms_parent_hash = parent_hash,
       ms_hns_network_target = hns_network_target, ms_capture_target = capture_target,
       ms_accounting_target = accounting_target,
       ms_leading_zero_prefix_q = leading_zero_prefix_q,
       ms_blind_band_bits_d = blind_band_bits_d, ms_mask_hash = mask_hash,
       ms_mask_commitment_root = mask_commitment_root,
       ms_mask_committee_id = mask_committee_id, ms_fast_eval_policy = fast_eval_policy,
       ms_assignment_start_ms = assignment_start_ms, ms_assignment_end_ms = assignment_end_ms,
       ms_submission_end_ms = submission_end_ms, ms_timed_open_after_ms = timed_open_after_ms,
       ms_previous_session_id = previous_session_id, ms_signer_set = signer_set\<rparr>))))))))))))))))))))"

definition valid_MaskSessionV2 :: "DecodeLimits \<Rightarrow> MaskSessionV2 \<Rightarrow> bool" where
  "valid_MaskSessionV2 L v \<longleftrightarrow>
     valid_hash (ms_parent_certificate_id v) \<and> valid_hash (ms_parent_hash v) \<and>
     valid_hash (ms_hns_network_target v) \<and> valid_hash (ms_capture_target v) \<and>
     valid_hash (ms_accounting_target v) \<and> valid_hash (ms_mask_hash v) \<and>
     valid_hash (ms_mask_commitment_root v) \<and> valid_hash (ms_mask_committee_id v) \<and>
     valid_hash (ms_previous_session_id v) \<and> valid_SignatureSet L (ms_signer_set v)"

interpretation mask_session_codec:
  canonical_codec encode_MaskSessionV2 decode_MaskSessionV2 valid_MaskSessionV2
  unfolding encode_MaskSessionV2_def encode_unsigned_MaskSessionV2_def decode_MaskSessionV2_def
    valid_MaskSessionV2_def Let_def
  by unfold_locales (simp add: codec_rt valid_defs, auto simp: valid_defs elim!: codec_inv)

section \<open>AssignmentV2\<close>

record AssignmentV2 =
  asg_protocol_version :: u16
  asg_network_id :: u8
  asg_session_id :: hash256
  asg_body_package_id :: hash256
  asg_body_certificate_id :: hash256
  asg_operator_pubkey :: bytes
  asg_worker_id_hash :: hash256
  asg_payout_bucket_id :: hash256
  asg_assignment_sequence :: u64
  asg_ntime :: u64
  asg_extra_nonce :: bytes
  asg_nonce_start :: u32
  asg_nonce_end :: u32
  asg_nonce_stride :: u32
  asg_edge_target :: U256
  asg_capture_target :: U256
  asg_telemetry_level :: u8
  asg_operator_signature :: SignatureBytes

definition encode_unsigned_AssignmentV2 :: "AssignmentV2 \<Rightarrow> bytes" where
  "encode_unsigned_AssignmentV2 v =
     encode_prefix (asg_protocol_version v) (asg_network_id v) @
     enc_fixed (asg_session_id v) @
     enc_fixed (asg_body_package_id v) @
     enc_fixed (asg_body_certificate_id v) @
     enc_fixed (asg_operator_pubkey v) @
     enc_fixed (asg_worker_id_hash v) @
     enc_fixed (asg_payout_bucket_id v) @
     enc_u64 (asg_assignment_sequence v) @
     enc_u64 (asg_ntime v) @
     enc_fixed (asg_extra_nonce v) @
     enc_u32 (asg_nonce_start v) @
     enc_u32 (asg_nonce_end v) @
     enc_u32 (asg_nonce_stride v) @
     encode_u256 (asg_edge_target v) @
     encode_u256 (asg_capture_target v) @
     enc_u8 (asg_telemetry_level v)"

definition encode_AssignmentV2 :: "AssignmentV2 \<Rightarrow> bytes" where
  "encode_AssignmentV2 v = encode_unsigned_AssignmentV2 v @ encode_SignatureBytes (asg_operator_signature v)"

definition object_id_AssignmentV2 :: "(bytes \<Rightarrow> hash256) \<Rightarrow> AssignmentV2 \<Rightarrow> hash256" where
  "object_id_AssignmentV2 H v = domain_hash H ''meshmine/assignment/v2'' (encode_unsigned_AssignmentV2 v)"

definition decode_AssignmentV2 :: "AssignmentV2 decode" where
  "decode_AssignmentV2 =
     dbind decode_prefix (\<lambda>(protocol_version, network_id).
     dbind (dec_array 32) (\<lambda>session_id.
     dbind (dec_array 32) (\<lambda>body_package_id.
     dbind (dec_array 32) (\<lambda>body_certificate_id.
     dbind (dec_array 32) (\<lambda>operator_pubkey.
     dbind (dec_array 32) (\<lambda>worker_id_hash.
     dbind (dec_array 32) (\<lambda>payout_bucket_id.
     dbind dec_u64 (\<lambda>assignment_sequence.
     dbind dec_u64 (\<lambda>ntime.
     dbind (dec_array 24) (\<lambda>extra_nonce.
     dbind dec_u32 (\<lambda>nonce_start.
     dbind dec_u32 (\<lambda>nonce_end.
     dbind dec_u32 (\<lambda>nonce_stride.
     dbind decode_u256 (\<lambda>edge_target.
     dbind decode_u256 (\<lambda>capture_target.
     dbind dec_u8 (\<lambda>telemetry_level.
     dbind decode_SignatureBytes (\<lambda>operator_signature.
     dreturn \<lparr>asg_protocol_version = protocol_version, asg_network_id = network_id,
       asg_session_id = session_id, asg_body_package_id = body_package_id,
       asg_body_certificate_id = body_certificate_id, asg_operator_pubkey = operator_pubkey,
       asg_worker_id_hash = worker_id_hash, asg_payout_bucket_id = payout_bucket_id,
       asg_assignment_sequence = assignment_sequence, asg_ntime = ntime,
       asg_extra_nonce = extra_nonce, asg_nonce_start = nonce_start, asg_nonce_end = nonce_end,
       asg_nonce_stride = nonce_stride, asg_edge_target = edge_target,
       asg_capture_target = capture_target, asg_telemetry_level = telemetry_level,
       asg_operator_signature = operator_signature\<rparr>)))))))))))))))))"

definition valid_AssignmentV2 :: "DecodeLimits \<Rightarrow> AssignmentV2 \<Rightarrow> bool" where
  "valid_AssignmentV2 L v \<longleftrightarrow>
     valid_hash (asg_session_id v) \<and> valid_hash (asg_body_package_id v) \<and>
     valid_hash (asg_body_certificate_id v) \<and> valid_hash (asg_operator_pubkey v) \<and>
     valid_hash (asg_worker_id_hash v) \<and> valid_hash (asg_payout_bucket_id v) \<and>
     length (asg_extra_nonce v) = 24 \<and> valid_hash (asg_edge_target v) \<and>
     valid_hash (asg_capture_target v) \<and> valid_SignatureBytes L (asg_operator_signature v)"

interpretation assignment_codec:
  canonical_codec encode_AssignmentV2 decode_AssignmentV2 valid_AssignmentV2
  unfolding encode_AssignmentV2_def encode_unsigned_AssignmentV2_def decode_AssignmentV2_def
    valid_AssignmentV2_def Let_def
  by unfold_locales (simp add: codec_rt valid_defs, auto simp: valid_defs elim!: codec_inv)

section \<open>GatewayAssignmentV1\<close>

record GatewayAssignmentV1 =
  ga_core_protocol_version :: u16
  ga_handoff_version :: u16
  ga_network_id :: u8
  ga_session_id :: hash256
  ga_body_package_id :: hash256
  ga_body_certificate_id :: hash256
  ga_operator_pubkey :: bytes
  ga_gateway_pubkey :: bytes
  ga_core_handoff_pubkey :: bytes
  ga_worker_id_hash :: hash256
  ga_payout_bucket_id :: hash256
  ga_assignment_sequence :: u64
  ga_ntime :: u64
  ga_extra_nonce_profile :: u16
  ga_observation_policy :: u16
  ga_maximum_clock_skew_ms :: u64
  ga_extra_nonce_prefix :: bytes
  ga_extra_nonce2_start_be :: bytes
  ga_extra_nonce2_end_be :: bytes
  ga_nonce_start :: u32
  ga_nonce_end :: u32
  ga_nonce_stride :: u32
  ga_edge_target :: U256
  ga_capture_target :: U256
  ga_telemetry_level :: u8
  ga_operator_signature :: SignatureBytes

definition encode_unsigned_GatewayAssignmentV1 :: "GatewayAssignmentV1 \<Rightarrow> bytes" where
  "encode_unsigned_GatewayAssignmentV1 v =
     enc_u16 (ga_core_protocol_version v) @
     enc_u16 (ga_handoff_version v) @
     enc_u8 (ga_network_id v) @
     enc_fixed (ga_session_id v) @
     enc_fixed (ga_body_package_id v) @
     enc_fixed (ga_body_certificate_id v) @
     enc_fixed (ga_operator_pubkey v) @
     enc_fixed (ga_gateway_pubkey v) @
     enc_fixed (ga_core_handoff_pubkey v) @
     enc_fixed (ga_worker_id_hash v) @
     enc_fixed (ga_payout_bucket_id v) @
     enc_u64 (ga_assignment_sequence v) @
     enc_u64 (ga_ntime v) @
     enc_u16 (ga_extra_nonce_profile v) @
     enc_u16 (ga_observation_policy v) @
     enc_u64 (ga_maximum_clock_skew_ms v) @
     enc_fixed (ga_extra_nonce_prefix v) @
     enc_fixed (ga_extra_nonce2_start_be v) @
     enc_fixed (ga_extra_nonce2_end_be v) @
     enc_u32 (ga_nonce_start v) @
     enc_u32 (ga_nonce_end v) @
     enc_u32 (ga_nonce_stride v) @
     encode_u256 (ga_edge_target v) @
     encode_u256 (ga_capture_target v) @
     enc_u8 (ga_telemetry_level v)"

definition encode_GatewayAssignmentV1 :: "GatewayAssignmentV1 \<Rightarrow> bytes" where
  "encode_GatewayAssignmentV1 v = encode_unsigned_GatewayAssignmentV1 v @ encode_SignatureBytes (ga_operator_signature v)"

definition object_id_GatewayAssignmentV1 :: "(bytes \<Rightarrow> hash256) \<Rightarrow> GatewayAssignmentV1 \<Rightarrow> hash256" where
  "object_id_GatewayAssignmentV1 H v = domain_hash H ''meshmine/gateway-assignment/v1'' (encode_unsigned_GatewayAssignmentV1 v)"

definition decode_GatewayAssignmentV1 :: "GatewayAssignmentV1 decode" where
  "decode_GatewayAssignmentV1 =
     dbind dec_u16 (\<lambda>core_protocol_version.
     dbind dec_u16 (\<lambda>handoff_version.
     dbind dec_u8 (\<lambda>network_id.
     dbind (dec_array 32) (\<lambda>session_id.
     dbind (dec_array 32) (\<lambda>body_package_id.
     dbind (dec_array 32) (\<lambda>body_certificate_id.
     dbind (dec_array 32) (\<lambda>operator_pubkey.
     dbind (dec_array 32) (\<lambda>gateway_pubkey.
     dbind (dec_array 32) (\<lambda>core_handoff_pubkey.
     dbind (dec_array 32) (\<lambda>worker_id_hash.
     dbind (dec_array 32) (\<lambda>payout_bucket_id.
     dbind dec_u64 (\<lambda>assignment_sequence.
     dbind dec_u64 (\<lambda>ntime.
     dbind dec_u16 (\<lambda>extra_nonce_profile.
     dbind dec_u16 (\<lambda>observation_policy.
     dbind dec_u64 (\<lambda>maximum_clock_skew_ms.
     dbind (dec_array 4) (\<lambda>extra_nonce_prefix.
     dbind (dec_array 4) (\<lambda>extra_nonce2_start_be.
     dbind (dec_array 4) (\<lambda>extra_nonce2_end_be.
     dbind dec_u32 (\<lambda>nonce_start.
     dbind dec_u32 (\<lambda>nonce_end.
     dbind dec_u32 (\<lambda>nonce_stride.
     dbind decode_u256 (\<lambda>edge_target.
     dbind decode_u256 (\<lambda>capture_target.
     dbind dec_u8 (\<lambda>telemetry_level.
     dbind decode_SignatureBytes (\<lambda>operator_signature.
     dreturn \<lparr>ga_core_protocol_version = core_protocol_version, ga_handoff_version = handoff_version,
       ga_network_id = network_id, ga_session_id = session_id,
       ga_body_package_id = body_package_id, ga_body_certificate_id = body_certificate_id,
       ga_operator_pubkey = operator_pubkey, ga_gateway_pubkey = gateway_pubkey,
       ga_core_handoff_pubkey = core_handoff_pubkey, ga_worker_id_hash = worker_id_hash,
       ga_payout_bucket_id = payout_bucket_id, ga_assignment_sequence = assignment_sequence,
       ga_ntime = ntime, ga_extra_nonce_profile = extra_nonce_profile,
       ga_observation_policy = observation_policy,
       ga_maximum_clock_skew_ms = maximum_clock_skew_ms,
       ga_extra_nonce_prefix = extra_nonce_prefix,
       ga_extra_nonce2_start_be = extra_nonce2_start_be,
       ga_extra_nonce2_end_be = extra_nonce2_end_be, ga_nonce_start = nonce_start,
       ga_nonce_end = nonce_end, ga_nonce_stride = nonce_stride, ga_edge_target = edge_target,
       ga_capture_target = capture_target, ga_telemetry_level = telemetry_level,
       ga_operator_signature = operator_signature\<rparr>))))))))))))))))))))))))))"

definition valid_GatewayAssignmentV1 :: "DecodeLimits \<Rightarrow> GatewayAssignmentV1 \<Rightarrow> bool" where
  "valid_GatewayAssignmentV1 L v \<longleftrightarrow>
     valid_hash (ga_session_id v) \<and> valid_hash (ga_body_package_id v) \<and>
     valid_hash (ga_body_certificate_id v) \<and> valid_hash (ga_operator_pubkey v) \<and>
     valid_hash (ga_gateway_pubkey v) \<and> valid_hash (ga_core_handoff_pubkey v) \<and>
     valid_hash (ga_worker_id_hash v) \<and> valid_hash (ga_payout_bucket_id v) \<and>
     length (ga_extra_nonce_prefix v) = 4 \<and> length (ga_extra_nonce2_start_be v) = 4 \<and>
     length (ga_extra_nonce2_end_be v) = 4 \<and> valid_hash (ga_edge_target v) \<and>
     valid_hash (ga_capture_target v) \<and> valid_SignatureBytes L (ga_operator_signature v)"

interpretation gateway_assignment_codec:
  canonical_codec encode_GatewayAssignmentV1 decode_GatewayAssignmentV1 valid_GatewayAssignmentV1
  unfolding encode_GatewayAssignmentV1_def encode_unsigned_GatewayAssignmentV1_def decode_GatewayAssignmentV1_def
    valid_GatewayAssignmentV1_def Let_def
  by unfold_locales (simp add: codec_rt valid_defs, auto simp: valid_defs elim!: codec_inv)

definition GATEWAY_EXTRA_NONCE_PROFILE_HANDY_PREFIX4_VARIABLE4_ZERO16 :: u16 where
  "GATEWAY_EXTRA_NONCE_PROFILE_HANDY_PREFIX4_VARIABLE4_ZERO16 = 1"

definition accepts_extra_nonce :: "GatewayAssignmentV1 \<Rightarrow> bytes \<Rightarrow> bool" where
  "accepts_extra_nonce v extra_nonce \<longleftrightarrow>
     ga_extra_nonce_profile v = GATEWAY_EXTRA_NONCE_PROFILE_HANDY_PREFIX4_VARIABLE4_ZERO16
     \<and> ga_extra_nonce2_start_be v \<le> ga_extra_nonce2_end_be v
     \<and> take 4 extra_nonce = ga_extra_nonce_prefix v
     \<and> take 4 (drop 4 extra_nonce) \<ge> ga_extra_nonce2_start_be v
     \<and> take 4 (drop 4 extra_nonce) \<le> ga_extra_nonce2_end_be v
     \<and> list_all (\<lambda>byte. byte = 0) (drop 8 extra_nonce)"

section \<open>ShareV2\<close>

definition MAX_DAG_PARENTS :: nat where
  "MAX_DAG_PARENTS = 4"

lemma hash_vec_codec: "canonical_codec enc_fixed (dec_array 32) (\<lambda>_. valid_hash)"
  using dec_array_codec [of 32] by (simp add: valid_hash_def [abs_def])

lemma parents_codec:
  "canonical_codec encode_hashes (dec_vec MAX_DAG_PARENTS (dec_array 32))
     (valid_vec MAX_DAG_PARENTS (\<lambda>_. valid_hash))"
  using canonical_codec.vec_codec [OF hash_vec_codec, of MAX_DAG_PARENTS]
  by (simp add: encode_hashes_def [abs_def] MAX_DAG_PARENTS_def usize_max_def)

interpretation parents_codec: canonical_codec encode_hashes
    "dec_vec MAX_DAG_PARENTS (dec_array 32)" "valid_vec MAX_DAG_PARENTS (\<lambda>_. valid_hash)"
  by (rule parents_codec)

lemmas parents_codec_rt [codec_rt] = parents_codec.dec_enc

lemmas parents_codec_inv [codec_inv] = parents_codec.inv_dec

record ShareV2 =
  sh_protocol_version :: u16
  sh_network_id :: u8
  sh_session_id :: hash256
  sh_assignment_id :: hash256
  sh_body_package_id :: hash256
  sh_operator_pubkey :: bytes
  sh_payout_bucket_id :: hash256
  sh_nonce :: u32
  sh_ntime :: u64
  sh_extra_nonce :: bytes
  sh_raw_share_hash :: hash256
  sh_declared_target :: U256
  sh_gossip_parent_hashes :: "hash256 list"
  sh_local_telemetry_hash :: "hash256 option"
  sh_operator_signature :: SignatureBytes

definition encode_unsigned_ShareV2 :: "ShareV2 \<Rightarrow> bytes" where
  "encode_unsigned_ShareV2 v =
     encode_prefix (sh_protocol_version v) (sh_network_id v) @
     enc_fixed (sh_session_id v) @
     enc_fixed (sh_assignment_id v) @
     enc_fixed (sh_body_package_id v) @
     enc_fixed (sh_operator_pubkey v) @
     enc_fixed (sh_payout_bucket_id v) @
     enc_u32 (sh_nonce v) @
     enc_u64 (sh_ntime v) @
     enc_fixed (sh_extra_nonce v) @
     enc_fixed (sh_raw_share_hash v) @
     encode_u256 (sh_declared_target v) @
     encode_hashes (sh_gossip_parent_hashes v) @
     encode_option enc_fixed (sh_local_telemetry_hash v)"

definition encode_ShareV2 :: "ShareV2 \<Rightarrow> bytes" where
  "encode_ShareV2 v = encode_unsigned_ShareV2 v @ encode_SignatureBytes (sh_operator_signature v)"

definition object_id_ShareV2 :: "(bytes \<Rightarrow> hash256) \<Rightarrow> ShareV2 \<Rightarrow> hash256" where
  "object_id_ShareV2 H v = domain_hash H ''meshmine/share/v2'' (encode_unsigned_ShareV2 v)"

definition work_key :: "(bytes \<Rightarrow> hash256) \<Rightarrow> ShareV2 \<Rightarrow> hash256" where
  "work_key H v = domain_hash H ''meshmine/share-work-key/v2''
     (enc_fixed (sh_session_id v) @
      enc_fixed (sh_body_package_id v) @
      enc_u64 (sh_ntime v) @
      enc_fixed (sh_extra_nonce v) @
      enc_u32 (sh_nonce v) @
      enc_fixed (sh_raw_share_hash v))"

text \<open>The set of parents is built to count the distinct ones.\<close>

definition validate_parents :: "ShareV2 \<Rightarrow> ObjectError + unit" where
  "validate_parents v =
     (if length (sh_gossip_parent_hashes v) > MAX_DAG_PARENTS
      then Inl (Codec (LengthLimit (length (sh_gossip_parent_hashes v)) MAX_DAG_PARENTS))
      else if length (remdups (sh_gossip_parent_hashes v)) \<noteq> length (sh_gossip_parent_hashes v)
      then Inl UnsortedDagParents
      else Inr ())"

lemma distinct_card_remdups: "length (remdups xs) = length xs \<longleftrightarrow> distinct xs"
  by (metis distinct_remdups_id length_remdups_eq remdups_id_iff_distinct)

lemma validate_parents_ok:
  "validate_parents v = Inr u \<longleftrightarrow>
     length (sh_gossip_parent_hashes v) \<le> MAX_DAG_PARENTS \<and> distinct (sh_gossip_parent_hashes v)"
  by (auto simp: validate_parents_def distinct_card_remdups)

definition decode_ShareV2 :: "ShareV2 decode" where
  "decode_ShareV2 =
     dbind decode_prefix (\<lambda>(protocol_version, network_id).
     dbind (dec_array 32) (\<lambda>session_id.
     dbind (dec_array 32) (\<lambda>assignment_id.
     dbind (dec_array 32) (\<lambda>body_package_id.
     dbind (dec_array 32) (\<lambda>operator_pubkey.
     dbind (dec_array 32) (\<lambda>payout_bucket_id.
     dbind dec_u32 (\<lambda>nonce.
     dbind dec_u64 (\<lambda>ntime.
     dbind (dec_array 24) (\<lambda>extra_nonce.
     dbind (dec_array 32) (\<lambda>raw_share_hash.
     dbind decode_u256 (\<lambda>declared_target.
     dbind (dec_vec MAX_DAG_PARENTS (dec_array 32)) (\<lambda>gossip_parent_hashes.
     dbind (dec_option (dec_array 32)) (\<lambda>local_telemetry_hash.
     dbind decode_SignatureBytes (\<lambda>operator_signature.
     let result = \<lparr>sh_protocol_version = protocol_version, sh_network_id = network_id,
       sh_session_id = session_id, sh_assignment_id = assignment_id,
       sh_body_package_id = body_package_id, sh_operator_pubkey = operator_pubkey,
       sh_payout_bucket_id = payout_bucket_id, sh_nonce = nonce, sh_ntime = ntime,
       sh_extra_nonce = extra_nonce, sh_raw_share_hash = raw_share_hash,
       sh_declared_target = declared_target, sh_gossip_parent_hashes = gossip_parent_hashes,
       sh_local_telemetry_hash = local_telemetry_hash,
       sh_operator_signature = operator_signature\<rparr>
     in dvalidate (validate_parents result) (InvalidField ''duplicate DAG parents'') result))))))))))))))"

definition valid_ShareV2 :: "DecodeLimits \<Rightarrow> ShareV2 \<Rightarrow> bool" where
  "valid_ShareV2 L v \<longleftrightarrow>
     valid_hash (sh_session_id v) \<and> valid_hash (sh_assignment_id v) \<and>
     valid_hash (sh_body_package_id v) \<and> valid_hash (sh_operator_pubkey v) \<and>
     valid_hash (sh_payout_bucket_id v) \<and> length (sh_extra_nonce v) = 24 \<and>
     valid_hash (sh_raw_share_hash v) \<and> valid_hash (sh_declared_target v) \<and>
     valid_vec MAX_DAG_PARENTS (\<lambda>_. valid_hash) L (sh_gossip_parent_hashes v) \<and>
     valid_hash_option (sh_local_telemetry_hash v) \<and>
     valid_SignatureBytes L (sh_operator_signature v) \<and>
     distinct (sh_gossip_parent_hashes v)"

interpretation share_codec:
  canonical_codec encode_ShareV2 decode_ShareV2 valid_ShareV2
  unfolding encode_ShareV2_def encode_unsigned_ShareV2_def decode_ShareV2_def
    valid_ShareV2_def Let_def
  by unfold_locales (simp add: codec_rt valid_defs validate_parents_ok valid_vec_def, auto simp: valid_defs validate_parents_ok valid_vec_def elim!: codec_inv)

section \<open>ReceiptBatchV2\<close>

record ReceiptBatchV2 =
  rb_protocol_version :: u16
  rb_network_id :: u8
  rb_session_id :: hash256
  rb_batch_sequence :: u64
  rb_previous_batch_id :: hash256
  rb_accepted_share_ids :: "hash256 list"
  rb_accepted_work_keys :: "hash256 list"
  rb_credited_work :: "U512 list"
  rb_share_merkle_root :: hash256
  rb_cumulative_share_count :: u64
  rb_cumulative_credited_work :: U512
  rb_signer_set :: SignatureSet

definition encode_unsigned_ReceiptBatchV2 :: "ReceiptBatchV2 \<Rightarrow> bytes" where
  "encode_unsigned_ReceiptBatchV2 v =
     encode_prefix (rb_protocol_version v) (rb_network_id v) @
     enc_fixed (rb_session_id v) @
     enc_u64 (rb_batch_sequence v) @
     enc_fixed (rb_previous_batch_id v) @
     encode_hashes (rb_accepted_share_ids v) @
     encode_hashes (rb_accepted_work_keys v) @
     encode_u512s (rb_credited_work v) @
     enc_fixed (rb_share_merkle_root v) @
     enc_u64 (rb_cumulative_share_count v) @
     encode_u512 (rb_cumulative_credited_work v)"

definition encode_ReceiptBatchV2 :: "ReceiptBatchV2 \<Rightarrow> bytes" where
  "encode_ReceiptBatchV2 v = encode_unsigned_ReceiptBatchV2 v @ encode_SignatureSet (rb_signer_set v)"

definition object_id_ReceiptBatchV2 :: "(bytes \<Rightarrow> hash256) \<Rightarrow> ReceiptBatchV2 \<Rightarrow> hash256" where
  "object_id_ReceiptBatchV2 H v = domain_hash H ''meshmine/receipt-batch/v2'' (encode_unsigned_ReceiptBatchV2 v)"

definition validate_entries :: "ReceiptBatchV2 \<Rightarrow> ObjectError + unit" where
  "validate_entries v =
     (if length (rb_accepted_work_keys v) \<noteq> length (rb_accepted_share_ids v)
         \<or> length (rb_credited_work v) \<noteq> length (rb_accepted_share_ids v)
      then Inl ReceiptLengthMismatch
      else if windows2_any (\<lambda>previous current. previous \<ge> current)
                (zip (rb_accepted_work_keys v) (rb_accepted_share_ids v))
      then Inl UnsortedReceiptEntries
      else res_bind (validate_order (rb_signer_set v)) (\<lambda>_. Inr ()))"

lemma validate_entries_ok:
  "validate_entries v = Inr u \<longleftrightarrow>
     length (rb_accepted_work_keys v) = length (rb_accepted_share_ids v) \<and>
     length (rb_credited_work v) = length (rb_accepted_share_ids v) \<and>
     sorted_wrt (<) (zip (rb_accepted_work_keys v) (rb_accepted_share_ids v)) \<and>
     sorted_wrt (<) (map sgs_signer_pubkey (sset_signatures (rb_signer_set v)))"
  by (auto simp: validate_entries_def windows2_any_strict_id [symmetric] res_simps)

definition decode_ReceiptBatchV2 :: "ReceiptBatchV2 decode" where
  "decode_ReceiptBatchV2 =
     dbind decode_prefix (\<lambda>(protocol_version, network_id).
     dbind (dec_array 32) (\<lambda>session_id.
     dbind dec_u64 (\<lambda>batch_sequence.
     dbind (dec_array 32) (\<lambda>previous_batch_id.
     dbind decode_hashes (\<lambda>accepted_share_ids.
     dbind decode_hashes (\<lambda>accepted_work_keys.
     dbind decode_u512s (\<lambda>credited_work.
     dbind (dec_array 32) (\<lambda>share_merkle_root.
     dbind dec_u64 (\<lambda>cumulative_share_count.
     dbind decode_u512 (\<lambda>cumulative_credited_work.
     dbind decode_SignatureSet (\<lambda>signer_set.
     let result = \<lparr>rb_protocol_version = protocol_version, rb_network_id = network_id,
       rb_session_id = session_id, rb_batch_sequence = batch_sequence,
       rb_previous_batch_id = previous_batch_id, rb_accepted_share_ids = accepted_share_ids,
       rb_accepted_work_keys = accepted_work_keys, rb_credited_work = credited_work,
       rb_share_merkle_root = share_merkle_root,
       rb_cumulative_share_count = cumulative_share_count,
       rb_cumulative_credited_work = cumulative_credited_work, rb_signer_set = signer_set\<rparr>
     in dvalidate (validate_entries result) (InvalidField ''invalid receipt entries'') result)))))))))))"

definition valid_ReceiptBatchV2 :: "DecodeLimits \<Rightarrow> ReceiptBatchV2 \<Rightarrow> bool" where
  "valid_ReceiptBatchV2 L v \<longleftrightarrow>
     valid_hash (rb_session_id v) \<and> valid_hash (rb_previous_batch_id v) \<and>
     valid_hashes L (rb_accepted_share_ids v) \<and>
     valid_hashes L (rb_accepted_work_keys v) \<and>
     valid_vec MAX_OBJECT_HASHES (\<lambda>_. valid_u512) L (rb_credited_work v) \<and>
     valid_hash (rb_share_merkle_root v) \<and>
     valid_u512 (rb_cumulative_credited_work v) \<and>
     valid_SignatureSet L (rb_signer_set v) \<and>
     length (rb_accepted_work_keys v) = length (rb_accepted_share_ids v) \<and>
     length (rb_credited_work v) = length (rb_accepted_share_ids v) \<and>
     sorted_wrt (<) (zip (rb_accepted_work_keys v) (rb_accepted_share_ids v))"

interpretation receipt_batch_codec:
  canonical_codec encode_ReceiptBatchV2 decode_ReceiptBatchV2 valid_ReceiptBatchV2
  unfolding encode_ReceiptBatchV2_def encode_unsigned_ReceiptBatchV2_def decode_ReceiptBatchV2_def
    valid_ReceiptBatchV2_def Let_def
  by unfold_locales (simp add: codec_rt valid_defs validate_entries_ok valid_SignatureSet_def, auto simp: valid_defs validate_entries_ok valid_SignatureSet_def elim!: codec_inv)

section \<open>SessionCloseV2\<close>

record SessionCloseV2 =
  sc_protocol_version :: u16
  sc_network_id :: u8
  sc_session_id :: hash256
  sc_final_receipt_batch_id :: hash256
  sc_accepted_share_merkle_root :: hash256
  sc_accepted_work_key_root :: hash256
  sc_accepted_share_count :: u64
  sc_total_credited_work :: U512
  sc_close_reason :: u16
  sc_mask_opening_transcript_root :: hash256
  sc_discovered_hns_block_ids :: "hash256 list"
  sc_signer_set :: SignatureSet

definition encode_unsigned_SessionCloseV2 :: "SessionCloseV2 \<Rightarrow> bytes" where
  "encode_unsigned_SessionCloseV2 v =
     encode_prefix (sc_protocol_version v) (sc_network_id v) @
     enc_fixed (sc_session_id v) @
     enc_fixed (sc_final_receipt_batch_id v) @
     enc_fixed (sc_accepted_share_merkle_root v) @
     enc_fixed (sc_accepted_work_key_root v) @
     enc_u64 (sc_accepted_share_count v) @
     encode_u512 (sc_total_credited_work v) @
     enc_u16 (sc_close_reason v) @
     enc_fixed (sc_mask_opening_transcript_root v) @
     encode_hashes (sc_discovered_hns_block_ids v)"

definition encode_SessionCloseV2 :: "SessionCloseV2 \<Rightarrow> bytes" where
  "encode_SessionCloseV2 v = encode_unsigned_SessionCloseV2 v @ encode_SignatureSet (sc_signer_set v)"

definition object_id_SessionCloseV2 :: "(bytes \<Rightarrow> hash256) \<Rightarrow> SessionCloseV2 \<Rightarrow> hash256" where
  "object_id_SessionCloseV2 H v = domain_hash H ''meshmine/session-close/v2'' (encode_unsigned_SessionCloseV2 v)"

definition decode_SessionCloseV2 :: "SessionCloseV2 decode" where
  "decode_SessionCloseV2 =
     dbind decode_prefix (\<lambda>(protocol_version, network_id).
     dbind (dec_array 32) (\<lambda>session_id.
     dbind (dec_array 32) (\<lambda>final_receipt_batch_id.
     dbind (dec_array 32) (\<lambda>accepted_share_merkle_root.
     dbind (dec_array 32) (\<lambda>accepted_work_key_root.
     dbind dec_u64 (\<lambda>accepted_share_count.
     dbind decode_u512 (\<lambda>total_credited_work.
     dbind dec_u16 (\<lambda>close_reason.
     dbind (dec_array 32) (\<lambda>mask_opening_transcript_root.
     dbind decode_hashes (\<lambda>discovered_hns_block_ids.
     dbind decode_SignatureSet (\<lambda>signer_set.
     dreturn \<lparr>sc_protocol_version = protocol_version, sc_network_id = network_id,
       sc_session_id = session_id, sc_final_receipt_batch_id = final_receipt_batch_id,
       sc_accepted_share_merkle_root = accepted_share_merkle_root,
       sc_accepted_work_key_root = accepted_work_key_root,
       sc_accepted_share_count = accepted_share_count,
       sc_total_credited_work = total_credited_work, sc_close_reason = close_reason,
       sc_mask_opening_transcript_root = mask_opening_transcript_root,
       sc_discovered_hns_block_ids = discovered_hns_block_ids, sc_signer_set = signer_set\<rparr>)))))))))))"

definition valid_SessionCloseV2 :: "DecodeLimits \<Rightarrow> SessionCloseV2 \<Rightarrow> bool" where
  "valid_SessionCloseV2 L v \<longleftrightarrow>
     valid_hash (sc_session_id v) \<and> valid_hash (sc_final_receipt_batch_id v) \<and>
     valid_hash (sc_accepted_share_merkle_root v) \<and>
     valid_hash (sc_accepted_work_key_root v) \<and>
     valid_u512 (sc_total_credited_work v) \<and>
     valid_hash (sc_mask_opening_transcript_root v) \<and>
     valid_hashes L (sc_discovered_hns_block_ids v) \<and>
     valid_SignatureSet L (sc_signer_set v)"

interpretation session_close_codec:
  canonical_codec encode_SessionCloseV2 decode_SessionCloseV2 valid_SessionCloseV2
  unfolding encode_SessionCloseV2_def encode_unsigned_SessionCloseV2_def decode_SessionCloseV2_def
    valid_SessionCloseV2_def Let_def
  by unfold_locales (simp add: codec_rt valid_defs, auto simp: valid_defs elim!: codec_inv)

end
