(* ===== verification/Object_Ids.thy ===== *)
theory Object_Ids
  imports Objects_Payout Objects_Body Objects_Mining
begin

text \<open>
  Identifiers of the Core v2 objects. An object's identifier is the domain-separated hash of its
  encoding without the signature (the trait \<^verbatim>\<open>UnsignedObject\<close> of
  \<^verbatim>\<open>crates/meshmine-types/src/common.rs\<close>). The hash function is a parameter: the results say that
  the hash inputs themselves determine the object's type and every field but its signature, so
  that two objects share an identifier only if the hash function collides on these two inputs.
\<close>

section \<open>Domain separation\<close>

lemma of_char_inject: "(of_char c :: 8 word) = of_char d \<longleftrightarrow> c = d"
proof
  assume *: "(of_char c :: 8 word) = of_char d"
  have "of_char c = (word_of_nat (of_char c) :: 8 word)"
    "of_char d = (word_of_nat (of_char d) :: 8 word)"
    by (simp_all only: of_nat_of_char)
  with * have "unat (word_of_nat (of_char c) :: 8 word) = unat (word_of_nat (of_char d) :: 8 word)"
    by simp
  then have "(of_char c :: nat) = of_char d"
    using nat_of_char_less_256 [of c] nat_of_char_less_256 [of d]
    by (simp add: unat_of_nat)
  then show "c = d" by simp
qed simp

lemma str_bytes_inject: "str_bytes s = str_bytes t \<longleftrightarrow> s = t"
  unfolding str_bytes_def
  by (rule inj_map_eq_map) (simp add: inj_def of_char_inject)

lemma enc_bytes_prefix_free:
  assumes "enc_bytes a @ xs = enc_bytes b @ ys" "fits (enc_bytes a @ xs)"
  shows "a = b \<and> xs = ys"
  using bytes_codec.enc_prefix_free [of a "length a + length b"
      "default_limits\<lparr>max_object_bytes := length a + length b\<rparr>" b xs ys] assms
  by simp

text \<open>The bytes that are hashed for an identifier.\<close>

definition id_preimage :: "string \<Rightarrow> bytes \<Rightarrow> bytes" where
  "id_preimage tag body = enc_bytes (str_bytes tag) @ enc_fixed body"

lemma domain_hash_preimage: "domain_hash H tag body = H (id_preimage tag body)"
  by (simp add: domain_hash_def blake2b_256_def id_preimage_def)

lemma id_preimage_inject:
  assumes "id_preimage s a = id_preimage t b" "fits (id_preimage s a)"
  shows "s = t \<and> a = b"
  using enc_bytes_prefix_free [of "str_bytes s" a "str_bytes t" b] assms
  by (simp add: id_preimage_def enc_fixed_def str_bytes_inject)

lemma id_preimage_eq_iff:
  "fits (id_preimage s a) \<Longrightarrow> id_preimage s a = id_preimage t b \<longleftrightarrow> s = t \<and> a = b"
  using id_preimage_inject by blast

lemma domain_hash_inject:
  assumes "domain_hash H s a = domain_hash H t b" "fits (id_preimage s a)"
    and "inj_on H {id_preimage s a, id_preimage t b}"
  shows "s = t \<and> a = b"
proof -
  have "H (id_preimage s a) = H (id_preimage t b)"
    using assms(1) by (simp only: domain_hash_preimage)
  then have "id_preimage s a = id_preimage t b" by (rule inj_onD [OF assms(3)]) simp_all
  then show ?thesis using assms(2) by (rule id_preimage_inject)
qed

section \<open>Signed objects\<close>

text \<open>
  What a signed object promises beside its codec: its encoding is the unsigned part followed by
  the signature, and replacing the signature changes nothing else.
\<close>

locale signed_object = canonical_codec enc dec valid
  for enc :: "'a \<Rightarrow> bytes" and dec :: "'a decode" and valid :: "DecodeLimits \<Rightarrow> 'a \<Rightarrow> bool" +
  fixes unsigned :: "'a \<Rightarrow> bytes"
    and enc_sig :: "'s \<Rightarrow> bytes"
    and sig :: "'a \<Rightarrow> 's"
    and with_sig :: "'s \<Rightarrow> 'a \<Rightarrow> 'a"
  assumes enc_split: "enc v = unsigned v @ enc_sig (sig v)"
    and unsigned_with_sig: "unsigned (with_sig s v) = unsigned v"
    and sig_with_sig: "sig (with_sig s v) = s"
    and with_sig_with_sig: "with_sig s (with_sig t v) = with_sig s v"
    and valid_with_sig: "valid L v \<Longrightarrow> valid L w \<Longrightarrow> valid L (with_sig (sig v) w)"
begin

lemma unsigned_determines:
  assumes "valid L v" "valid L w" "fits (enc v)" "unsigned v = unsigned w"
  shows "with_sig s v = with_sig s w"
proof -
  have "enc (with_sig (sig v) w) = enc v"
    using assms(4) by (simp add: enc_split unsigned_with_sig sig_with_sig)
  then have "v = with_sig (sig v) w"
    using enc_prefix_free [of L v "with_sig (sig v) w" "[]" "[]"] assms valid_with_sig by simp
  then show ?thesis by (metis with_sig_with_sig)
qed

end

interpretation operator_record_signed: signed_object encode_OperatorRecordV2 decode_OperatorRecordV2 valid_OperatorRecordV2
  encode_unsigned_OperatorRecordV2 encode_SignatureBytes op_signature "\<lambda>s v. v\<lparr>op_signature := s\<rparr>"
  by unfold_locales (simp_all add: encode_OperatorRecordV2_def encode_unsigned_OperatorRecordV2_def valid_OperatorRecordV2_def)

interpretation payout_bucket_signed: signed_object encode_PayoutBucketV2 decode_PayoutBucketV2 valid_PayoutBucketV2
  encode_unsigned_PayoutBucketV2 encode_SignatureBytes pb_signature "\<lambda>s v. v\<lparr>pb_signature := s\<rparr>"
  by unfold_locales (simp_all add: encode_PayoutBucketV2_def encode_unsigned_PayoutBucketV2_def valid_PayoutBucketV2_def)

interpretation payout_snapshot_signed: signed_object encode_PayoutSnapshotV2 decode_PayoutSnapshotV2 valid_PayoutSnapshotV2
  encode_unsigned_PayoutSnapshotV2 encode_SignatureSet ps_signer_set "\<lambda>s v. v\<lparr>ps_signer_set := s\<rparr>"
  by unfold_locales (simp_all add: encode_PayoutSnapshotV2_def encode_unsigned_PayoutSnapshotV2_def valid_PayoutSnapshotV2_def)

interpretation payout_plan_signed: signed_object encode_PayoutPlanV2 decode_PayoutPlanV2 valid_PayoutPlanV2
  encode_unsigned_PayoutPlanV2 encode_SignatureSet pp_signer_set "\<lambda>s v. v\<lparr>pp_signer_set := s\<rparr>"
  by unfold_locales (simp_all add: encode_PayoutPlanV2_def encode_unsigned_PayoutPlanV2_def valid_PayoutPlanV2_def)

interpretation block_body_package_signed: signed_object encode_BlockBodyPackageV2 "decode_BlockBodyPackageV2 H" "valid_BlockBodyPackageV2 H"
  encode_unsigned_BlockBodyPackageV2 encode_SignatureBytes bp_operator_signature "\<lambda>s v. v\<lparr>bp_operator_signature := s\<rparr>" for H
  by unfold_locales (simp_all add: encode_BlockBodyPackageV2_def encode_unsigned_BlockBodyPackageV2_def valid_BlockBodyPackageV2_def)

interpretation body_availability_certificate_signed: signed_object encode_BodyAvailabilityCertificateV2 decode_BodyAvailabilityCertificateV2 valid_BodyAvailabilityCertificateV2
  encode_unsigned_BodyAvailabilityCertificateV2 encode_SignatureSet ac_signer_set "\<lambda>s v. v\<lparr>ac_signer_set := s\<rparr>"
  by unfold_locales (simp_all add: encode_BodyAvailabilityCertificateV2_def encode_unsigned_BodyAvailabilityCertificateV2_def valid_BodyAvailabilityCertificateV2_def)

interpretation session_parent_certificate_signed: signed_object encode_SessionParentCertificateV2 decode_SessionParentCertificateV2 valid_SessionParentCertificateV2
  encode_unsigned_SessionParentCertificateV2 encode_SignatureSet pc_signer_set "\<lambda>s v. v\<lparr>pc_signer_set := s\<rparr>"
  by unfold_locales (simp_all add: encode_SessionParentCertificateV2_def encode_unsigned_SessionParentCertificateV2_def valid_SessionParentCertificateV2_def)

interpretation mask_session_signed: signed_object encode_MaskSessionV2 decode_MaskSessionV2 valid_MaskSessionV2
  encode_unsigned_MaskSessionV2 encode_SignatureSet ms_signer_set "\<lambda>s v. v\<lparr>ms_signer_set := s\<rparr>"
  by unfold_locales (simp_all add: encode_MaskSessionV2_def encode_unsigned_MaskSessionV2_def valid_MaskSessionV2_def)

interpretation assignment_signed: signed_object encode_AssignmentV2 decode_AssignmentV2 valid_AssignmentV2
  encode_unsigned_AssignmentV2 encode_SignatureBytes asg_operator_signature "\<lambda>s v. v\<lparr>asg_operator_signature := s\<rparr>"
  by unfold_locales (simp_all add: encode_AssignmentV2_def encode_unsigned_AssignmentV2_def valid_AssignmentV2_def)

interpretation gateway_assignment_signed: signed_object encode_GatewayAssignmentV1 decode_GatewayAssignmentV1 valid_GatewayAssignmentV1
  encode_unsigned_GatewayAssignmentV1 encode_SignatureBytes ga_operator_signature "\<lambda>s v. v\<lparr>ga_operator_signature := s\<rparr>"
  by unfold_locales (simp_all add: encode_GatewayAssignmentV1_def encode_unsigned_GatewayAssignmentV1_def valid_GatewayAssignmentV1_def)

interpretation share_signed: signed_object encode_ShareV2 decode_ShareV2 valid_ShareV2
  encode_unsigned_ShareV2 encode_SignatureBytes sh_operator_signature "\<lambda>s v. v\<lparr>sh_operator_signature := s\<rparr>"
  by unfold_locales (simp_all add: encode_ShareV2_def encode_unsigned_ShareV2_def valid_ShareV2_def)

interpretation receipt_batch_signed: signed_object encode_ReceiptBatchV2 decode_ReceiptBatchV2 valid_ReceiptBatchV2
  encode_unsigned_ReceiptBatchV2 encode_SignatureSet rb_signer_set "\<lambda>s v. v\<lparr>rb_signer_set := s\<rparr>"
  by unfold_locales (simp_all add: encode_ReceiptBatchV2_def encode_unsigned_ReceiptBatchV2_def valid_ReceiptBatchV2_def)

interpretation session_close_signed: signed_object encode_SessionCloseV2 decode_SessionCloseV2 valid_SessionCloseV2
  encode_unsigned_SessionCloseV2 encode_SignatureSet sc_signer_set "\<lambda>s v. v\<lparr>sc_signer_set := s\<rparr>"
  by unfold_locales (simp_all add: encode_SessionCloseV2_def encode_unsigned_SessionCloseV2_def valid_SessionCloseV2_def)

section \<open>Every Core v2 object\<close>

text \<open>The types that implement \<^verbatim>\<open>UnsignedObject\<close>, put together.\<close>

datatype CoreObject =
  OperatorRecord OperatorRecordV2
| PayoutBucket PayoutBucketV2
| PayoutSnapshot PayoutSnapshotV2
| PayoutPlan PayoutPlanV2
| TemplateCore TemplateCoreV2
| BlockBodyPackage BlockBodyPackageV2
| BodyErasureDescriptor BodyErasureDescriptorV2
| BodyAvailabilityCertificate BodyAvailabilityCertificateV2
| SessionParentCertificate SessionParentCertificateV2
| MaskSession MaskSessionV2
| Assignment AssignmentV2
| GatewayAssignment GatewayAssignmentV1
| Share ShareV2
| ReceiptBatch ReceiptBatchV2
| SessionClose SessionCloseV2

fun core_domain :: "CoreObject \<Rightarrow> string" where
  "core_domain (OperatorRecord v) = ''meshmine/operator/v2''"
| "core_domain (PayoutBucket v) = ''meshmine/payout-bucket/v2''"
| "core_domain (PayoutSnapshot v) = ''meshmine/payout-snapshot/v2''"
| "core_domain (PayoutPlan v) = ''meshmine/payout-plan/v2''"
| "core_domain (TemplateCore v) = ''meshmine/template-core/v2''"
| "core_domain (BlockBodyPackage v) = ''meshmine/body-package/v2''"
| "core_domain (BodyErasureDescriptor v) = ''meshmine/body-erasure/v2''"
| "core_domain (BodyAvailabilityCertificate v) = ''meshmine/body-certificate/v2''"
| "core_domain (SessionParentCertificate v) = ''meshmine/parent-certificate/v2''"
| "core_domain (MaskSession v) = ''meshmine/mask-session/v2''"
| "core_domain (Assignment v) = ''meshmine/assignment/v2''"
| "core_domain (GatewayAssignment v) = ''meshmine/gateway-assignment/v1''"
| "core_domain (Share v) = ''meshmine/share/v2''"
| "core_domain (ReceiptBatch v) = ''meshmine/receipt-batch/v2''"
| "core_domain (SessionClose v) = ''meshmine/session-close/v2''"

fun core_unsigned :: "CoreObject \<Rightarrow> bytes" where
  "core_unsigned (OperatorRecord v) = encode_unsigned_OperatorRecordV2 v"
| "core_unsigned (PayoutBucket v) = encode_unsigned_PayoutBucketV2 v"
| "core_unsigned (PayoutSnapshot v) = encode_unsigned_PayoutSnapshotV2 v"
| "core_unsigned (PayoutPlan v) = encode_unsigned_PayoutPlanV2 v"
| "core_unsigned (TemplateCore v) = encode_unsigned_TemplateCoreV2 v"
| "core_unsigned (BlockBodyPackage v) = encode_unsigned_BlockBodyPackageV2 v"
| "core_unsigned (BodyErasureDescriptor v) = encode_unsigned_BodyErasureDescriptorV2 v"
| "core_unsigned (BodyAvailabilityCertificate v) = encode_unsigned_BodyAvailabilityCertificateV2 v"
| "core_unsigned (SessionParentCertificate v) = encode_unsigned_SessionParentCertificateV2 v"
| "core_unsigned (MaskSession v) = encode_unsigned_MaskSessionV2 v"
| "core_unsigned (Assignment v) = encode_unsigned_AssignmentV2 v"
| "core_unsigned (GatewayAssignment v) = encode_unsigned_GatewayAssignmentV1 v"
| "core_unsigned (Share v) = encode_unsigned_ShareV2 v"
| "core_unsigned (ReceiptBatch v) = encode_unsigned_ReceiptBatchV2 v"
| "core_unsigned (SessionClose v) = encode_unsigned_SessionCloseV2 v"

fun core_encode :: "CoreObject \<Rightarrow> bytes" where
  "core_encode (OperatorRecord v) = encode_OperatorRecordV2 v"
| "core_encode (PayoutBucket v) = encode_PayoutBucketV2 v"
| "core_encode (PayoutSnapshot v) = encode_PayoutSnapshotV2 v"
| "core_encode (PayoutPlan v) = encode_PayoutPlanV2 v"
| "core_encode (TemplateCore v) = encode_TemplateCoreV2 v"
| "core_encode (BlockBodyPackage v) = encode_BlockBodyPackageV2 v"
| "core_encode (BodyErasureDescriptor v) = encode_BodyErasureDescriptorV2 v"
| "core_encode (BodyAvailabilityCertificate v) = encode_BodyAvailabilityCertificateV2 v"
| "core_encode (SessionParentCertificate v) = encode_SessionParentCertificateV2 v"
| "core_encode (MaskSession v) = encode_MaskSessionV2 v"
| "core_encode (Assignment v) = encode_AssignmentV2 v"
| "core_encode (GatewayAssignment v) = encode_GatewayAssignmentV1 v"
| "core_encode (Share v) = encode_ShareV2 v"
| "core_encode (ReceiptBatch v) = encode_ReceiptBatchV2 v"
| "core_encode (SessionClose v) = encode_SessionCloseV2 v"

fun core_object_id :: "(bytes \<Rightarrow> hash256) \<Rightarrow> CoreObject \<Rightarrow> hash256" where
  "core_object_id H (OperatorRecord v) = object_id_OperatorRecordV2 H v"
| "core_object_id H (PayoutBucket v) = object_id_PayoutBucketV2 H v"
| "core_object_id H (PayoutSnapshot v) = object_id_PayoutSnapshotV2 H v"
| "core_object_id H (PayoutPlan v) = object_id_PayoutPlanV2 H v"
| "core_object_id H (TemplateCore v) = object_id_TemplateCoreV2 H v"
| "core_object_id H (BlockBodyPackage v) = object_id_BlockBodyPackageV2 H v"
| "core_object_id H (BodyErasureDescriptor v) = object_id_BodyErasureDescriptorV2 H v"
| "core_object_id H (BodyAvailabilityCertificate v) = object_id_BodyAvailabilityCertificateV2 H v"
| "core_object_id H (SessionParentCertificate v) = object_id_SessionParentCertificateV2 H v"
| "core_object_id H (MaskSession v) = object_id_MaskSessionV2 H v"
| "core_object_id H (Assignment v) = object_id_AssignmentV2 H v"
| "core_object_id H (GatewayAssignment v) = object_id_GatewayAssignmentV1 H v"
| "core_object_id H (Share v) = object_id_ShareV2 H v"
| "core_object_id H (ReceiptBatch v) = object_id_ReceiptBatchV2 H v"
| "core_object_id H (SessionClose v) = object_id_SessionCloseV2 H v"

fun core_valid :: "(bytes \<Rightarrow> hash256) \<Rightarrow> DecodeLimits \<Rightarrow> CoreObject \<Rightarrow> bool" where
  "core_valid H L (OperatorRecord v) = valid_OperatorRecordV2 L v"
| "core_valid H L (PayoutBucket v) = valid_PayoutBucketV2 L v"
| "core_valid H L (PayoutSnapshot v) = valid_PayoutSnapshotV2 L v"
| "core_valid H L (PayoutPlan v) = valid_PayoutPlanV2 L v"
| "core_valid H L (TemplateCore v) = valid_TemplateCoreV2 L v"
| "core_valid H L (BlockBodyPackage v) = valid_BlockBodyPackageV2 H L v"
| "core_valid H L (BodyErasureDescriptor v) = valid_BodyErasureDescriptorV2 L v"
| "core_valid H L (BodyAvailabilityCertificate v) = valid_BodyAvailabilityCertificateV2 L v"
| "core_valid H L (SessionParentCertificate v) = valid_SessionParentCertificateV2 L v"
| "core_valid H L (MaskSession v) = valid_MaskSessionV2 L v"
| "core_valid H L (Assignment v) = valid_AssignmentV2 L v"
| "core_valid H L (GatewayAssignment v) = valid_GatewayAssignmentV1 L v"
| "core_valid H L (Share v) = valid_ShareV2 L v"
| "core_valid H L (ReceiptBatch v) = valid_ReceiptBatchV2 L v"
| "core_valid H L (SessionClose v) = valid_SessionCloseV2 L v"

text \<open>An object with its signature emptied: what its identifier has to determine.\<close>

fun core_strip :: "CoreObject \<Rightarrow> CoreObject" where
  "core_strip (OperatorRecord v) = OperatorRecord (v\<lparr>op_signature := []\<rparr>)"
| "core_strip (PayoutBucket v) = PayoutBucket (v\<lparr>pb_signature := []\<rparr>)"
| "core_strip (PayoutSnapshot v) = PayoutSnapshot (v\<lparr>ps_signer_set := empty_ed25519\<rparr>)"
| "core_strip (PayoutPlan v) = PayoutPlan (v\<lparr>pp_signer_set := empty_ed25519\<rparr>)"
| "core_strip (TemplateCore v) = TemplateCore v"
| "core_strip (BlockBodyPackage v) = BlockBodyPackage (v\<lparr>bp_operator_signature := []\<rparr>)"
| "core_strip (BodyErasureDescriptor v) = BodyErasureDescriptor v"
| "core_strip (BodyAvailabilityCertificate v) = BodyAvailabilityCertificate (v\<lparr>ac_signer_set := empty_ed25519\<rparr>)"
| "core_strip (SessionParentCertificate v) = SessionParentCertificate (v\<lparr>pc_signer_set := empty_ed25519\<rparr>)"
| "core_strip (MaskSession v) = MaskSession (v\<lparr>ms_signer_set := empty_ed25519\<rparr>)"
| "core_strip (Assignment v) = Assignment (v\<lparr>asg_operator_signature := []\<rparr>)"
| "core_strip (GatewayAssignment v) = GatewayAssignment (v\<lparr>ga_operator_signature := []\<rparr>)"
| "core_strip (Share v) = Share (v\<lparr>sh_operator_signature := []\<rparr>)"
| "core_strip (ReceiptBatch v) = ReceiptBatch (v\<lparr>rb_signer_set := empty_ed25519\<rparr>)"
| "core_strip (SessionClose v) = SessionClose (v\<lparr>sc_signer_set := empty_ed25519\<rparr>)"

lemmas object_id_defs =
  object_id_OperatorRecordV2_def
  object_id_PayoutBucketV2_def
  object_id_PayoutSnapshotV2_def
  object_id_PayoutPlanV2_def
  object_id_TemplateCoreV2_def
  object_id_BlockBodyPackageV2_def
  object_id_BodyErasureDescriptorV2_def
  object_id_BodyAvailabilityCertificateV2_def
  object_id_SessionParentCertificateV2_def
  object_id_MaskSessionV2_def
  object_id_AssignmentV2_def
  object_id_GatewayAssignmentV1_def
  object_id_ShareV2_def
  object_id_ReceiptBatchV2_def
  object_id_SessionCloseV2_def

lemma core_object_id_hash: "core_object_id H x = domain_hash H (core_domain x) (core_unsigned x)"
  by (cases x) (simp_all only: core_object_id.simps core_domain.simps core_unsigned.simps object_id_defs)

lemma core_encode_split: "\<exists>s. core_encode x = core_unsigned x @ s"
  by (cases x) (simp_all add: encode_OperatorRecordV2_def encode_PayoutBucketV2_def encode_PayoutSnapshotV2_def encode_PayoutPlanV2_def encode_TemplateCoreV2_def encode_BlockBodyPackageV2_def encode_BodyErasureDescriptorV2_def encode_BodyAvailabilityCertificateV2_def encode_SessionParentCertificateV2_def encode_MaskSessionV2_def encode_AssignmentV2_def encode_GatewayAssignmentV1_def encode_ShareV2_def encode_ReceiptBatchV2_def encode_SessionCloseV2_def)

lemmas signed_determines =
  operator_record_signed.unsigned_determines
  payout_bucket_signed.unsigned_determines
  payout_snapshot_signed.unsigned_determines
  payout_plan_signed.unsigned_determines
  block_body_package_signed.unsigned_determines
  body_availability_certificate_signed.unsigned_determines
  session_parent_certificate_signed.unsigned_determines
  mask_session_signed.unsigned_determines
  assignment_signed.unsigned_determines
  gateway_assignment_signed.unsigned_determines
  share_signed.unsigned_determines
  receipt_batch_signed.unsigned_determines
  session_close_signed.unsigned_determines

lemma unsigned_objects_determine:
  assumes "valid_TemplateCoreV2 L v" "valid_TemplateCoreV2 L w" "fits (encode_TemplateCoreV2 v)"
    "encode_unsigned_TemplateCoreV2 v = encode_unsigned_TemplateCoreV2 w"
  shows "v = w"
  using template_core_codec.enc_prefix_free [of L v w "[]" "[]"] assms
  by (simp add: encode_TemplateCoreV2_def)

lemma erasure_objects_determine:
  assumes "valid_BodyErasureDescriptorV2 L v" "valid_BodyErasureDescriptorV2 L w"
    "fits (encode_BodyErasureDescriptorV2 v)"
    "encode_unsigned_BodyErasureDescriptorV2 v = encode_unsigned_BodyErasureDescriptorV2 w"
  shows "v = w"
  using body_erasure_descriptor_codec.enc_prefix_free [of L v w "[]" "[]"] assms
  by (simp add: encode_BodyErasureDescriptorV2_def)

text \<open>Same tag and same unsigned bytes: the same object up to its signature.\<close>

lemma core_unsigned_determines:
  assumes "core_valid H L x" "core_valid H L y" "fits (core_encode x)"
    "core_domain x = core_domain y" "core_unsigned x = core_unsigned y"
  shows "core_strip x = core_strip y"
  using assms
  by (cases x; cases y)
    (simp_all, (rule signed_determines unsigned_objects_determine erasure_objects_determine; assumption)+)

text \<open>Reading a whole message as an object of a given type yields this object.\<close>

fun core_decodes :: "(bytes \<Rightarrow> hash256) \<Rightarrow> bytes \<Rightarrow> DecodeLimits \<Rightarrow> CoreObject \<Rightarrow> bool" where
  "core_decodes H bs L (OperatorRecord v) \<longleftrightarrow>
     from_canonical_bytes decode_OperatorRecordV2 bs L = Inr v"
| "core_decodes H bs L (PayoutBucket v) \<longleftrightarrow>
     from_canonical_bytes decode_PayoutBucketV2 bs L = Inr v"
| "core_decodes H bs L (PayoutSnapshot v) \<longleftrightarrow>
     from_canonical_bytes decode_PayoutSnapshotV2 bs L = Inr v"
| "core_decodes H bs L (PayoutPlan v) \<longleftrightarrow>
     from_canonical_bytes decode_PayoutPlanV2 bs L = Inr v"
| "core_decodes H bs L (TemplateCore v) \<longleftrightarrow>
     from_canonical_bytes decode_TemplateCoreV2 bs L = Inr v"
| "core_decodes H bs L (BlockBodyPackage v) \<longleftrightarrow>
     from_canonical_bytes (decode_BlockBodyPackageV2 H) bs L = Inr v"
| "core_decodes H bs L (BodyErasureDescriptor v) \<longleftrightarrow>
     from_canonical_bytes decode_BodyErasureDescriptorV2 bs L = Inr v"
| "core_decodes H bs L (BodyAvailabilityCertificate v) \<longleftrightarrow>
     from_canonical_bytes decode_BodyAvailabilityCertificateV2 bs L = Inr v"
| "core_decodes H bs L (SessionParentCertificate v) \<longleftrightarrow>
     from_canonical_bytes decode_SessionParentCertificateV2 bs L = Inr v"
| "core_decodes H bs L (MaskSession v) \<longleftrightarrow>
     from_canonical_bytes decode_MaskSessionV2 bs L = Inr v"
| "core_decodes H bs L (Assignment v) \<longleftrightarrow>
     from_canonical_bytes decode_AssignmentV2 bs L = Inr v"
| "core_decodes H bs L (GatewayAssignment v) \<longleftrightarrow>
     from_canonical_bytes decode_GatewayAssignmentV1 bs L = Inr v"
| "core_decodes H bs L (Share v) \<longleftrightarrow>
     from_canonical_bytes decode_ShareV2 bs L = Inr v"
| "core_decodes H bs L (ReceiptBatch v) \<longleftrightarrow>
     from_canonical_bytes decode_ReceiptBatchV2 bs L = Inr v"
| "core_decodes H bs L (SessionClose v) \<longleftrightarrow>
     from_canonical_bytes decode_SessionCloseV2 bs L = Inr v"

lemmas core_codecs_iff =
  operator_record_codec.from_canonical_bytes_iff
  payout_bucket_codec.from_canonical_bytes_iff
  payout_snapshot_codec.from_canonical_bytes_iff
  payout_plan_codec.from_canonical_bytes_iff
  template_core_codec.from_canonical_bytes_iff
  block_body_package_codec.from_canonical_bytes_iff
  body_erasure_descriptor_codec.from_canonical_bytes_iff
  body_availability_certificate_codec.from_canonical_bytes_iff
  session_parent_certificate_codec.from_canonical_bytes_iff
  mask_session_codec.from_canonical_bytes_iff
  assignment_codec.from_canonical_bytes_iff
  gateway_assignment_codec.from_canonical_bytes_iff
  share_codec.from_canonical_bytes_iff
  receipt_batch_codec.from_canonical_bytes_iff
  session_close_codec.from_canonical_bytes_iff

lemma work_key_body_inject:
  assumes "valid_ShareV2 L v" "valid_ShareV2 L w"
  shows "enc_fixed (sh_session_id v) @ enc_fixed (sh_body_package_id v) @ enc_u64 (sh_ntime v) @
      enc_fixed (sh_extra_nonce v) @ enc_u32 (sh_nonce v) @ enc_fixed (sh_raw_share_hash v) =
    enc_fixed (sh_session_id w) @ enc_fixed (sh_body_package_id w) @ enc_u64 (sh_ntime w) @
      enc_fixed (sh_extra_nonce w) @ enc_u32 (sh_nonce w) @ enc_fixed (sh_raw_share_hash w) \<longleftrightarrow>
    sh_session_id v = sh_session_id w \<and> sh_body_package_id v = sh_body_package_id w \<and>
    sh_ntime v = sh_ntime w \<and> sh_extra_nonce v = sh_extra_nonce w \<and>
    sh_nonce v = sh_nonce w \<and> sh_raw_share_hash v = sh_raw_share_hash w"
  using assms
  by (simp add: valid_ShareV2_def valid_hash_def enc_fixed_def enc_u64_def enc_u32_def
    append_eq_append_conv length_to_le to_le_inject)

text \<open>The bytes hashed for a work key.\<close>

definition work_key_preimage :: "ShareV2 \<Rightarrow> bytes" where
  "work_key_preimage v = id_preimage ''meshmine/share-work-key/v2''
     (enc_fixed (sh_session_id v) @ enc_fixed (sh_body_package_id v) @ enc_u64 (sh_ntime v) @
      enc_fixed (sh_extra_nonce v) @ enc_u32 (sh_nonce v) @ enc_fixed (sh_raw_share_hash v))"

lemma fits_work_key: "valid_ShareV2 L v \<Longrightarrow> fits (work_key_preimage v)"
  using length_enc_varint_le [of 26]
  by (simp add: fits_def work_key_preimage_def id_preimage_def valid_ShareV2_def valid_hash_def
    enc_fixed_def enc_u64_def enc_u32_def length_to_le enc_bytes_def str_bytes_def usize_max_def)

section \<open>Properties of the Core v2 objects\<close>

definition example_share :: ShareV2 where
  "example_share = \<lparr>sh_protocol_version = 2, sh_network_id = 1,
     sh_session_id = replicate 32 3, sh_assignment_id = replicate 32 4,
     sh_body_package_id = replicate 32 5, sh_operator_pubkey = replicate 32 6,
     sh_payout_bucket_id = replicate 32 7, sh_nonce = 8, sh_ntime = 9,
     sh_extra_nonce = replicate 24 10, sh_raw_share_hash = replicate 32 11,
     sh_declared_target = replicate 32 12,
     sh_gossip_parent_hashes = [replicate 32 14, replicate 32 13],
     sh_local_telemetry_hash = Some (replicate 32 15), sh_operator_signature = replicate 64 16\<rparr>"

lemma valid_example_share: "valid_ShareV2 default_limits example_share"
  by (simp add: example_share_def valid_ShareV2_def valid_hash_def valid_vec_def
    MAX_DAG_PARENTS_def valid_SignatureBytes_def valid_bytes_def MAX_SIGNATURE_BYTES_def
    default_limits_def)

lemma length_example_share: "length (encode_ShareV2 example_share) \<le> 4096"
  using length_enc_varint_le [of 2] length_enc_varint_le [of 64]
  by (simp add: example_share_def encode_ShareV2_def encode_unsigned_ShareV2_def encode_prefix_def
    enc_fixed_def enc_u8_def enc_u16_def enc_u32_def enc_u64_def encode_u256_def encode_hashes_def
    enc_vec_def encode_option_def encode_SignatureBytes_def enc_bytes_def)

text \<open>
  C1: canonical wire format. For each of the fifteen Core v2 object types, a byte string decodes
  to an object exactly if it is that object's encoding, the object satisfies the type's field
  bounds and consistency rules, and the string is within the size limit. So every valid object
  that fits round-trips, and no object has a second encoding.
\<close>

theorem core_objects_decode_iff:
  assumes "max_object_bytes L \<le> usize_max"
  shows "core_decodes H bs L x \<longleftrightarrow>
    bs = core_encode x \<and> core_valid H L x \<and> length bs \<le> max_object_bytes L"
  by (cases x) (simp_all only: core_decodes.simps core_encode.simps core_valid.simps
    core_codecs_iff [OF assms])

theorem core_objects_decode_iff_witness:
  "core_decodes (\<lambda>_. replicate 32 0) (core_encode (Share example_share)) default_limits
     (Share example_share)"
  using core_objects_decode_iff [of default_limits "\<lambda>_. replicate 32 0"
      "core_encode (Share example_share)" "Share example_share"]
    valid_example_share length_example_share
  by (simp add: default_limits_def usize_max_def)

text \<open>
  C10: identifiers bind objects. If two valid Core v2 objects, of whatever types, have the same
  identifier and the hash function does not collide on the two hashed byte strings, then they are
  of the same type and agree in every field except the signature.
\<close>

theorem core_object_id_binding:
  assumes "core_valid H L x" "core_valid H L y"
    and "fits (id_preimage (core_domain x) (core_encode x))"
    and "inj_on H {id_preimage (core_domain x) (core_unsigned x),
                   id_preimage (core_domain y) (core_unsigned y)}"
    and "core_object_id H x = core_object_id H y"
  shows "core_strip x = core_strip y"
proof -
  obtain s where s: "core_encode x = core_unsigned x @ s" using core_encode_split by blast
  have "fits (id_preimage (core_domain x) (core_unsigned x))" and f: "fits (core_encode x)"
    using assms(3) by (simp_all add: s id_preimage_def fits_def enc_fixed_def)
  then have "core_domain x = core_domain y \<and> core_unsigned x = core_unsigned y"
    using domain_hash_inject [OF _ _ assms(4)] assms(5) by (simp only: core_object_id_hash)
  then show ?thesis using core_unsigned_determines [OF assms(1,2) f] by simp
qed

theorem core_object_id_binding_witness:
  "core_strip (Share example_share) =
   core_strip (Share (example_share\<lparr>sh_operator_signature := [1]\<rparr>))"
proof (rule core_object_id_binding [where H = "\<lambda>x. x" and L = default_limits])
  show "core_valid (\<lambda>x. x) default_limits (Share example_share)"
    by (simp add: valid_example_share)
  show "core_valid (\<lambda>x. x) default_limits (Share (example_share\<lparr>sh_operator_signature := [1]\<rparr>))"
    using valid_example_share
    by (simp add: valid_ShareV2_def valid_SignatureBytes_def valid_bytes_def
      MAX_SIGNATURE_BYTES_def default_limits_def)
  show "fits (id_preimage (core_domain (Share example_share)) (core_encode (Share example_share)))"
    using length_example_share length_enc_varint_le [of 17]
    by (simp add: fits_def id_preimage_def enc_bytes_def str_bytes_def enc_fixed_def usize_max_def)
qed (simp_all add: object_id_ShareV2_def encode_unsigned_ShareV2_def)

text \<open>
  C15: identity of work. Two valid shares have the same work key exactly if they agree on session,
  body package, time, extra nonce, nonce and raw share hash (the hash function not colliding on the
  two inputs): relabelling a proof of work with another operator, payout bucket, assignment,
  parent list or signature does not give it a second work key.
\<close>

theorem share_work_key_identity:
  assumes "valid_ShareV2 L v" "valid_ShareV2 L w"
    and "inj_on H {work_key_preimage v, work_key_preimage w}"
  shows "work_key H v = work_key H w \<longleftrightarrow>
    sh_session_id v = sh_session_id w \<and> sh_body_package_id v = sh_body_package_id w \<and>
    sh_ntime v = sh_ntime w \<and> sh_extra_nonce v = sh_extra_nonce w \<and>
    sh_nonce v = sh_nonce w \<and> sh_raw_share_hash v = sh_raw_share_hash w"
proof -
  have "work_key H v = work_key H w \<longleftrightarrow> work_key_preimage v = work_key_preimage w"
    using inj_onD [OF assms(3), of "work_key_preimage v" "work_key_preimage w"]
    by (auto simp: work_key_def work_key_preimage_def domain_hash_preimage)
  also have "\<dots> \<longleftrightarrow> sh_session_id v = sh_session_id w \<and>
      sh_body_package_id v = sh_body_package_id w \<and>
      sh_ntime v = sh_ntime w \<and> sh_extra_nonce v = sh_extra_nonce w \<and>
      sh_nonce v = sh_nonce w \<and> sh_raw_share_hash v = sh_raw_share_hash w"
    using fits_work_key [OF assms(1)]
    by (simp only: work_key_preimage_def id_preimage_eq_iff work_key_body_inject [OF assms(1,2)]
      simp_thms)
  finally show ?thesis .
qed

theorem share_work_key_identity_witness:
  "work_key (\<lambda>x. x) example_share =
     work_key (\<lambda>x. x) (example_share\<lparr>sh_operator_pubkey := replicate 32 9\<rparr>) \<and>
   work_key (\<lambda>x. x) example_share \<noteq> work_key (\<lambda>x. x) (example_share\<lparr>sh_nonce := 1\<rparr>)"
proof -
  have "valid_ShareV2 default_limits (example_share\<lparr>sh_operator_pubkey := replicate 32 9\<rparr>)"
    "valid_ShareV2 default_limits (example_share\<lparr>sh_nonce := 1\<rparr>)"
    using valid_example_share by (simp_all add: valid_ShareV2_def valid_hash_def)
  with valid_example_share show ?thesis
    using share_work_key_identity [of default_limits example_share _ "\<lambda>x. x"]
    by (simp add: example_share_def)
qed

text \<open>
  C18: canonical receipts. In a receipt batch that decodes, the three entry lists have one length,
  entries are strictly increasing, first by work key and under one work key by share id, so no entry
  occurs twice, and the signers are strictly increasing; and two batches that decode and list the
  same set of entries list them identically.
\<close>

theorem receipt_batch_entries_canonical:
  assumes "max_object_bytes L \<le> usize_max"
    and "from_canonical_bytes decode_ReceiptBatchV2 bs L = Inr v"
    and "from_canonical_bytes decode_ReceiptBatchV2 cs L = Inr w"
  shows "length (rb_accepted_work_keys v) = length (rb_accepted_share_ids v) \<and>
    length (rb_credited_work v) = length (rb_accepted_share_ids v) \<and>
    sorted_wrt (\<lambda>(key, i) (key', i'). key < key' \<or> key = key' \<and> i < i')
      (zip (rb_accepted_work_keys v) (rb_accepted_share_ids v)) \<and>
    sorted_wrt (<) (map sgs_signer_pubkey (sset_signatures (rb_signer_set v))) \<and>
    distinct (zip (rb_accepted_work_keys v) (rb_accepted_share_ids v)) \<and>
    distinct (map sgs_signer_pubkey (sset_signatures (rb_signer_set v))) \<and>
    (set (zip (rb_accepted_work_keys v) (rb_accepted_share_ids v)) =
       set (zip (rb_accepted_work_keys w) (rb_accepted_share_ids w)) \<longrightarrow>
     rb_accepted_work_keys v = rb_accepted_work_keys w \<and>
     rb_accepted_share_ids v = rb_accepted_share_ids w)"
proof -
  have v: "valid_ReceiptBatchV2 L v" and w: "valid_ReceiptBatchV2 L w"
    using receipt_batch_codec.from_canonical_bytes_iff [OF assms(1)] assms(2,3) by blast+
  have "zip (rb_accepted_work_keys v) (rb_accepted_share_ids v) =
      zip (rb_accepted_work_keys w) (rb_accepted_share_ids w)"
    if "set (zip (rb_accepted_work_keys v) (rb_accepted_share_ids v)) =
       set (zip (rb_accepted_work_keys w) (rb_accepted_share_ids w))"
    using v w that by (intro strict_sorted_equal) (simp_all add: valid_ReceiptBatchV2_def)
  moreover have order: "sorted_wrt (<) (zip (rb_accepted_work_keys v) (rb_accepted_share_ids v))"
    "sorted_wrt (<) (map sgs_signer_pubkey (sset_signatures (rb_signer_set v)))"
    using v by (simp_all add: valid_ReceiptBatchV2_def valid_SignatureSet_def)
  moreover from order(1) have "sorted_wrt (\<lambda>(key, i) (key', i'). key < key' \<or> key = key' \<and> i < i')
      (zip (rb_accepted_work_keys v) (rb_accepted_share_ids v))"
    by (rule sorted_wrt_mono_rel [rotated]) (auto simp: less_prod_def')
  ultimately show ?thesis using v w
    by (auto simp: valid_ReceiptBatchV2_def strict_sorted_iff dest!: zip_inject)
qed

definition example_receipts :: ReceiptBatchV2 where
  "example_receipts = \<lparr>rb_protocol_version = 2, rb_network_id = 1,
     rb_session_id = replicate 32 3, rb_batch_sequence = 0, rb_previous_batch_id = replicate 32 4,
     rb_accepted_share_ids = [replicate 32 9, replicate 32 8],
     rb_accepted_work_keys = [replicate 32 1, replicate 32 2],
     rb_credited_work = [replicate 64 0, replicate 64 0],
     rb_share_merkle_root = replicate 32 0, rb_cumulative_share_count = 2,
     rb_cumulative_credited_work = replicate 64 0,
     rb_signer_set = empty_ed25519\<rparr>"

lemma decode_example_receipts:
  "from_canonical_bytes decode_ReceiptBatchV2 (encode_ReceiptBatchV2 example_receipts) default_limits
     = Inr example_receipts"
proof -
  have "valid_ReceiptBatchV2 default_limits example_receipts"
    by (simp add: example_receipts_def valid_ReceiptBatchV2_def valid_hash_def valid_hashes_def
      valid_vec_def valid_u512_def valid_SignatureSet_def empty_ed25519_def MAX_OBJECT_HASHES_def
      MAX_CERTIFICATE_SIGNERS_def ED25519_SUITE_def default_limits_def
      replicate_less [of 1 2 31, simplified])
  moreover have "length (encode_ReceiptBatchV2 example_receipts) \<le> 4096"
    using length_enc_varint_le [of 2] length_enc_varint_le [of 0]
    by (simp add: example_receipts_def encode_ReceiptBatchV2_def encode_unsigned_ReceiptBatchV2_def
      encode_prefix_def enc_fixed_def enc_u8_def enc_u16_def enc_u64_def encode_u512_def
      encode_u512s_def encode_hashes_def enc_vec_def encode_SignatureSet_def empty_ed25519_def)
  ultimately show ?thesis
    by (subst receipt_batch_codec.from_canonical_bytes_iff)
      (simp_all add: default_limits_def usize_max_def)
qed

theorem receipt_batch_entries_canonical_witness:
  "from_canonical_bytes decode_ReceiptBatchV2 (encode_ReceiptBatchV2 example_receipts) default_limits =
     Inr example_receipts \<and>
   sorted_wrt (\<lambda>(key, i) (key', i'). key < key' \<or> key = key' \<and> i < i')
     (zip (rb_accepted_work_keys example_receipts) (rb_accepted_share_ids example_receipts)) \<and>
   rb_accepted_share_ids example_receipts ! 1 < rb_accepted_share_ids example_receipts ! 0"
proof -
  have "rb_accepted_share_ids example_receipts ! 1 < rb_accepted_share_ids example_receipts ! 0"
    by code_simp
  with receipt_batch_entries_canonical [OF _ decode_example_receipts decode_example_receipts] decode_example_receipts
  show ?thesis by (simp add: default_limits_def usize_max_def)
qed

end
