(* ===== verification/Lifecycle.thy ===== *)
theory Lifecycle
  imports Prelude
begin

text \<open>
  The lifecycle guards of \<^verbatim>\<open>crates/meshmine-types/src/state.rs\<close>: block bodies, mask sessions,
  shares and payouts. Each guard takes the current state and the requested one and either returns
  the requested state or refuses. A history of accepted requests is a run of the guard; the
  locale \<^verbatim>\<open>lifecycle\<close> gives the induction over the states a run really visits (idempotent
  requests removed), and the four guards interpret it.
\<close>

datatype BodyState =
  LocalDraft | ConsensusValidated | ErasurePublished | AvailabilityCertified | Active | Expired |
  Pruned

datatype MaskSessionState =
  SelectingCommittee | MpcSetup | MaskCommitted | Assigning | SubmissionGrace |
  ReceiptFinalizing | Opening | Opened | Closed | Aborted | TimedRecovery | FailedThreshold

datatype ShareState =
  Received | SyntaxValid | PowValid | BodyAvailable | DedupValid | PendingReceipt | Accepted |
  Settled | Rejected

datatype PayoutState =
  AccumulatingWork | SnapshotClosed | WaitingForEntropy | PlanReady | Payable |
  IncludedInHnsBlock | Canonical

datatype TransitionError = TransitionError

definition BodyState_transition :: "BodyState \<Rightarrow> BodyState \<Rightarrow> TransitionError + BodyState" where
  "BodyState_transition self next_state =
     (if self = next_state \<or>
         (self, next_state) \<in>
           {(LocalDraft, ConsensusValidated), (ConsensusValidated, ErasurePublished),
            (ErasurePublished, AvailabilityCertified), (AvailabilityCertified, Active),
            (Active, Expired), (Expired, Pruned)}
      then Inr next_state else Inl TransitionError)"

definition MaskSessionState_transition ::
  "MaskSessionState \<Rightarrow> MaskSessionState \<Rightarrow> bool \<Rightarrow> TransitionError + MaskSessionState" where
  "MaskSessionState_transition self next_state accepted_shares_exist =
     (if self = next_state then Inr next_state
      else
        let normal = (self, next_state) \<in>
              {(SelectingCommittee, MpcSetup), (MpcSetup, MaskCommitted),
               (MaskCommitted, Assigning), (Assigning, SubmissionGrace),
               (SubmissionGrace, ReceiptFinalizing), (ReceiptFinalizing, Opening),
               (Opening, Opened), (Opened, Closed), (TimedRecovery, Opened),
               (TimedRecovery, FailedThreshold)};
            pre_open_abort = self \<in>
              {SelectingCommittee, MpcSetup, MaskCommitted, Assigning, SubmissionGrace,
               ReceiptFinalizing, Opening} \<and> next_state = Aborted;
            aborted_recovery = self = Aborted \<and>
              (accepted_shares_exist \<and> next_state = TimedRecovery \<or>
               \<not> accepted_shares_exist \<and> next_state = Closed)
        in if normal \<or> pre_open_abort \<or> aborted_recovery then Inr next_state
           else Inl TransitionError)"

definition ShareState_transition :: "ShareState \<Rightarrow> ShareState \<Rightarrow> TransitionError + ShareState" where
  "ShareState_transition self next_state =
     (if self = next_state then Inr next_state
      else
        let normal = (self, next_state) \<in>
              {(Received, SyntaxValid), (SyntaxValid, PowValid), (PowValid, BodyAvailable),
               (BodyAvailable, DedupValid), (DedupValid, PendingReceipt),
               (PendingReceipt, Accepted), (Accepted, Settled)};
            rejection = self \<noteq> Settled \<and> self \<noteq> Rejected \<and> next_state = Rejected
        in if normal \<or> rejection then Inr next_state else Inl TransitionError)"

definition PayoutState_transition ::
  "PayoutState \<Rightarrow> PayoutState \<Rightarrow> TransitionError + PayoutState" where
  "PayoutState_transition self next_state =
     (if self = next_state \<or>
         (self, next_state) \<in>
           {(AccumulatingWork, SnapshotClosed), (SnapshotClosed, WaitingForEntropy),
            (WaitingForEntropy, PlanReady), (PlanReady, Payable), (Payable, IncludedInHnsBlock),
            (IncludedInHnsBlock, Canonical), (IncludedInHnsBlock, Payable),
            (Canonical, Payable)}
      then Inr next_state else Inl TransitionError)"


subsection \<open>Runs of a guard\<close>

text \<open>
  A request \<^verbatim>\<open>r\<close> asks for the state \<^verbatim>\<open>target r\<close>. The contract of a guard: it can only answer with
  the requested state, and asking for the current state is always accepted.
\<close>

locale lifecycle =
  fixes trans :: "'s \<Rightarrow> 'r \<Rightarrow> TransitionError + 's"
    and target :: "'r \<Rightarrow> 's"
  assumes trans_target: "trans s r = Inr t \<Longrightarrow> t = target r"
    and trans_idem: "target r = s \<Longrightarrow> trans s r = Inr s"
begin

lemma run_last:
  "res_foldM trans s rs = Inr t \<Longrightarrow> last (s # map target rs) = t"
  by (induction rs rule: rev_induct) (auto simp: res_foldM_append res_simps dest: trans_target)

lemma run_visited:
  assumes "res_foldM trans s rs = Inr t"
    and init: "I [s] s"
    and "\<And>p u r. r \<in> set rs \<Longrightarrow> I p u \<Longrightarrow> trans u r = Inr (target r) \<Longrightarrow> target r \<noteq> u \<Longrightarrow>
      I (p @ [target r]) (target r)"
  shows "I (remdups_adj (s # map target rs)) t"
  using assms(1,3)
proof (induction rs arbitrary: t rule: rev_induct)
  case Nil
  then show ?case using init by simp
next
  case (snoc r rs)
  then obtain u where u: "res_foldM trans s rs = Inr u" and t: "trans u r = Inr t"
    by (auto simp: res_foldM_append res_simps)
  from u have l: "last (s # map target rs) = u" by (rule run_last)
  from t have tr: "t = target r" by (rule trans_target)
  have "remdups_adj (s # map target (rs @ [r])) =
      (if u = t then remdups_adj (s # map target rs) else remdups_adj (s # map target rs) @ [t])"
    using l tr remdups_adj_append'' [of "s # map target rs" "[t]"] by auto
  moreover have "I (remdups_adj (s # map target rs)) u"
    using snoc.IH [OF u] snoc.prems(2) by simp
  moreover have "r \<in> set (rs @ [r])" by simp
  ultimately show ?case using snoc.prems(2) t tr by metis
qed

text \<open>For an acyclic guard the visited states form one of finitely many paths.\<close>

lemma run_paths:
  assumes run: "res_foldM trans s rs = Inr t"
    and succ: "\<And>u r. r \<in> set rs \<Longrightarrow> trans u r = Inr (target r) \<Longrightarrow> target r \<noteq> u \<Longrightarrow>
      target r \<in> set (succ u)"
    and "[s] \<in> set paths"
    and closed: "list_all (\<lambda>p. list_all (\<lambda>u. p @ [u] \<in> set paths) (succ (last p))) paths"
  shows "remdups_adj (s # map target rs) \<in> set paths \<and> t = last (remdups_adj (s # map target rs))"
  by (rule run_visited [where I = "\<lambda>p u. p \<in> set paths \<and> u = last p", OF run])
    (use assms in \<open>auto simp: list_all_iff\<close>)

end

interpretation body_life: lifecycle BodyState_transition "\<lambda>r. r"
  by unfold_locales (auto simp: BodyState_transition_def split: if_splits)

interpretation share_life: lifecycle ShareState_transition "\<lambda>r. r"
  by unfold_locales (auto simp: ShareState_transition_def Let_def split: if_splits)

interpretation payout_life: lifecycle PayoutState_transition "\<lambda>r. r"
  by unfold_locales (auto simp: PayoutState_transition_def split: if_splits)

text \<open>A mask-session request carries the flag telling whether accepted shares exist.\<close>

definition mask_request ::
  "MaskSessionState \<Rightarrow> MaskSessionState \<times> bool \<Rightarrow> TransitionError + MaskSessionState" where
  "mask_request s r = MaskSessionState_transition s (fst r) (snd r)"

interpretation mask_life: lifecycle mask_request fst
  by unfold_locales
    (auto simp: mask_request_def MaskSessionState_transition_def Let_def split: if_splits)


subsection \<open>The paths of the four lifecycles\<close>

definition mask_normal_path :: "MaskSessionState list" where
  "mask_normal_path = [SelectingCommittee, MpcSetup, MaskCommitted, Assigning, SubmissionGrace,
     ReceiptFinalizing, Opening, Opened, Closed]"

definition share_normal_path :: "ShareState list" where
  "share_normal_path = [Received, SyntaxValid, PowValid, BodyAvailable, DedupValid,
     PendingReceipt, Accepted, Settled]"

definition body_normal_path :: "BodyState list" where
  "body_normal_path = [LocalDraft, ConsensusValidated, ErasurePublished, AvailabilityCertified,
     Active, Expired, Pruned]"

definition payout_normal_path :: "PayoutState list" where
  "payout_normal_path = [AccumulatingWork, SnapshotClosed, WaitingForEntropy, PlanReady, Payable]"

text \<open>
  The successors of a mask-session state; \<^verbatim>\<open>e\<close> says whether some request to close came with
  no accepted share.
\<close>

fun mask_succ :: "bool \<Rightarrow> MaskSessionState \<Rightarrow> MaskSessionState list" where
  "mask_succ e SelectingCommittee = [MpcSetup, Aborted]"
| "mask_succ e MpcSetup = [MaskCommitted, Aborted]"
| "mask_succ e MaskCommitted = [Assigning, Aborted]"
| "mask_succ e Assigning = [SubmissionGrace, Aborted]"
| "mask_succ e SubmissionGrace = [ReceiptFinalizing, Aborted]"
| "mask_succ e ReceiptFinalizing = [Opening, Aborted]"
| "mask_succ e Opening = [Opened, Aborted]"
| "mask_succ e Opened = [Closed]"
| "mask_succ e Closed = []"
| "mask_succ e Aborted = TimedRecovery # (if e then [Closed] else [])"
| "mask_succ e TimedRecovery = [Opened, FailedThreshold]"
| "mask_succ e FailedThreshold = []"

definition mask_abort_tails :: "bool \<Rightarrow> MaskSessionState list list" where
  "mask_abort_tails e =
     [[Aborted], [Aborted, TimedRecovery], [Aborted, TimedRecovery, FailedThreshold],
      [Aborted, TimedRecovery, Opened], [Aborted, TimedRecovery, Opened, Closed]] @
     (if e then [[Aborted, Closed]] else [])"

definition mask_paths :: "bool \<Rightarrow> MaskSessionState list list" where
  "mask_paths e = map (\<lambda>k. take k mask_normal_path) [1, 2, 3, 4, 5, 6, 7, 8, 9] @
     concat (map (\<lambda>k. map (\<lambda>q. take k mask_normal_path @ q) (mask_abort_tails e))
       [1, 2, 3, 4, 5, 6, 7])"

lemma mask_request_succ:
  assumes "r \<in> set rs" "mask_request s r = Inr (fst r)" "fst r \<noteq> s"
  shows "fst r \<in> set (mask_succ ((Closed, False) \<in> set rs) s)"
proof -
  obtain n f where r: "r = (n, f)" by fastforce
  show ?thesis using assms unfolding r
    by (cases s) (auto simp: mask_request_def MaskSessionState_transition_def split: if_splits)
qed

lemma mask_paths_closed:
  "list_all (\<lambda>p. list_all (\<lambda>u. p @ [u] \<in> set (mask_paths b)) (mask_succ b (last p))) (mask_paths b)"
  by (cases b) (simp only:, code_simp)+

lemma mask_run_paths:
  assumes "res_foldM mask_request SelectingCommittee rs = Inr t"
  shows "remdups_adj (SelectingCommittee # map fst rs) \<in> set (mask_paths ((Closed, False) \<in> set rs))
    \<and> t = last (remdups_adj (SelectingCommittee # map fst rs))"
  by (rule mask_life.run_paths [OF assms mask_request_succ _ mask_paths_closed])
    (simp_all add: mask_paths_def mask_normal_path_def)

lemma mask_paths_Closed:
  assumes "p \<in> set (mask_paths e)" "last p = Closed"
  shows "p = mask_normal_path \<or>
    (\<exists>k \<in> {1, 2, 3, 4, 5, 6, 7}.
      p = take k mask_normal_path @ [Aborted, TimedRecovery, Opened, Closed] \<or>
      e \<and> p = take k mask_normal_path @ [Aborted, Closed])"
proof -
  have "list_all (\<lambda>p. last p = Closed \<longrightarrow> p = mask_normal_path \<or>
      list_ex (\<lambda>k. p = take k mask_normal_path @ [Aborted, TimedRecovery, Opened, Closed] \<or>
        e \<and> p = take k mask_normal_path @ [Aborted, Closed]) [1, 2, 3, 4, 5, 6, 7]) (mask_paths e)"
    by (cases e) (simp only:, code_simp)+
  with assms show ?thesis by (simp add: list_all_iff)
qed

fun share_succ :: "ShareState \<Rightarrow> ShareState list" where
  "share_succ Received = [SyntaxValid, Rejected]"
| "share_succ SyntaxValid = [PowValid, Rejected]"
| "share_succ PowValid = [BodyAvailable, Rejected]"
| "share_succ BodyAvailable = [DedupValid, Rejected]"
| "share_succ DedupValid = [PendingReceipt, Rejected]"
| "share_succ PendingReceipt = [Accepted, Rejected]"
| "share_succ Accepted = [Settled, Rejected]"
| "share_succ Settled = []"
| "share_succ Rejected = []"

definition share_paths :: "ShareState list list" where
  "share_paths = map (\<lambda>k. take k share_normal_path) [1, 2, 3, 4, 5, 6, 7, 8] @
     map (\<lambda>k. take k share_normal_path @ [Rejected]) [1, 2, 3, 4, 5, 6, 7]"

lemma share_paths_end:
  assumes "p \<in> set share_paths"
  shows "(last p = Settled \<longrightarrow> p = share_normal_path) \<and> (last p = Rejected \<longrightarrow> Settled \<notin> set p)"
  using assms by (auto simp: share_paths_def share_normal_path_def)

lemma share_transition_succ:
  assumes "ShareState_transition s r = Inr r" "r \<noteq> s"
  shows "r \<in> set (share_succ s)"
  using assms
  by (cases s) (auto simp: ShareState_transition_def Let_def split: if_splits)

lemma share_run_paths:
  assumes "res_foldM ShareState_transition Received rs = Inr t"
  shows "remdups_adj (Received # rs) \<in> set share_paths \<and> t = last (remdups_adj (Received # rs))"
  using share_life.run_paths [OF assms, where succ = share_succ and paths = share_paths]
    share_transition_succ
  by (simp add: share_paths_def share_normal_path_def)

definition payout_visits :: "PayoutState list \<Rightarrow> bool" where
  "payout_visits p \<longleftrightarrow>
     (\<exists>k \<in> {1, 2, 3, 4}. p = take k payout_normal_path) \<or>
     (\<exists>q. p = payout_normal_path @ q \<and> set q \<subseteq> {Payable, IncludedInHnsBlock, Canonical} \<and>
       (last p = Canonical \<longrightarrow> (\<exists>q'. q = q' @ [IncludedInHnsBlock, Canonical])))"

lemma payout_visits_Canonical:
  assumes "payout_visits p" "last p = Canonical"
  shows "\<exists>q. p = payout_normal_path @ q @ [IncludedInHnsBlock, Canonical] \<and>
    set q \<subseteq> {Payable, IncludedInHnsBlock, Canonical}"
  using assms by (auto simp: payout_visits_def payout_normal_path_def)

lemma payout_transition_edge:
  assumes "PayoutState_transition s r = Inr r" "r \<noteq> s"
  shows "(s, r) \<in> {(AccumulatingWork, SnapshotClosed), (SnapshotClosed, WaitingForEntropy),
    (WaitingForEntropy, PlanReady), (PlanReady, Payable)} \<or>
    s \<in> {Payable, Canonical} \<and> r \<in> {Payable, IncludedInHnsBlock} \<or>
    s = IncludedInHnsBlock \<and> r \<in> {Payable, Canonical}"
  using assms by (auto simp: PayoutState_transition_def split: if_splits)

lemma payout_visits_early:
  assumes "p = take k payout_normal_path" "k \<in> {1, 2, 3, 4}"
    "PayoutState_transition (last p) r = Inr r" "r \<noteq> last p"
  shows "p @ [r] = take (Suc k) payout_normal_path"
  using assms(1,2) payout_transition_edge [OF assms(3,4)]
  by (auto simp: payout_normal_path_def)

lemma payout_visits_step:
  assumes "payout_visits p" "PayoutState_transition (last p) r = Inr r" "r \<noteq> last p"
  shows "payout_visits (p @ [r])"
proof (cases "\<exists>k \<in> {1, 2, 3, 4}. p = take k payout_normal_path")
  case True
  then obtain k where k: "k \<in> {1, 2, 3, 4}" "p @ [r] = take (Suc k) payout_normal_path"
    using payout_visits_early assms by blast
  then have "Suc k \<in> {1, 2, 3, 4} \<or> p @ [r] = payout_normal_path"
    by (auto simp: payout_normal_path_def)
  with k show ?thesis
    by (auto simp: payout_visits_def payout_normal_path_def)
next
  case False
  with assms(1) obtain q where q: "p = payout_normal_path @ q"
    "set q \<subseteq> {Payable, IncludedInHnsBlock, Canonical}"
    by (auto simp: payout_visits_def)
  have l: "last p \<in> {Payable, IncludedInHnsBlock, Canonical}"
    using q by (cases q rule: rev_cases) (auto simp: payout_normal_path_def)
  have r: "r \<in> {Payable, IncludedInHnsBlock, Canonical}"
    and c: "r = Canonical \<Longrightarrow> last p = IncludedInHnsBlock"
    using payout_transition_edge [OF assms(2,3)] l by auto
  have "\<exists>q'. q @ [r] = q' @ [IncludedInHnsBlock, Canonical]" if "r = Canonical"
    using c [OF that] q that by (cases q rule: rev_cases) (auto simp: payout_normal_path_def)
  with q r show ?thesis unfolding payout_visits_def
    by (intro disjI2 exI [of _ "q @ [r]"]) auto
qed

lemma payout_run_visits:
  assumes "res_foldM PayoutState_transition AccumulatingWork rs = Inr t"
  shows "payout_visits (remdups_adj (AccumulatingWork # rs)) \<and>
    t = last (remdups_adj (AccumulatingWork # rs))"
  using payout_life.run_visited [where I = "\<lambda>p u. payout_visits p \<and> u = last p", OF assms]
    payout_visits_step
  by (auto simp: payout_visits_def payout_normal_path_def)


subsection \<open>Properties of the lifecycles\<close>

text \<open>
  C11: a mask session that ends closed either went through every phase up to receipt
  finalisation, opening and opened, or was aborted before opening and then recovered by timed
  recovery and opened, or was aborted and a request to close was made with no accepted share
  outstanding. A session with accepted shares is never closed with its mask unopened.
\<close>

theorem mask_session_close_requires_opening:
  assumes "res_foldM mask_request SelectingCommittee rs = Inr Closed"
  shows "let p = remdups_adj (SelectingCommittee # map fst rs) in
    p = mask_normal_path \<or>
    (\<exists>k \<in> {1, 2, 3, 4, 5, 6, 7}.
      p = take k mask_normal_path @ [Aborted, TimedRecovery, Opened, Closed] \<or>
      (Closed, False) \<in> set rs \<and> p = take k mask_normal_path @ [Aborted, Closed])"
proof -
  have "remdups_adj (SelectingCommittee # map fst rs) \<in>
      set (mask_paths ((Closed, False) \<in> set rs))"
    "last (remdups_adj (SelectingCommittee # map fst rs)) = Closed"
    using mask_run_paths [OF assms] by simp_all
  from mask_paths_Closed [OF this] show ?thesis unfolding Let_def .
qed

theorem mask_session_close_requires_opening_witness:
  "let rs = [(MpcSetup, False), (MpcSetup, True), (Aborted, True), (TimedRecovery, True),
      (Opened, True), (Closed, True)];
     p = remdups_adj (SelectingCommittee # map fst rs) in
   res_foldM mask_request SelectingCommittee rs = Inr Closed \<and>
   (\<exists>k \<in> {1, 2, 3, 4, 5, 6, 7}.
      p = take k mask_normal_path @ [Aborted, TimedRecovery, Opened, Closed])"
  using mask_session_close_requires_opening [of
    "[(MpcSetup, False), (MpcSetup, True), (Aborted, True), (TimedRecovery, True),
      (Opened, True), (Closed, True)]"]
  by (simp add: mask_request_def MaskSessionState_transition_def mask_normal_path_def Let_def)

text \<open>
  A share that ends settled was, in this order and with nothing in between, received, found
  syntactically valid, valid proof of work, body available, not a duplicate, pending a receipt and
  accepted; and a share that ends rejected was never settled.
\<close>

theorem share_settles_in_order:
  assumes "res_foldM ShareState_transition Received rs = Inr t"
  shows "(t = Settled \<longrightarrow> remdups_adj (Received # rs) = share_normal_path) \<and>
    (t = Rejected \<longrightarrow> Settled \<notin> set rs)"
proof -
  have "set (remdups_adj (Received # rs)) = set (Received # rs)" by (rule remdups_adj_set)
  then show ?thesis
    using share_run_paths [OF assms] share_paths_end [of "remdups_adj (Received # rs)"] by auto
qed

theorem share_settles_in_order_witness:
  "let rs = [SyntaxValid, SyntaxValid, PowValid, BodyAvailable, DedupValid, PendingReceipt,
      Accepted, Settled] in
   res_foldM ShareState_transition Received rs = Inr Settled \<and>
   remdups_adj (Received # rs) = share_normal_path"
  using share_settles_in_order [of "[SyntaxValid, SyntaxValid, PowValid, BodyAvailable,
    DedupValid, PendingReceipt, Accepted, Settled]" Settled]
  by (simp add: ShareState_transition_def)

text \<open>
  A payout never becomes canonical before its snapshot was closed, its entropy known and its
  plan ready and payable, and each time it is canonical it was included in a block just before;
  after it is first payable it only moves between payable, included and canonical (so a
  reorganisation makes it payable again and nothing reopens the snapshot).
\<close>

theorem payout_canonical_after_plan:
  assumes "res_foldM PayoutState_transition AccumulatingWork rs = Inr t" "t = Canonical"
  shows "\<exists>q. remdups_adj (AccumulatingWork # rs) =
      [AccumulatingWork, SnapshotClosed, WaitingForEntropy, PlanReady, Payable] @ q @
      [IncludedInHnsBlock, Canonical] \<and>
    set q \<subseteq> {Payable, IncludedInHnsBlock, Canonical}"
proof -
  have "payout_visits (remdups_adj (AccumulatingWork # rs))"
    "last (remdups_adj (AccumulatingWork # rs)) = Canonical"
    using payout_run_visits [OF assms(1)] assms(2) by simp_all
  from payout_visits_Canonical [OF this] show ?thesis unfolding payout_normal_path_def .
qed

theorem payout_canonical_after_plan_witness:
  "let rs = [SnapshotClosed, WaitingForEntropy, PlanReady, Payable, IncludedInHnsBlock, Payable,
      IncludedInHnsBlock, Canonical] in
   res_foldM PayoutState_transition AccumulatingWork rs = Inr Canonical \<and>
   (\<exists>q. remdups_adj (AccumulatingWork # rs) =
      [AccumulatingWork, SnapshotClosed, WaitingForEntropy, PlanReady, Payable] @ q @
      [IncludedInHnsBlock, Canonical])"
  using payout_canonical_after_plan [of "[SnapshotClosed, WaitingForEntropy, PlanReady, Payable,
    IncludedInHnsBlock, Payable, IncludedInHnsBlock, Canonical]" Canonical]
  by (simp add: PayoutState_transition_def)

end
