(* ===== verification/Hns_Target.thy ===== *)
theory Hns_Target
  imports Prelude
begin

text \<open>
  Compact targets and proof-of-work comparison: \<^verbatim>\<open>crates/meshmine-hns/src/target.rs\<close>. A
  \<^verbatim>\<open>BigUint\<close> is a natural number and a \<^verbatim>\<open>BigInt\<close> an integer; compact targets stay 32-bit words,
  so every mask and shift of the source is the word operation of the model. A panic
  (\<^verbatim>\<open>expect\<close>) is the result \<^verbatim>\<open>None\<close>.
\<close>

unbundle bit_operations_syntax

section \<open>Big integers\<close>

text \<open>The bit length of a magnitude (\<^verbatim>\<open>bits\<close>) and its big-endian bytes (\<^verbatim>\<open>to_bytes_be\<close>).\<close>

fun bit_length :: "nat \<Rightarrow> nat" where
  "bit_length n = (if n = 0 then 0 else Suc (bit_length (n div 2)))"

fun to_bytes_be :: "nat \<Rightarrow> bytes" where
  "to_bytes_be n =
     (if n < 256 then [of_nat n] else to_bytes_be (n div 256) @ [of_nat (n mod 256)])"

definition to_u32 :: "nat \<Rightarrow> u32 option" where
  "to_u32 n = (if n < 2 ^ 32 then Some (of_nat n) else None)"

declare bit_length.simps [simp del] to_bytes_be.simps [simp del]

lemma bit_length_0 [simp]: "bit_length 0 = 0"
  by (simp add: bit_length.simps)

lemma bit_length_le_iff: "bit_length n \<le> k \<longleftrightarrow> n < 2 ^ k"
proof (induction n arbitrary: k rule: bit_length.induct)
  case (1 n)
  show ?case
  proof (cases k)
    case 0
    then show ?thesis by (simp add: bit_length.simps [of n])
  next
    case (Suc j)
    then show ?thesis using 1 [of j] by (auto simp: bit_length.simps [of n])
  qed
qed

lemma less_two_power_bit_length: "n < 2 ^ bit_length n"
  using bit_length_le_iff [of n "bit_length n"] by simp

lemma bit_length_unique: "2 ^ k \<le> n \<Longrightarrow> n < 2 ^ Suc k \<Longrightarrow> bit_length n = Suc k"
  using bit_length_le_iff [of n k] bit_length_le_iff [of n "Suc k"] by linarith

lemma two_power_bit_length_le: "0 < n \<Longrightarrow> 2 ^ (bit_length n - 1) \<le> n"
  using bit_length_le_iff [of n "bit_length n - 1"] bit_length_le_iff [of n 0]
  by (cases "bit_length n") (auto simp: not_less)

lemma from_be_to_bytes_be: "from_be (to_bytes_be n) = n"
proof (induction n rule: to_bytes_be.induct)
  case (1 n)
  show ?case
  proof (cases "n < 256")
    case True
    then show ?thesis
      by (simp add: to_bytes_be.simps [of n] from_be_def unat_of_nat)
  next
    case False
    then show ?thesis using 1
      by (simp add: to_bytes_be.simps [of n] unat_of_nat)
  qed
qed

lemma length_to_bytes_be_bounds:
  "0 < n \<Longrightarrow> 256 ^ (length (to_bytes_be n) - 1) \<le> n \<and> n < 256 ^ length (to_bytes_be n)"
proof (induction n rule: to_bytes_be.induct)
  case (1 n)
  show ?case
  proof (cases "n < 256")
    case True
    then show ?thesis using 1 by (simp add: to_bytes_be.simps [of n])
  next
    case False
    let ?k = "length (to_bytes_be (n div 256))"
    have "256 ^ (?k - 1) \<le> n div 256" "n div 256 < 256 ^ ?k"
      using 1 False by simp_all
    moreover have "0 < ?k" by (simp add: to_bytes_be.simps [of "n div 256"])
    moreover from this have "(256 :: nat) ^ ?k = 256 * 256 ^ (?k - 1)" by (cases ?k) simp_all
    ultimately have "256 ^ ?k \<le> n" "n < 256 * 256 ^ ?k"
      by (simp_all add: less_eq_div_iff_mult_less_eq mult.commute div_less_iff_less_mult)
    with False show ?thesis by (simp add: to_bytes_be.simps [of n])
  qed
qed

lemma length_to_bytes_be_le: "n < 256 ^ k \<Longrightarrow> 0 < k \<Longrightarrow> length (to_bytes_be n) \<le> k"
proof (cases "n = 0")
  case False
  assume *: "n < 256 ^ k" "0 < k"
  then have "(256 :: nat) ^ (length (to_bytes_be n) - 1) < 256 ^ k"
    using length_to_bytes_be_bounds [of n] False by linarith
  then show ?thesis by (simp add: power_less_imp_less_exp)
qed (simp add: to_bytes_be.simps)

lemma from_be_append: "from_be (xs @ ys) = from_be xs * 256 ^ length ys + from_be ys"
  by (induction ys rule: rev_induct) (simp_all flip: append_assoc add: algebra_simps)

lemma from_be_zeros [simp]: "from_be (replicate k 0) = 0"
proof (induction k)
  case (Suc k)
  have "replicate (Suc k) (0 :: u8) = replicate k 0 @ [0]"
    by (simp add: replicate_append_same)
  with Suc show ?case by (simp only: from_be_snoc) simp
qed simp

lemma from_be_ones: "from_be (replicate k 0xff) = 256 ^ k - 1"
proof (induction k)
  case (Suc k)
  have "replicate (Suc k) (0xff :: u8) = replicate k 0xff @ [0xff]"
    by (simp add: replicate_append_same)
  moreover have "unat (0xff :: u8) = 255" by simp
  moreover have "(1 :: nat) \<le> 256 ^ k" by simp
  ultimately show ?case using Suc by (simp only: from_be_snoc) (simp add: algebra_simps)
qed simp

text \<open>Left-padding the big-endian bytes gives the fixed-width form.\<close>

lemma pad_to_bytes_be:
  assumes "n < 256 ^ k" "0 < k"
  shows "replicate (k - length (to_bytes_be n)) 0 @ to_bytes_be n = be_pad k n"
proof -
  have "length (to_bytes_be n) \<le> k" by (rule length_to_bytes_be_le [OF assms])
  then show ?thesis
    using assms by (subst from_be_inject [symmetric])
      (simp_all add: from_be_append from_be_to_bytes_be from_be_be_pad)
qed

section \<open>Compact targets\<close>

definition compact_to_target :: "u32 \<Rightarrow> int" where
  "compact_to_target compact =
     (if compact = 0 then 0
      else
        let exponent = drop_bit 24 compact;
            negative = (drop_bit 23 compact AND 1) \<noteq> 0;
            mantissa = compact AND 0x007fffff;
            target = (if exponent \<le> 3
                      then uint (drop_bit (unat (8 * (3 - exponent))) mantissa)
                      else push_bit (unat (8 * (exponent - 3))) (uint mantissa))
        in if negative then - target else target)"

definition target_to_compact :: "nat \<Rightarrow> u32 option" where
  "target_to_compact target =
     (if target = 0 then Some 0
      else
        let exponent = (of_nat (length (to_bytes_be target)) :: u32) in
        Option.bind
          (if exponent \<le> 3
           then map_option (push_bit (unat (8 * (3 - exponent)))) (to_u32 target)
           else to_u32 (drop_bit (unat (8 * (exponent - 3))) target))
          (\<lambda>mantissa.
            let (mantissa, exponent) =
                  (if (mantissa AND 0x00800000) \<noteq> 0 then (drop_bit 8 mantissa, exponent + 1)
                   else (mantissa, exponent))
            in Some (push_bit 24 exponent OR mantissa)))"

text \<open>\<^verbatim>\<open>target.sign() != Sign::Plus || target.bits() > 256\<close> rejects.\<close>

definition verify_pow :: "hash256 \<Rightarrow> u32 \<Rightarrow> bool" where
  "verify_pow hash bits =
     (let target = compact_to_target bits in
      if \<not> target > 0 \<or> bit_length (nat \<bar>target\<bar>) > 256 then False
      else from_be hash \<le> nat target)"

section \<open>Capture parameters\<close>

record CaptureParameters =
  network_target :: hash256
  leading_zero_bits_p :: u16
  leading_zero_prefix_q :: u16
  blind_band_bits_d :: u16
  capture_target :: hash256

datatype CaptureParameterError = InvalidTarget | InvalidBlindBand

definition u8_leading_zeros :: "u8 \<Rightarrow> nat" where
  "u8_leading_zeros b = 8 - bit_length (unat b)"

fun count_leading_zero_bits :: "bytes \<Rightarrow> u16" where
  "count_leading_zero_bits [] = 0"
| "count_leading_zero_bits (byte # bytes) =
     (if byte = 0 then 8 + count_leading_zero_bits bytes else of_nat (u8_leading_zeros byte))"

definition derive_capture_parameters ::
  "u32 \<Rightarrow> u16 \<Rightarrow> CaptureParameterError + CaptureParameters" where
  "derive_capture_parameters bits d =
     (let target = compact_to_target bits in
      if \<not> target > 0 \<or> bit_length (nat \<bar>target\<bar>) > 256 then Inl InvalidTarget
      else
        let target_bytes = to_bytes_be (nat target);
            network_target = replicate (32 - length target_bytes) 0 @ target_bytes;
            p = count_leading_zero_bits network_target
        in if d = 0 \<or> d \<ge> p then Inl InvalidBlindBand
           else
             let q = p - d;
                 zero_bytes = unat (q div 8);
                 filled = replicate zero_bytes 0 @ drop zero_bytes (replicate 32 0xff);
                 partial_zero_bits = q mod 8;
                 capture_target =
                   (if partial_zero_bits \<noteq> 0
                    then filled[zero_bytes := drop_bit (unat partial_zero_bits) (filled ! zero_bytes)]
                    else filled)
             in Inr \<lparr>network_target = network_target, leading_zero_bits_p = p,
                     leading_zero_prefix_q = q, blind_band_bits_d = d,
                     capture_target = capture_target\<rparr>)"

section \<open>Correctness of compact targets\<close>

text \<open>Field extraction from a compact word with exponent \<^verbatim>\<open>e\<close> and mantissa \<^verbatim>\<open>m\<close>.\<close>

lemma bit_less_of_unat:
  fixes w :: "'a::len word"
  assumes "unat w < 2 ^ k" "bit w n"
  shows "n < k"
proof (rule ccontr)
  assume "\<not> n < k"
  have "unat w < 2 ^ n" using assms(1) \<open>\<not> n < k\<close>
    by (meson less_le_trans not_less one_le_numeral power_increasing)
  then have "\<not> bit (unat w) n" by (simp add: bit_nat_def)
  with assms(2) show False by (simp add: bit_unsigned_iff)
qed

lemma compact_fields:
  fixes e m :: u32
  assumes "unat e < 2 ^ 8" "unat m < 2 ^ 23"
  shows "drop_bit 24 (push_bit 24 e OR m) = e"
    and "drop_bit 23 (push_bit 24 e OR m) AND 1 = 0"
    and "(push_bit 24 e OR m) AND 0x007fffff = m"
proof -
  note e = bit_less_of_unat [OF assms(1)] and m = bit_less_of_unat [OF assms(2)]
  show "drop_bit 24 (push_bit 24 e OR m) = e"
    by (rule bit_word_eqI) (use e m in \<open>force simp: bit_simps\<close>)
  show "drop_bit 23 (push_bit 24 e OR m) AND 1 = 0"
    by (rule bit_word_eqI) (use m in \<open>auto simp: bit_simps\<close>)
  have "(0x007fffff :: u32) = mask 23" by (simp add: mask_eq_exp_minus_1)
  moreover have "(push_bit 24 e OR m) AND mask 23 = m"
    by (rule bit_word_eqI) (use m in \<open>auto simp: bit_simps\<close>)
  ultimately show "(push_bit 24 e OR m) AND 0x007fffff = m" by simp
qed

definition compact_value :: "nat \<Rightarrow> nat \<Rightarrow> nat" where
  "compact_value e m = (if e \<le> 3 then m div 256 ^ (3 - e) else m * 256 ^ (e - 3))"

lemma power_256: "(256 :: 'a::semiring_1) ^ k = 2 ^ (8 * k)"
  by (simp add: power_mult)

lemma unat_8_mult: "unat (w :: u32) < 2 ^ 24 \<Longrightarrow> unat (8 * w) = 8 * unat w"
  by (simp add: unat_word_ariths)

lemma compact_to_target_fields:
  fixes e m :: u32
  assumes "unat e < 2 ^ 8" "unat m < 2 ^ 23"
  shows "compact_to_target (push_bit 24 e OR m) = int (compact_value (unat e) (unat m))"
proof (cases "push_bit 24 e OR m = 0")
  case True
  then have "m = 0" using compact_fields(3) [OF assms] by simp
  with True show ?thesis by (simp add: compact_to_target_def compact_value_def)
next
  case nz: False
  have lo: "unat (8 * (3 - e)) = 8 * (3 - unat e)" if "e \<le> 3"
  proof -
    have "unat (3 - e) = 3 - unat e" using that by (simp add: unat_sub)
    then show ?thesis by (subst unat_8_mult) simp_all
  qed
  have hi: "unat (8 * (e - 3)) = 8 * (unat e - 3)" if "\<not> e \<le> 3"
  proof -
    have "unat (e - 3) = unat e - 3" using that by (simp add: unat_sub)
    then show ?thesis using assms(1) by (subst unat_8_mult) simp_all
  qed
  have e3: "e \<le> 3 \<longleftrightarrow> unat e \<le> 3" by (simp add: word_le_nat_alt)
  have c: "compact_to_target (push_bit 24 e OR m) =
      (if e \<le> 3 then uint (drop_bit (unat (8 * (3 - e))) m)
       else push_bit (unat (8 * (e - 3))) (uint m))"
    unfolding compact_to_target_def compact_fields [OF assms] Let_def using nz by simp
  show ?thesis
  proof (cases "e \<le> 3")
    case True
    then have "compact_to_target (push_bit 24 e OR m) = uint (drop_bit (8 * (3 - unat e)) m)"
      unfolding c lo [OF True] by simp
    also have "\<dots> = int (unat m div 2 ^ (8 * (3 - unat e)))"
      by (simp only: uint_nat unat_drop_bit_eq drop_bit_eq_div [of _ "unat m"])
    finally show ?thesis using True by (simp only: compact_value_def e3 power_256 if_True)
  next
    case False
    then have "compact_to_target (push_bit 24 e OR m) = push_bit (8 * (unat e - 3)) (uint m)"
      unfolding c hi [OF False] by simp
    also have "\<dots> = int (unat m * 2 ^ (8 * (unat e - 3)))"
      by (simp add: push_bit_eq_mult)
    finally show ?thesis using False by (simp only: compact_value_def e3 power_256 if_False)
  qed
qed

text \<open>The mantissa before and after normalisation.\<close>

definition raw_mantissa :: "nat \<Rightarrow> nat \<Rightarrow> nat" where
  "raw_mantissa n t = (if n \<le> 3 then t * 256 ^ (3 - n) else t div 256 ^ (n - 3))"

lemma raw_mantissa_bounds:
  assumes "256 ^ (n - 1) \<le> t" "t < 256 ^ n" "0 < n"
  shows "2 ^ 16 \<le> raw_mantissa n t \<and> raw_mantissa n t < 2 ^ 24"
proof (cases "n \<le> 3")
  case True
  then have "n = 1 \<or> n = 2 \<or> n = 3" using assms(3) by linarith
  then show ?thesis using assms by (auto simp: raw_mantissa_def)
next
  case False
  then obtain k where "n = k + 3" "0 < k" by (metis less_imp_add_positive add.commute not_le)
  with assms show ?thesis
    by (simp add: raw_mantissa_def power_add less_eq_div_iff_mult_less_eq
      div_less_iff_less_mult mult.commute)
qed

lemma and_bit23:
  assumes "M < 2 ^ 24"
  shows "((of_nat M :: u32) AND 0x00800000) \<noteq> 0 \<longleftrightarrow> 2 ^ 23 \<le> M"
proof -
  have "(0x00800000 :: u32) = 2 ^ 23" by simp
  then have "((of_nat M :: u32) AND 0x00800000) \<noteq> 0 \<longleftrightarrow> bit (of_nat M :: u32) 23"
    by (simp only: and_exp_eq_0_iff_not_bit not_not)
  also have "\<dots> \<longleftrightarrow> odd (M div 2 ^ 23)"
    by (simp add: bit_of_nat_iff bit_nat_def)
  also have "\<dots> \<longleftrightarrow> 2 ^ 23 \<le> M"
  proof -
    have "M div 2 ^ 23 = (if 2 ^ 23 \<le> M then 1 else 0)"
      using assms by (auto simp: div_eq_0_iff intro: div_nat_eqI)
    then show ?thesis by simp
  qed
  finally show ?thesis .
qed

lemma target_to_compact_fields:
  assumes "0 < t" "n = length (to_bytes_be t)" "n \<le> 254"
    and "(m, e) = (if 2 ^ 23 \<le> raw_mantissa n t then (raw_mantissa n t div 256, n + 1)
      else (raw_mantissa n t, n))"
  shows "target_to_compact t = Some (push_bit 24 (of_nat e) OR of_nat m)"
proof -
  have b: "256 ^ (n - 1) \<le> t" "t < 256 ^ n" using length_to_bytes_be_bounds assms(1,2) by auto
  have n: "0 < n" using assms(1,2) by (simp add: to_bytes_be.simps [of t])
  have M: "raw_mantissa n t < 2 ^ 24" using raw_mantissa_bounds [OF b n] by simp
  have un: "unat (of_nat n :: u32) = n" using assms(3) by (simp add: unat_of_nat)
  have mant: "(if (of_nat n :: u32) \<le> 3
      then map_option (push_bit (unat (8 * (3 - (of_nat n :: u32))))) (to_u32 t)
      else to_u32 (drop_bit (unat (8 * ((of_nat n :: u32) - 3))) t)) = Some (of_nat (raw_mantissa n t))"
  proof (cases "n \<le> 3")
    case True
    then have le: "(of_nat n :: u32) \<le> 3" by (simp add: word_le_nat_alt un)
    have "unat (8 * (3 - (of_nat n :: u32))) = 8 * (3 - n)"
      using le by (subst unat_8_mult) (simp_all add: unat_sub un)
    moreover have "t \<le> t * 256 ^ (3 - n)" "t * 256 ^ (3 - n) < 2 ^ 24"
      using M True by (simp_all add: raw_mantissa_def)
    then have "t < 2 ^ 24" by (rule order.strict_trans1)
    then have "t < 2 ^ 32" by simp
    ultimately show ?thesis using le True
      by (simp add: to_u32_def push_bit_eq_mult raw_mantissa_def power_256)
  next
    case False
    then have le: "\<not> (of_nat n :: u32) \<le> 3" by (simp add: word_le_nat_alt un)
    have "unat (8 * ((of_nat n :: u32) - 3)) = 8 * (n - 3)"
      using le assms(3) by (subst unat_8_mult) (simp_all add: unat_sub un)
    then show ?thesis using le False M
      by (simp add: to_u32_def drop_bit_eq_div raw_mantissa_def power_256)
  qed
  have "drop_bit 8 (of_nat (raw_mantissa n t) :: u32) = of_nat (raw_mantissa n t div 256)"
  proof -
    have "unat (of_nat (raw_mantissa n t) :: u32) = raw_mantissa n t"
      "unat (of_nat (raw_mantissa n t div 256) :: u32) = raw_mantissa n t div 256"
      using M by (simp_all add: unat_of_nat)
    then show ?thesis
      by (simp only: word_unat_eq_iff unat_drop_bit_eq) (simp add: drop_bit_eq_div)
  qed
  then show ?thesis using assms(1,4) and_bit23 [OF M]
    unfolding target_to_compact_def Let_def assms(2) [symmetric] mant
    by (simp split: if_splits add: add.commute)
qed

text \<open>The exponent and mantissa a target is encoded with.\<close>

definition compact_parts :: "nat \<Rightarrow> nat \<times> nat" where
  "compact_parts t =
     (let n = length (to_bytes_be t); M = raw_mantissa n t
      in if 2 ^ 23 \<le> M then (M div 256, n + 1) else (M, n))"

lemma length_to_bytes_be_unique:
  assumes "256 ^ (n - 1) \<le> t" "t < 256 ^ n" "0 < n"
  shows "length (to_bytes_be t) = n"
proof -
  have t: "0 < t" using assms(1) by (meson less_le_trans zero_less_numeral zero_less_power)
  have "length (to_bytes_be t) \<le> n" by (rule length_to_bytes_be_le [OF assms(2,3)])
  moreover have "(256 :: nat) ^ (n - 1) < 256 ^ length (to_bytes_be t)"
    using length_to_bytes_be_bounds [OF t] assms(1) by linarith
  then have "n - 1 < length (to_bytes_be t)" by (simp add: power_less_imp_less_exp)
  ultimately show ?thesis by linarith
qed

lemma compact_parts_high:
  assumes "256 ^ (n - 1) \<le> t" "t < 256 ^ n" "0 < n" "compact_parts t = (m, e)" "3 < e"
  shows "m = t div 256 ^ (e - 3) \<and> 2 ^ 15 \<le> m \<and> m < 2 ^ 23 \<and>
    (e = n \<and> 2 ^ 16 \<le> m \<or> e = n + 1)"
proof -
  have n: "length (to_bytes_be t) = n" by (rule length_to_bytes_be_unique [OF assms(1-3)])
  note M = raw_mantissa_bounds [OF assms(1-3)]
  show ?thesis
  proof (cases "2 ^ 23 \<le> raw_mantissa n t")
    case True
    then have me: "m = raw_mantissa n t div 256" "e = n + 1"
      using assms(4) by (simp_all add: compact_parts_def n Let_def)
    with assms(5) have n3: "3 \<le> n" by simp
    have "raw_mantissa n t = t div 256 ^ (n - 3)" using n3 by (simp add: raw_mantissa_def)
    then have "m = t div (256 ^ (n - 3) * 256)" using me by (simp add: div_mult2_eq)
    also have "(256 :: nat) ^ (n - 3) * 256 = 256 ^ (e - 3)"
    proof -
      have "e - 3 = Suc (n - 3)" using me n3 by simp
      then show ?thesis by (simp only: power_Suc mult.commute)
    qed
    finally show ?thesis using True M me by auto
  next
    case False
    then have me: "m = raw_mantissa n t" "e = n"
      using assms(4) by (auto simp: compact_parts_def n Let_def)
    with assms(5) M False show ?thesis by (auto simp: raw_mantissa_def)
  qed
qed

lemma compact_parts_low:
  assumes "256 ^ (n - 1) \<le> t" "t < 256 ^ n" "0 < n" "compact_parts t = (m, e)" "e \<le> 3"
  shows "compact_value e m = t \<and> m < 2 ^ 23"
proof -
  have n: "length (to_bytes_be t) = n" by (rule length_to_bytes_be_unique [OF assms(1-3)])
  have "n = 1 \<or> n = 2 \<or> n = 3" "2 ^ 23 \<le> raw_mantissa n t \<Longrightarrow> n \<noteq> 3"
    using assms(3-5) by (auto simp: compact_parts_def n Let_def split: if_splits)
  then show ?thesis using assms(2,4)
    by (auto simp: compact_parts_def n Let_def raw_mantissa_def compact_value_def split: if_splits)
qed

lemma compact_value_high:
  assumes "3 < e" "m = t div 256 ^ (e - 3)" "2 ^ 15 \<le> m"
  shows "compact_value e m \<le> t" "(t - compact_value e m) * 2 ^ 15 \<le> compact_value e m"
proof -
  let ?B = "256 ^ (e - 3) :: nat"
  have d: "compact_value e m = m * ?B" using assms(1) by (simp add: compact_value_def)
  then show "compact_value e m \<le> t" using assms(2) by simp
  have "t - compact_value e m = t mod ?B" using assms(2) d by (simp add: minus_div_mult_eq_mod)
  then have "t - compact_value e m \<le> ?B" by simp
  then have "(t - compact_value e m) * 2 ^ 15 \<le> ?B * m"
    using assms(3) by (rule mult_le_mono)
  then show "(t - compact_value e m) * 2 ^ 15 \<le> compact_value e m" using d by (simp add: mult.commute)
qed

lemma raw_mantissa_shifted:
  assumes "3 \<le> n" "3 \<le> k" "n \<le> k"
  shows "raw_mantissa n (m * 256 ^ (k - 3)) = m * 256 ^ (k - n)"
proof -
  have "k - 3 = (k - n) + (n - 3)" using assms by simp
  then have "m * 256 ^ (k - 3) = m * 256 ^ (k - n) * 256 ^ (n - 3)" by (simp add: power_add)
  then show ?thesis using assms by (auto simp: raw_mantissa_def)
qed

text \<open>Truncating a target to its mantissa does not change the exponent and mantissa.\<close>

lemma compact_parts_truncated:
  assumes "256 ^ (n - 1) \<le> t" "t < 256 ^ n" "0 < n" "compact_parts t = (m, e)" "3 < e"
  shows "0 < compact_value e m \<and> compact_parts (compact_value e m) = (m, e)"
proof -
  note h = compact_parts_high [OF assms]
  then have n3: "3 \<le> n" and ne: "n \<le> e" using assms(5) by auto
  have d: "compact_value e m = m * 256 ^ (e - 3)" using assms(5) by (simp add: compact_value_def)
  have "compact_value e m \<le> t" using compact_value_high [of e m t] h assms(5) by simp
  then have hi: "compact_value e m < 256 ^ n" using assms(2) by simp
  have "(256 :: nat) ^ (n - 1) = 2 ^ 16 * 256 ^ (n - 3)"
  proof -
    have "n - 1 = 2 + (n - 3)" using n3 by simp
    then show ?thesis by (simp only: power_add) simp
  qed
  moreover have "2 ^ 16 * 256 ^ (n - 3) \<le> m * (256 :: nat) ^ (e - 3)"
  proof (cases "e = n")
    case True
    then show ?thesis using h by simp
  next
    case False
    then have e: "e - 3 = Suc (n - 3)" using h n3 by auto
    have "2 ^ 16 * 256 ^ (n - 3) \<le> 2 ^ 15 * 256 * (256 :: nat) ^ (n - 3)" by simp
    also have "\<dots> \<le> m * 256 * 256 ^ (n - 3)" using h by (intro mult_le_mono) simp_all
    finally show ?thesis unfolding e by (simp add: mult.assoc)
  qed
  ultimately have lo: "256 ^ (n - 1) \<le> compact_value e m" using d by simp
  have l: "length (to_bytes_be (compact_value e m)) = n"
    by (rule length_to_bytes_be_unique [OF lo hi assms(3)])
  have r: "raw_mantissa n (compact_value e m) = m * 256 ^ (e - n)"
    unfolding d using n3 ne assms(5) by (intro raw_mantissa_shifted) simp_all
  have "0 < compact_value e m" using lo by (meson less_le_trans zero_less_numeral zero_less_power)
  moreover have "compact_parts (compact_value e m) =
      (if 2 ^ 23 \<le> m * 256 ^ (e - n) then (m * 256 ^ (e - n) div 256, n + 1)
       else (m * 256 ^ (e - n), n))"
    by (simp only: compact_parts_def l r Let_def)
  moreover have "2 ^ 15 \<le> m" "m < 2 ^ 23" "e = n \<or> e = n + 1" using h by blast+
  ultimately show ?thesis by auto
qed

lemma target_to_compact_parts:
  assumes "0 < t" "t < 2 ^ 256" "compact_parts t = (m, e)"
  shows "target_to_compact t = Some (push_bit 24 (of_nat e) OR of_nat m)"
    and "compact_to_target (push_bit 24 (of_nat e) OR of_nat m) = int (compact_value e m)"
    and "compact_value e m \<le> t" "(t - compact_value e m) * 2 ^ 15 \<le> compact_value e m"
    and "0 < compact_value e m" "compact_parts (compact_value e m) = (m, e)"
proof -
  define n where "n = length (to_bytes_be t)"
  have t: "256 ^ (n - 1) \<le> t" "t < 256 ^ n"
    using length_to_bytes_be_bounds [OF assms(1)] by (simp_all add: n_def)
  have n: "0 < n" using assms(1) by (simp add: n_def to_bytes_be.simps [of t])
  have "n \<le> 32" unfolding n_def using assms(2) by (intro length_to_bytes_be_le) (simp_all add: power_256)
  have en: "e \<le> 33" using assms(3) \<open>n \<le> 32\<close> by (auto simp: compact_parts_def n_def Let_def split: if_splits)
  have m: "m < 2 ^ 23"
    using compact_parts_high [OF t n assms(3)] compact_parts_low [OF t n assms(3)] by (cases "3 < e") auto
  show "target_to_compact t = Some (push_bit 24 (of_nat e) OR of_nat m)"
    by (rule target_to_compact_fields [OF assms(1) n_def])
      (use assms(3) \<open>n \<le> 32\<close> in \<open>auto simp: compact_parts_def n_def Let_def\<close>)
  show "compact_to_target (push_bit 24 (of_nat e) OR of_nat m) = int (compact_value e m)"
    using compact_to_target_fields [of "of_nat e" "of_nat m"] en m by (simp add: unat_of_nat)
  show "compact_value e m \<le> t" "(t - compact_value e m) * 2 ^ 15 \<le> compact_value e m"
    using compact_parts_low [OF t n assms(3)] compact_parts_high [OF t n assms(3)]
      compact_value_high [of e m t] by (cases "3 < e"; simp)+
  show "0 < compact_value e m" "compact_parts (compact_value e m) = (m, e)"
    using compact_parts_low [OF t n assms(3)] compact_parts_truncated [OF t n assms(3)]
      assms(1,3) by (cases "3 < e"; simp)+
qed

section \<open>Correctness of proof of work and capture parameters\<close>

lemma target_in_range:
  "\<not> (\<not> t > 0 \<or> bit_length (nat \<bar>t\<bar>) > 256) \<longleftrightarrow> 0 < t \<and> t < 2 ^ 256"
proof (cases "0 < t")
  case True
  then have "bit_length (nat t) \<le> 256 \<longleftrightarrow> t < 2 ^ 256"
    by (simp add: bit_length_le_iff nat_less_iff)
  with True show ?thesis by (simp add: not_less)
qed simp

lemma from_be_Cons: "from_be (b # bs) = unat b * 256 ^ length bs + from_be bs"
  using from_be_append [of "[b]" bs] by (simp add: from_be_def)

lemma bit_length_u8: "bit_length (unat (b :: u8)) \<le> 8"
  using unat_u8_less [of b] by (simp add: bit_length_le_iff)

lemma bit_length_shift:
  assumes "0 < a" "x < 2 ^ k"
  shows "bit_length (a * 2 ^ k + x) = bit_length a + k"
proof -
  define j where "j = bit_length a - 1"
  have "bit_length a \<noteq> 0" using bit_length_le_iff [of a 0] assms(1) by auto
  then have j: "bit_length a = Suc j" by (simp add: j_def)
  have "2 ^ j \<le> a" using two_power_bit_length_le [OF assms(1)] by (simp add: j_def)
  moreover have "a < 2 ^ Suc j" using less_two_power_bit_length [of a] by (simp add: j)
  then have "Suc a \<le> 2 ^ Suc j" by simp
  then have "Suc a * 2 ^ k \<le> 2 ^ Suc j * 2 ^ k" by (rule mult_le_mono1)
  ultimately have "2 ^ (j + k) \<le> a * 2 ^ k + x" "a * 2 ^ k + x < 2 ^ Suc (j + k)"
    using assms(2) by (simp_all add: power_add trans_le_add1)
  then show ?thesis by (simp add: bit_length_unique j)
qed

lemma unat_count_leading_zero_bits:
  "length bs \<le> 32 \<Longrightarrow>
   unat (count_leading_zero_bits bs) = 8 * length bs - bit_length (from_be bs)"
proof (induction bs)
  case (Cons b bs)
  let ?k = "8 * length bs"
  have x: "from_be bs < 2 ^ ?k" using from_be_less [of bs] by (simp add: power_256)
  show ?case
  proof (cases "b = 0")
    case True
    have "bit_length (from_be bs) \<le> ?k" using x by (simp add: bit_length_le_iff)
    then show ?thesis using Cons True
      by (simp add: from_be_Cons unat_word_ariths)
  next
    case False
    then have "0 < unat b" by (simp add: unat_gt_0)
    then have "bit_length (from_be (b # bs)) = bit_length (unat b) + ?k"
      using bit_length_shift [OF _ x] by (simp add: from_be_Cons power_256)
    moreover have "unat (of_nat (8 - bit_length (unat b)) :: u16) = 8 - bit_length (unat b)"
      by (simp add: unat_of_nat)
    ultimately show ?thesis using False by (simp add: u8_leading_zeros_def)
  qed
qed simp

text \<open>The bytes built for the capture target are the mask of the low bits.\<close>

definition capture_bytes :: "nat \<Rightarrow> nat \<Rightarrow> bytes" where
  "capture_bytes z r =
     (let filled = replicate z 0 @ drop z (replicate 32 0xff)
      in if r \<noteq> 0 then filled[z := drop_bit r (filled ! z)] else filled)"

lemma from_be_capture_bytes:
  assumes "z < 32" "r < 8"
  shows "length (capture_bytes z r) = 32 \<and> from_be (capture_bytes z r) = 2 ^ (256 - (8 * z + r)) - 1"
proof -
  obtain k where k: "32 - z = Suc k" using assms(1) by (metis Suc_diff_Suc)
  have "capture_bytes z r = replicate z 0 @ drop_bit r 0xff # replicate k 0xff"
    using k assms(1) by (simp add: capture_bytes_def list_update_append nth_append Let_def)
  moreover have "unat (drop_bit r (0xff :: u8)) + 1 = 2 ^ (8 - r)"
  proof -
    have "r \<in> {0, 1, 2, 3, 4, 5, 6, 7}" using assms(2) by auto
    then show ?thesis by (auto simp: unat_drop_bit_eq)
  qed
  moreover have "256 - (8 * z + r) = (8 - r) + 8 * k" using k assms by linarith
  moreover have "(1 :: nat) \<le> 256 ^ k" by simp
  ultimately show ?thesis using k assms(1)
    by (auto simp: from_be_append from_be_Cons from_be_ones power_add power_256 algebra_simps
      dest: arg_cong [of _ _ "\<lambda>x. x * 256 ^ k"])
qed

lemma verify_pow_iff:
  "verify_pow hash bits \<longleftrightarrow>
     0 < compact_to_target bits \<and> compact_to_target bits < 2 ^ 256 \<and>
     int (from_be hash) \<le> compact_to_target bits"
  unfolding verify_pow_def Let_def using target_in_range [of "compact_to_target bits"]
  by (cases "0 < compact_to_target bits \<and> compact_to_target bits < 2 ^ 256")
    (auto simp: le_nat_iff)

lemma derive_capture_parameters_cases:
  assumes "t = nat (compact_to_target bits)" "p = count_leading_zero_bits (be_pad 32 t)"
  shows "derive_capture_parameters bits d =
    (if \<not> (0 < compact_to_target bits \<and> compact_to_target bits < 2 ^ 256) then Inl InvalidTarget
     else if d = 0 \<or> d \<ge> p then Inl InvalidBlindBand
     else Inr \<lparr>network_target = be_pad 32 t, leading_zero_bits_p = p,
       leading_zero_prefix_q = p - d, blind_band_bits_d = d,
       capture_target = capture_bytes (unat ((p - d) div 8)) (unat ((p - d) mod 8))\<rparr>)"
proof (cases "0 < compact_to_target bits \<and> compact_to_target bits < 2 ^ 256")
  case True
  then have "t < 256 ^ 32" using assms(1) by (simp add: nat_less_iff)
  then have pad: "replicate (32 - length (to_bytes_be t)) 0 @ to_bytes_be t = be_pad 32 t"
    by (rule pad_to_bytes_be) simp
  have nz: "(x mod 8 \<noteq> 0) = (unat (x mod 8) \<noteq> 0)" for x :: u16 by (simp add: unat_eq_0)
  show ?thesis
    using True target_in_range [of "compact_to_target bits"]
    by (simp only: derive_capture_parameters_def Let_def assms(1) [symmetric] pad
      assms(2) [symmetric] capture_bytes_def nz) simp
next
  case False
  then show ?thesis
    using target_in_range [of "compact_to_target bits"]
    by (simp only: derive_capture_parameters_def Let_def) auto
qed

lemma derive_capture_parameters_Inr:
  assumes "derive_capture_parameters bits d = Inr cp"
    and "t = compact_to_target bits"
  shows "0 < t \<and> t < 2 ^ 256 \<and> network_target cp = be_pad 32 (nat t) \<and>
    blind_band_bits_d cp = d \<and> 0 < unat d \<and>
    unat (leading_zero_bits_p cp) = 256 - bit_length (nat t) \<and>
    unat (leading_zero_bits_p cp) = unat (leading_zero_prefix_q cp) + unat d \<and>
    0 < unat (leading_zero_prefix_q cp) \<and>
    length (capture_target cp) = 32 \<and>
    from_be (capture_target cp) = 2 ^ (256 - unat (leading_zero_prefix_q cp)) - 1"
proof -
  define p where "p = count_leading_zero_bits (be_pad 32 (nat t))"
  from assms derive_capture_parameters_cases [OF refl p_def [unfolded assms(2)], of d]
  have t: "0 < t" "t < 2 ^ 256" and d: "d \<noteq> 0" "d < p"
    and cp: "cp = \<lparr>network_target = be_pad 32 (nat t), leading_zero_bits_p = p,
       leading_zero_prefix_q = p - d, blind_band_bits_d = d,
       capture_target = capture_bytes (unat ((p - d) div 8)) (unat ((p - d) mod 8))\<rparr>"
    by (auto split: if_splits simp: not_le)
  have "nat t < 256 ^ 32" using t by (simp add: nat_less_iff)
  then have p: "unat p = 256 - bit_length (nat t)"
    unfolding p_def by (simp add: unat_count_leading_zero_bits from_be_be_pad)
  have d': "0 < unat d" "unat d < unat p" using d by (simp_all add: unat_gt_0 word_less_nat_alt)
  have q: "unat (p - d) = unat p - unat d" using d by (simp add: unat_sub)
  have dm: "unat ((p - d) div 8) = unat (p - d) div 8" "unat ((p - d) mod 8) = unat (p - d) mod 8"
    by (simp_all add: unat_div unat_mod)
  have "8 * (unat (p - d) div 8) + unat (p - d) mod 8 = unat (p - d)" by simp
  moreover have "unat (p - d) div 8 < 32" using p q d' by linarith
  ultimately have "length (capture_target cp) = 32 \<and>
      from_be (capture_target cp) = 2 ^ (256 - unat (p - d)) - 1"
    using from_be_capture_bytes [of "unat (p - d) div 8" "unat (p - d) mod 8"]
    by (simp add: cp dm)
  then show ?thesis using t p q d' by (simp add: cp)
qed

lemma capture_bound:
  assumes "derive_capture_parameters bits d = Inr cp"
  shows "nat (compact_to_target bits) * 2 ^ unat d < 2 ^ (256 - unat (leading_zero_prefix_q cp))"
proof -
  define t where "t = compact_to_target bits"
  define p where "p = unat (leading_zero_bits_p cp)"
  define q where "q = unat (leading_zero_prefix_q cp)"
  note i = derive_capture_parameters_Inr [OF assms t_def, folded p_def q_def]
  have "nat t < 2 ^ (256 - p)"
    using i bit_length_le_iff [of "nat t" "256 - p"] bit_length_le_iff [of "nat t" 256]
    by (auto simp: nat_less_iff)
  then have "Suc (nat t) \<le> 2 ^ (256 - p)" by (simp only: Suc_le_eq)
  then have "Suc (nat t) * 2 ^ unat d \<le> 2 ^ (256 - p) * 2 ^ unat d" by (rule mult_le_mono1)
  also have "\<dots> = 2 ^ (256 - q)"
  proof -
    have "(256 - p) + unat d = 256 - q" using i by linarith
    then show ?thesis by (simp only: flip: power_add)
  qed
  finally have "2 ^ unat d + nat t * 2 ^ unat d \<le> 2 ^ (256 - q)" by (simp only: mult_Suc)
  moreover have "(0 :: nat) < 2 ^ unat d" by simp
  ultimately show ?thesis unfolding t_def q_def by linarith
qed

lemma solution_below_capture:
  assumes "derive_capture_parameters bits d = Inr cp" "verify_pow hash bits"
  shows "from_be hash < 2 ^ (256 - unat (leading_zero_prefix_q cp))"
proof -
  have "from_be hash \<le> nat (compact_to_target bits)"
    using assms(2) by (simp add: verify_pow_iff le_nat_iff)
  also have "\<dots> \<le> nat (compact_to_target bits) * 2 ^ unat d" by simp
  also note capture_bound [OF assms(1)]
  finally show ?thesis .
qed

lemma below_capture_iff:
  assumes "derive_capture_parameters bits d = Inr cp"
  shows "x \<le> from_be (capture_target cp) \<longleftrightarrow> x < 2 ^ (256 - unat (leading_zero_prefix_q cp))"
proof -
  have "(0 :: nat) < 2 ^ (256 - unat (leading_zero_prefix_q cp))" by simp
  then show ?thesis using derive_capture_parameters_Inr [OF assms refl] by linarith
qed

lemma derive_capture_parameters_example:
  "\<exists>cp. derive_capture_parameters 0x1925ae67 12 = Inr cp"
proof -
  have t: "compact_to_target 0x1925ae67 = 0x25ae67 * 2 ^ 176"
    by (simp add: compact_to_target_def)
  have l: "bit_length (nat (0x25ae67 * 2 ^ 176)) = Suc 197"
    by (rule bit_length_unique) simp_all
  have "unat (count_leading_zero_bits (be_pad 32 (nat (0x25ae67 * 2 ^ 176)))) = 58"
    by (subst unat_count_leading_zero_bits) (simp_all only: length_be_pad from_be_be_pad, use l in simp_all)
  then show ?thesis
    using derive_capture_parameters_cases [of _ "0x1925ae67" _ 12, OF refl refl, unfolded t]
    by (auto simp: word_le_nat_alt)
qed

section \<open>Properties of targets\<close>

text \<open>
  C16: compact targets. Every target below 2 to the 256 is encoded without a panic; the encoding
  decodes to a target that is not larger and whose relative error is at most 2 to the -15; and
  encoding the decoded target gives the same compact word back.
\<close>

theorem compact_target_round_trip:
  assumes "t < 2 ^ 256"
  shows "\<exists>c. target_to_compact t = Some c \<and> 0 \<le> compact_to_target c \<and>
    compact_to_target c \<le> int t \<and>
    (int t - compact_to_target c) * 2 ^ 15 \<le> compact_to_target c \<and>
    target_to_compact (nat (compact_to_target c)) = Some c"
proof (cases "t = 0")
  case True
  then show ?thesis by (simp add: target_to_compact_def compact_to_target_def)
next
  case False
  obtain m e where me: "compact_parts t = (m, e)" by fastforce
  define d where "d = compact_value e m"
  note p = target_to_compact_parts [OF _ assms me, folded d_def]
  have d: "0 < d" "d < 2 ^ 256" "d \<le> t" "(t - d) * 2 ^ 15 \<le> d" using p False assms by auto
  have "(int t - int d) * 2 ^ 15 = int ((t - d) * 2 ^ 15)" using d(3) by (simp add: of_nat_diff)
  then have "(int t - int d) * 2 ^ 15 \<le> int d" using d(4) by (simp only: of_nat_le_iff)
  then show ?thesis
    using p(1,2) target_to_compact_parts(1) [OF d(1,2) p(6)] d False by simp
qed

theorem compact_target_round_trip_witness:
  "\<exists>c. target_to_compact 0x12345678 = Some c \<and> 0 \<le> compact_to_target c \<and>
    compact_to_target c \<le> 0x12345678 \<and>
    target_to_compact (nat (compact_to_target c)) = Some c"
  using compact_target_round_trip [of "0x12345678"] by auto

text \<open>
  C17: the capture target. When capture parameters are derived, the network target is the 32-byte
  big-endian form of the compact target, \<^verbatim>\<open>p\<close> is its number of leading zero bits, the public
  capture target is the mask of the low \<^verbatim>\<open>256 - (p - d)\<close> bits with \<^verbatim>\<open>0 < d < p\<close>, a hash is
  under the capture target exactly if its first \<^verbatim>\<open>p - d\<close> bits are zero, every hash that solves the
  block is under it, and it is at least \<^verbatim>\<open>2 ^ d\<close> times the network target.
\<close>

theorem capture_target_covers_solutions:
  assumes "derive_capture_parameters bits d = Inr cp"
  shows "network_target cp = be_pad 32 (nat (compact_to_target bits)) \<and>
    unat (leading_zero_bits_p cp) = 256 - bit_length (nat (compact_to_target bits)) \<and>
    0 < unat d \<and> unat d < unat (leading_zero_bits_p cp) \<and>
    unat (leading_zero_prefix_q cp) = unat (leading_zero_bits_p cp) - unat d \<and>
    length (capture_target cp) = 32 \<and>
    (from_be hash \<le> from_be (capture_target cp) \<longleftrightarrow>
       from_be hash div 2 ^ (256 - unat (leading_zero_prefix_q cp)) = 0) \<and>
    (verify_pow hash bits \<longrightarrow> from_be hash \<le> from_be (capture_target cp)) \<and>
    nat (compact_to_target bits) * 2 ^ unat d \<le> from_be (capture_target cp)"
proof -
  note i = derive_capture_parameters_Inr [OF assms refl]
  have "unat d < unat (leading_zero_bits_p cp)"
    "unat (leading_zero_prefix_q cp) = unat (leading_zero_bits_p cp) - unat d"
    using i by linarith+
  moreover have "x div 2 ^ k = 0 \<longleftrightarrow> x < 2 ^ k" for x k :: nat by (simp add: div_eq_0_iff)
  ultimately show ?thesis unfolding below_capture_iff [OF assms]
    using i capture_bound [OF assms] solution_below_capture [OF assms]
    by (intro conjI impI) blast+
qed

theorem capture_target_covers_solutions_witness:
  "\<exists>cp. derive_capture_parameters 0x1925ae67 12 = Inr cp \<and>
    unat (leading_zero_bits_p cp) = 256 - bit_length (nat (compact_to_target 0x1925ae67)) \<and>
    nat (compact_to_target 0x1925ae67) * 2 ^ 12 \<le> from_be (capture_target cp)"
proof -
  obtain cp where cp: "derive_capture_parameters 0x1925ae67 12 = Inr cp"
    using derive_capture_parameters_example by blast
  moreover have "unat (12 :: u16) = 12" by simp
  ultimately show ?thesis using capture_target_covers_solutions [OF cp] by metis
qed

end
