(* ===== verification/Hns_Header.thy ===== *)
theory Hns_Header
  imports Core_Common Hns_Target
begin

text \<open>
  Handshake headers and share hashing: \<^verbatim>\<open>crates/meshmine-hns/src/header.rs\<close>. The functions that
  read and write at a cursor are modelled with the buffer and the cursor they carry. BLAKE2b-256,
  BLAKE2b-512 and SHA3-256 come from other crates: they are the fields of a record of functions,
  and the only thing used about them is the length of a BLAKE2b-256 digest.
\<close>

record Hashes =
  hash_blake2b_256 :: "bytes \<Rightarrow> hash256"
  hash_blake2b_512 :: "bytes \<Rightarrow> bytes"
  hash_sha3_256 :: "bytes \<Rightarrow> hash256"

abbreviation h_blake2b_256 :: "Hashes \<Rightarrow> bytes list \<Rightarrow> hash256" where
  "h_blake2b_256 hs \<equiv> blake2b_256 (hash_blake2b_256 hs)"

definition blake2b_512 :: "Hashes \<Rightarrow> bytes list \<Rightarrow> bytes" where
  "blake2b_512 hs parts = hash_blake2b_512 hs (concat parts)"

definition HASH_SIZE :: nat where "HASH_SIZE = 32"
definition NONCE_SIZE :: nat where "NONCE_SIZE = 24"
definition HEADER_SIZE :: nat where "HEADER_SIZE = 236"
definition MINER_HEADER_SIZE :: nat where "MINER_HEADER_SIZE = 256"

datatype HeaderError = InvalidLength nat nat | InvalidPadding

record HnsHeader =
  hh_nonce :: u32
  hh_time :: u64
  hh_prev_block :: hash256
  hh_tree_root :: hash256
  hh_extra_nonce :: bytes
  hh_reserved_root :: hash256
  hh_witness_root :: hash256
  hh_merkle_root :: hash256
  hh_version :: u32
  hh_bits :: u32
  hh_mask :: hash256

record MinerHeader =
  mh_nonce :: u32
  mh_time :: u64
  mh_prev_block :: hash256
  mh_tree_root :: hash256
  mh_mask_hash :: hash256
  mh_extra_nonce :: bytes
  mh_reserved_root :: hash256
  mh_witness_root :: hash256
  mh_merkle_root :: hash256
  mh_version :: u32
  mh_bits :: u32

record PreparedMinerHasher =
  pmh_preheader :: bytes
  pmh_padding8 :: bytes
  pmh_padding32 :: bytes

section \<open>Reading and writing at a cursor\<close>

definition read_array :: "nat \<Rightarrow> bytes \<Rightarrow> nat \<Rightarrow> bytes \<times> nat" where
  "read_array n data cursor = (take n (drop cursor data), cursor + n)"

definition read_u32 :: "bytes \<Rightarrow> nat \<Rightarrow> u32 \<times> nat" where
  "read_u32 data cursor = (let (a, c) = read_array 4 data cursor in (from_le a, c))"

definition read_u64 :: "bytes \<Rightarrow> nat \<Rightarrow> u64 \<times> nat" where
  "read_u64 data cursor = (let (a, c) = read_array 8 data cursor in (from_le a, c))"

definition write_bytes :: "bytes \<Rightarrow> bytes \<times> nat \<Rightarrow> bytes \<times> nat" where
  "write_bytes data = (\<lambda>(out, cursor).
     (take cursor out @ data @ drop (cursor + length data) out, cursor + length data))"

definition write_u32 :: "u32 \<Rightarrow> bytes \<times> nat \<Rightarrow> bytes \<times> nat" where
  "write_u32 v = write_bytes (to_le 4 v)"

definition write_u64 :: "u64 \<Rightarrow> bytes \<times> nat \<Rightarrow> bytes \<times> nat" where
  "write_u64 v = write_bytes (to_le 8 v)"

lemma write_bytes_at:
  assumes "length d \<le> k"
  shows "write_bytes d (pre @ replicate k 0, length pre) =
    ((pre @ d) @ replicate (k - length d) 0, length (pre @ d))"
  using assms by (simp add: write_bytes_def)

text \<open>Writing pieces one after the other into a zeroed buffer they fill gives their concatenation.\<close>

lemma fold_write_bytes:
  assumes "length (concat ds) \<le> k"
  shows "fold write_bytes ds (pre @ replicate k 0, length pre) =
    ((pre @ concat ds) @ replicate (k - length (concat ds)) 0, length (pre @ concat ds))"
  using assms
proof (induction ds arbitrary: pre k)
  case (Cons d ds)
  have "length d \<le> k" "length (concat ds) \<le> k - length d" using Cons.prems by simp_all
  then show ?case using Cons.IH [of "k - length d" "pre @ d"] write_bytes_at [of d k pre] by simp
qed simp

lemma fold_write_fill:
  assumes "length (concat ds) = n"
  shows "fst (fold write_bytes ds (replicate n 0, 0)) = concat ds"
  using fold_write_bytes [of ds n "[]"] assms by simp

section \<open>Hashing\<close>

definition deterministic_padding :: "hash256 \<Rightarrow> hash256 \<Rightarrow> nat \<Rightarrow> bytes" where
  "deterministic_padding prev_block tree_root n =
     map (\<lambda>index. (prev_block ! (index mod HASH_SIZE)) XOR (tree_root ! (index mod HASH_SIZE)))
       [0..<n]"

definition subheader :: "bytes \<Rightarrow> hash256 \<Rightarrow> hash256 \<Rightarrow> hash256 \<Rightarrow> u32 \<Rightarrow> u32 \<Rightarrow> bytes" where
  "subheader extra_nonce reserved_root witness_root merkle_root version bits =
     fst (write_u32 bits (write_u32 version (write_bytes merkle_root
       (write_bytes witness_root (write_bytes reserved_root (write_bytes extra_nonce
         (replicate 128 0, 0)))))))"

definition preheader :: "u32 \<Rightarrow> u64 \<Rightarrow> hash256 \<Rightarrow> hash256 \<Rightarrow> hash256 \<Rightarrow> bytes" where
  "preheader nonce time prev_block tree_root commit_hash =
     fst (write_bytes commit_hash (write_bytes tree_root (write_bytes prev_block
       (write_bytes (deterministic_padding prev_block tree_root 20)
         (write_u64 time (write_u32 nonce (replicate 128 0, 0)))))))"

definition share_hash_from_preheader :: "Hashes \<Rightarrow> bytes \<Rightarrow> hash256 \<Rightarrow> hash256 \<Rightarrow> hash256" where
  "share_hash_from_preheader hs pre prev_block tree_root =
     (let left = blake2b_512 hs [pre];
          right = hash_sha3_256 hs (pre @ deterministic_padding prev_block tree_root 8)
      in h_blake2b_256 hs [left, deterministic_padding prev_block tree_root 32, right])"

definition xor_hashes :: "hash256 \<Rightarrow> hash256 \<Rightarrow> hash256" where
  "xor_hashes left right = map (\<lambda>index. (left ! index) XOR (right ! index)) [0..<HASH_SIZE]"

section \<open>The consensus header\<close>

definition HnsHeader_default :: HnsHeader where
  "HnsHeader_default = \<lparr>hh_nonce = 0, hh_time = 0, hh_prev_block = replicate HASH_SIZE 0,
     hh_tree_root = replicate HASH_SIZE 0, hh_extra_nonce = replicate NONCE_SIZE 0,
     hh_reserved_root = replicate HASH_SIZE 0, hh_witness_root = replicate HASH_SIZE 0,
     hh_merkle_root = replicate HASH_SIZE 0, hh_version = 0, hh_bits = 0,
     hh_mask = replicate HASH_SIZE 0\<rparr>"

definition HnsHeader_from_bytes :: "bytes \<Rightarrow> HeaderError + HnsHeader" where
  "HnsHeader_from_bytes data =
     (if length data \<noteq> HEADER_SIZE then Inl (InvalidLength HEADER_SIZE (length data))
      else
        let c = 0;
            (nonce, c) = read_u32 data c;
            (time, c) = read_u64 data c;
            (prev_block, c) = read_array HASH_SIZE data c;
            (tree_root, c) = read_array HASH_SIZE data c;
            (extra_nonce, c) = read_array NONCE_SIZE data c;
            (reserved_root, c) = read_array HASH_SIZE data c;
            (witness_root, c) = read_array HASH_SIZE data c;
            (merkle_root, c) = read_array HASH_SIZE data c;
            (version, c) = read_u32 data c;
            (bits, c) = read_u32 data c;
            (mask, c) = read_array HASH_SIZE data c
        in Inr \<lparr>hh_nonce = nonce, hh_time = time, hh_prev_block = prev_block,
             hh_tree_root = tree_root, hh_extra_nonce = extra_nonce,
             hh_reserved_root = reserved_root, hh_witness_root = witness_root,
             hh_merkle_root = merkle_root, hh_version = version, hh_bits = bits,
             hh_mask = mask\<rparr>)"

definition HnsHeader_to_bytes :: "HnsHeader \<Rightarrow> bytes" where
  "HnsHeader_to_bytes h =
     fst (write_bytes (hh_mask h) (write_u32 (hh_bits h) (write_u32 (hh_version h)
       (write_bytes (hh_merkle_root h) (write_bytes (hh_witness_root h)
       (write_bytes (hh_reserved_root h) (write_bytes (hh_extra_nonce h)
       (write_bytes (hh_tree_root h) (write_bytes (hh_prev_block h)
       (write_u64 (hh_time h) (write_u32 (hh_nonce h) (replicate HEADER_SIZE 0, 0))))))))))))"

definition HnsHeader_padding :: "HnsHeader \<Rightarrow> nat \<Rightarrow> bytes" where
  "HnsHeader_padding h n = deterministic_padding (hh_prev_block h) (hh_tree_root h) n"

definition HnsHeader_subheader :: "HnsHeader \<Rightarrow> bytes" where
  "HnsHeader_subheader h = subheader (hh_extra_nonce h) (hh_reserved_root h) (hh_witness_root h)
     (hh_merkle_root h) (hh_version h) (hh_bits h)"

definition HnsHeader_sub_hash :: "Hashes \<Rightarrow> HnsHeader \<Rightarrow> hash256" where
  "HnsHeader_sub_hash hs h = h_blake2b_256 hs [HnsHeader_subheader h]"

definition HnsHeader_mask_hash :: "Hashes \<Rightarrow> HnsHeader \<Rightarrow> hash256" where
  "HnsHeader_mask_hash hs h = h_blake2b_256 hs [hh_prev_block h, hh_mask h]"

definition HnsHeader_commit_hash :: "Hashes \<Rightarrow> HnsHeader \<Rightarrow> hash256" where
  "HnsHeader_commit_hash hs h =
     h_blake2b_256 hs [HnsHeader_sub_hash hs h, HnsHeader_mask_hash hs h]"

definition HnsHeader_preheader :: "Hashes \<Rightarrow> HnsHeader \<Rightarrow> bytes" where
  "HnsHeader_preheader hs h = preheader (hh_nonce h) (hh_time h) (hh_prev_block h)
     (hh_tree_root h) (HnsHeader_commit_hash hs h)"

definition HnsHeader_share_hash :: "Hashes \<Rightarrow> HnsHeader \<Rightarrow> hash256" where
  "HnsHeader_share_hash hs h =
     share_hash_from_preheader hs (HnsHeader_preheader hs h) (hh_prev_block h) (hh_tree_root h)"

definition HnsHeader_pow_hash :: "Hashes \<Rightarrow> HnsHeader \<Rightarrow> hash256" where
  "HnsHeader_pow_hash hs h = xor_hashes (HnsHeader_share_hash hs h) (hh_mask h)"

section \<open>The miner header\<close>

definition MinerHeader_from :: "Hashes \<Rightarrow> HnsHeader \<Rightarrow> MinerHeader" where
  "MinerHeader_from hs h =
     \<lparr>mh_nonce = hh_nonce h, mh_time = hh_time h, mh_prev_block = hh_prev_block h,
      mh_tree_root = hh_tree_root h, mh_mask_hash = HnsHeader_mask_hash hs h,
      mh_extra_nonce = hh_extra_nonce h, mh_reserved_root = hh_reserved_root h,
      mh_witness_root = hh_witness_root h, mh_merkle_root = hh_merkle_root h,
      mh_version = hh_version h, mh_bits = hh_bits h\<rparr>"

definition MinerHeader_from_bytes :: "bytes \<Rightarrow> HeaderError + MinerHeader" where
  "MinerHeader_from_bytes data =
     (if length data \<noteq> MINER_HEADER_SIZE
      then Inl (InvalidLength MINER_HEADER_SIZE (length data))
      else
        let c = 0;
            (nonce, c) = read_u32 data c;
            (time, c) = read_u64 data c;
            (padding, c) = read_array 20 data c;
            (prev_block, c) = read_array HASH_SIZE data c;
            (tree_root, c) = read_array HASH_SIZE data c
        in if padding \<noteq> deterministic_padding prev_block tree_root 20 then Inl InvalidPadding
           else
             let (mask_hash, c) = read_array HASH_SIZE data c;
                 (extra_nonce, c) = read_array NONCE_SIZE data c;
                 (reserved_root, c) = read_array HASH_SIZE data c;
                 (witness_root, c) = read_array HASH_SIZE data c;
                 (merkle_root, c) = read_array HASH_SIZE data c;
                 (version, c) = read_u32 data c;
                 (bits, c) = read_u32 data c
             in Inr \<lparr>mh_nonce = nonce, mh_time = time, mh_prev_block = prev_block,
                  mh_tree_root = tree_root, mh_mask_hash = mask_hash,
                  mh_extra_nonce = extra_nonce, mh_reserved_root = reserved_root,
                  mh_witness_root = witness_root, mh_merkle_root = merkle_root,
                  mh_version = version, mh_bits = bits\<rparr>)"

definition MinerHeader_to_bytes :: "MinerHeader \<Rightarrow> bytes" where
  "MinerHeader_to_bytes m =
     fst (write_u32 (mh_bits m) (write_u32 (mh_version m) (write_bytes (mh_merkle_root m)
       (write_bytes (mh_witness_root m) (write_bytes (mh_reserved_root m)
       (write_bytes (mh_extra_nonce m) (write_bytes (mh_mask_hash m)
       (write_bytes (mh_tree_root m) (write_bytes (mh_prev_block m)
       (write_bytes (deterministic_padding (mh_prev_block m) (mh_tree_root m) 20)
       (write_u64 (mh_time m) (write_u32 (mh_nonce m)
         (replicate MINER_HEADER_SIZE 0, 0)))))))))))))"

definition HnsHeader_to_miner :: "Hashes \<Rightarrow> HnsHeader \<Rightarrow> bytes" where
  "HnsHeader_to_miner hs h = MinerHeader_to_bytes (MinerHeader_from hs h)"

definition MinerHeader_subheader :: "MinerHeader \<Rightarrow> bytes" where
  "MinerHeader_subheader m = subheader (mh_extra_nonce m) (mh_reserved_root m)
     (mh_witness_root m) (mh_merkle_root m) (mh_version m) (mh_bits m)"

definition MinerHeader_sub_hash :: "Hashes \<Rightarrow> MinerHeader \<Rightarrow> hash256" where
  "MinerHeader_sub_hash hs m = h_blake2b_256 hs [MinerHeader_subheader m]"

definition MinerHeader_commit_hash :: "Hashes \<Rightarrow> MinerHeader \<Rightarrow> hash256" where
  "MinerHeader_commit_hash hs m = h_blake2b_256 hs [MinerHeader_sub_hash hs m, mh_mask_hash m]"

definition MinerHeader_preheader :: "Hashes \<Rightarrow> MinerHeader \<Rightarrow> bytes" where
  "MinerHeader_preheader hs m = preheader (mh_nonce m) (mh_time m) (mh_prev_block m)
     (mh_tree_root m) (MinerHeader_commit_hash hs m)"

definition MinerHeader_share_hash :: "Hashes \<Rightarrow> MinerHeader \<Rightarrow> hash256" where
  "MinerHeader_share_hash hs m =
     share_hash_from_preheader hs (MinerHeader_preheader hs m) (mh_prev_block m) (mh_tree_root m)"

section \<open>The prepared hasher\<close>

definition PreparedMinerHasher_new :: "Hashes \<Rightarrow> MinerHeader \<Rightarrow> PreparedMinerHasher" where
  "PreparedMinerHasher_new hs m =
     \<lparr>pmh_preheader = MinerHeader_preheader hs m,
      pmh_padding8 = deterministic_padding (mh_prev_block m) (mh_tree_root m) 8,
      pmh_padding32 = deterministic_padding (mh_prev_block m) (mh_tree_root m) 32\<rparr>"

definition PreparedMinerHasher_share_hash :: "Hashes \<Rightarrow> PreparedMinerHasher \<Rightarrow> u32 \<Rightarrow> hash256" where
  "PreparedMinerHasher_share_hash hs p nonce =
     (let pre = to_le 4 nonce @ drop 4 (pmh_preheader p);
          left = blake2b_512 hs [pre];
          right = hash_sha3_256 hs (pre @ pmh_padding8 p)
      in h_blake2b_256 hs [left, pmh_padding32 p, right])"

section \<open>Layouts\<close>

text \<open>Rust's array types fix the lengths; a header of the model is well formed if it has them.\<close>

definition valid_HnsHeader :: "HnsHeader \<Rightarrow> bool" where
  "valid_HnsHeader h \<longleftrightarrow>
     length (hh_prev_block h) = 32 \<and> length (hh_tree_root h) = 32 \<and>
     length (hh_extra_nonce h) = 24 \<and> length (hh_reserved_root h) = 32 \<and>
     length (hh_witness_root h) = 32 \<and> length (hh_merkle_root h) = 32 \<and>
     length (hh_mask h) = 32"

definition valid_MinerHeader :: "MinerHeader \<Rightarrow> bool" where
  "valid_MinerHeader m \<longleftrightarrow>
     length (mh_prev_block m) = 32 \<and> length (mh_tree_root m) = 32 \<and>
     length (mh_mask_hash m) = 32 \<and>
     length (mh_extra_nonce m) = 24 \<and> length (mh_reserved_root m) = 32 \<and>
     length (mh_witness_root m) = 32 \<and> length (mh_merkle_root m) = 32"

lemmas header_sizes = HASH_SIZE_def NONCE_SIZE_def HEADER_SIZE_def MINER_HEADER_SIZE_def
lemmas header_io = read_array_def read_u32_def read_u64_def write_u32_def write_u64_def

lemma length_deterministic_padding [simp]: "length (deterministic_padding a b n) = n"
  by (simp add: deterministic_padding_def)

text \<open>Cutting a byte string into consecutive slices and putting them together again.\<close>

fun slices :: "nat list \<Rightarrow> bytes \<Rightarrow> bytes list" where
  "slices [] bs = []"
| "slices (n # ns) bs = take n bs # slices ns (drop n bs)"

lemma concat_slices: "concat (slices ns bs) = take (sum_list ns) bs"
  by (induction ns arbitrary: bs) (simp_all add: take_add)

lemma slices_concat: "map length ds = ns \<Longrightarrow> slices ns (concat ds @ rest) = ds"
  by (induction ds arbitrary: ns) auto

lemma HnsHeader_to_bytes_concat:
  assumes "valid_HnsHeader h"
  shows "HnsHeader_to_bytes h = concat [to_le 4 (hh_nonce h), to_le 8 (hh_time h),
    hh_prev_block h, hh_tree_root h, hh_extra_nonce h, hh_reserved_root h, hh_witness_root h,
    hh_merkle_root h, to_le 4 (hh_version h), to_le 4 (hh_bits h), hh_mask h]"
proof -
  have "HnsHeader_to_bytes h = fst (fold write_bytes [to_le 4 (hh_nonce h), to_le 8 (hh_time h),
    hh_prev_block h, hh_tree_root h, hh_extra_nonce h, hh_reserved_root h, hh_witness_root h,
    hh_merkle_root h, to_le 4 (hh_version h), to_le 4 (hh_bits h), hh_mask h]
    (replicate HEADER_SIZE 0, 0))"
    by (simp add: HnsHeader_to_bytes_def write_u32_def write_u64_def)
  then show ?thesis using assms
    by (simp only: fold_write_fill) (subst fold_write_fill, simp_all add: valid_HnsHeader_def header_sizes)
qed

lemma MinerHeader_to_bytes_concat:
  assumes "valid_MinerHeader m"
  shows "MinerHeader_to_bytes m = concat [to_le 4 (mh_nonce m), to_le 8 (mh_time m),
    deterministic_padding (mh_prev_block m) (mh_tree_root m) 20,
    mh_prev_block m, mh_tree_root m, mh_mask_hash m, mh_extra_nonce m, mh_reserved_root m,
    mh_witness_root m, mh_merkle_root m, to_le 4 (mh_version m), to_le 4 (mh_bits m)]"
proof -
  have "MinerHeader_to_bytes m = fst (fold write_bytes [to_le 4 (mh_nonce m), to_le 8 (mh_time m),
    deterministic_padding (mh_prev_block m) (mh_tree_root m) 20,
    mh_prev_block m, mh_tree_root m, mh_mask_hash m, mh_extra_nonce m, mh_reserved_root m,
    mh_witness_root m, mh_merkle_root m, to_le 4 (mh_version m), to_le 4 (mh_bits m)]
    (replicate MINER_HEADER_SIZE 0, 0))"
    by (simp add: MinerHeader_to_bytes_def write_u32_def write_u64_def)
  then show ?thesis using assms
    by (simp only: fold_write_fill) (subst fold_write_fill, simp_all add: valid_MinerHeader_def header_sizes)
qed

lemma preheader_concat:
  assumes "length prev_block = 32" "length tree_root = 32" "length commit_hash = 32"
  shows "preheader nonce time prev_block tree_root commit_hash =
    concat [to_le 4 nonce, to_le 8 time, deterministic_padding prev_block tree_root 20,
      prev_block, tree_root, commit_hash]"
proof -
  have "preheader nonce time prev_block tree_root commit_hash =
    fst (fold write_bytes [to_le 4 nonce, to_le 8 time, deterministic_padding prev_block tree_root 20,
      prev_block, tree_root, commit_hash] (replicate 128 0, 0))"
    by (simp add: preheader_def write_u32_def write_u64_def)
  then show ?thesis using assms by (subst (asm) fold_write_fill) simp_all
qed

section \<open>Parsing is the inverse of printing\<close>

lemma to_le_from_le_u32: "length bs = 4 \<Longrightarrow> to_le 4 (from_le bs :: u32) = bs"
  using to_le_from_le [where ?'a = 32, of bs] by simp

lemma to_le_from_le_u64: "length bs = 8 \<Longrightarrow> to_le 8 (from_le bs :: u64) = bs"
  using to_le_from_le [where ?'a = 64, of bs] by simp

lemma from_le_to_le_u32: "from_le (to_le 4 v) = (v :: u32)"
  by (rule from_le_to_le_self) simp

lemma from_le_to_le_u64: "from_le (to_le 8 v) = (v :: u64)"
  by (rule from_le_to_le_self) simp

lemmas le_words = to_le_from_le_u32 to_le_from_le_u64 from_le_to_le_u32 from_le_to_le_u64

definition hns_layout :: "nat list" where
  "hns_layout = [4, 8, 32, 32, 24, 32, 32, 32, 4, 4, 32]"

definition miner_layout :: "nat list" where
  "miner_layout = [4, 8, 20, 32, 32, 32, 24, 32, 32, 32, 4, 4]"

lemma HnsHeader_from_bytes_slices:
  assumes "length data = 236" "slices hns_layout data = [a, b, c, d, e, f, g, h, i, j, k]"
  shows "HnsHeader_from_bytes data = Inr \<lparr>hh_nonce = from_le a, hh_time = from_le b,
    hh_prev_block = c, hh_tree_root = d, hh_extra_nonce = e, hh_reserved_root = f,
    hh_witness_root = g, hh_merkle_root = h, hh_version = from_le i, hh_bits = from_le j,
    hh_mask = k\<rparr>"
  using assms by (auto simp: HnsHeader_from_bytes_def header_io header_sizes hns_layout_def)

lemma MinerHeader_from_bytes_slices:
  assumes "length data = 256" "slices miner_layout data = [a, b, p, c, d, e, f, g, h, i, j, k]"
  shows "MinerHeader_from_bytes data =
    (if p \<noteq> deterministic_padding c d 20 then Inl InvalidPadding
     else Inr \<lparr>mh_nonce = from_le a, mh_time = from_le b, mh_prev_block = c, mh_tree_root = d,
       mh_mask_hash = e, mh_extra_nonce = f, mh_reserved_root = g, mh_witness_root = h,
       mh_merkle_root = i, mh_version = from_le j, mh_bits = from_le k\<rparr>)"
  using assms by (auto simp: MinerHeader_from_bytes_def header_io header_sizes miner_layout_def)

lemma map_length_slices:
  "sum_list ns \<le> length bs \<Longrightarrow> map length (slices ns bs) = ns"
  by (induction ns arbitrary: bs) auto

lemma hns_slices:
  assumes "length data = 236"
  obtains a b c d e f g h i j k where "slices hns_layout data = [a, b, c, d, e, f, g, h, i, j, k]"
    "data = concat [a, b, c, d, e, f, g, h, i, j, k]"
    "map length [a, b, c, d, e, f, g, h, i, j, k] = hns_layout"
proof -
  have "map length (slices hns_layout data) = hns_layout"
    by (rule map_length_slices) (simp add: hns_layout_def assms)
  moreover have "concat (slices hns_layout data) = data"
    by (subst concat_slices) (simp add: hns_layout_def assms)
  moreover obtain a b c d e f g h i j k
    where "slices hns_layout data = [a, b, c, d, e, f, g, h, i, j, k]"
    by (simp add: hns_layout_def)
  ultimately show ?thesis using that by metis
qed

lemma miner_slices:
  assumes "length data = 256"
  obtains a b p c d e f g h i j k
    where "slices miner_layout data = [a, b, p, c, d, e, f, g, h, i, j, k]"
    "data = concat [a, b, p, c, d, e, f, g, h, i, j, k]"
    "map length [a, b, p, c, d, e, f, g, h, i, j, k] = miner_layout"
proof -
  have "map length (slices miner_layout data) = miner_layout"
    by (rule map_length_slices) (simp add: miner_layout_def assms)
  moreover have "concat (slices miner_layout data) = data"
    by (subst concat_slices) (simp add: miner_layout_def assms)
  moreover obtain a b p c d e f g h i j k
    where "slices miner_layout data = [a, b, p, c, d, e, f, g, h, i, j, k]"
    by (simp add: miner_layout_def)
  ultimately show ?thesis using that by metis
qed

lemma HnsHeader_from_to:
  assumes "valid_HnsHeader h"
  shows "length (HnsHeader_to_bytes h) = 236" "HnsHeader_from_bytes (HnsHeader_to_bytes h) = Inr h"
proof -
  note cat = HnsHeader_to_bytes_concat [OF assms]
  show l: "length (HnsHeader_to_bytes h) = 236"
    using assms unfolding cat by (simp add: valid_HnsHeader_def)
  have "slices hns_layout (HnsHeader_to_bytes h) = [to_le 4 (hh_nonce h), to_le 8 (hh_time h),
    hh_prev_block h, hh_tree_root h, hh_extra_nonce h, hh_reserved_root h, hh_witness_root h,
    hh_merkle_root h, to_le 4 (hh_version h), to_le 4 (hh_bits h), hh_mask h]"
    using assms slices_concat [where rest = "[]"] unfolding cat
    by (simp only: append_Nil2) (simp add: valid_HnsHeader_def hns_layout_def)
  from HnsHeader_from_bytes_slices [OF l this]
  show "HnsHeader_from_bytes (HnsHeader_to_bytes h) = Inr h" by (simp add: le_words)
qed

lemma HnsHeader_to_from:
  assumes "HnsHeader_from_bytes bs = Inr h"
  shows "valid_HnsHeader h \<and> bs = HnsHeader_to_bytes h"
proof -
  have l: "length bs = 236"
    using assms by (auto simp: HnsHeader_from_bytes_def header_sizes split: if_splits)
  obtain a b c d e f g i j k m where
    sl: "slices hns_layout bs = [a, b, c, d, e, f, g, i, j, k, m]"
    and cat: "bs = concat [a, b, c, d, e, f, g, i, j, k, m]"
    and len: "map length [a, b, c, d, e, f, g, i, j, k, m] = hns_layout"
    using hns_slices [OF l] by metis
  have h: "h = \<lparr>hh_nonce = from_le a, hh_time = from_le b,
    hh_prev_block = c, hh_tree_root = d, hh_extra_nonce = e, hh_reserved_root = f,
    hh_witness_root = g, hh_merkle_root = i, hh_version = from_le j, hh_bits = from_le k,
    hh_mask = m\<rparr>" using HnsHeader_from_bytes_slices [OF l sl] assms by simp
  have "valid_HnsHeader h" using len by (simp add: h valid_HnsHeader_def hns_layout_def)
  moreover have "bs = HnsHeader_to_bytes h"
    unfolding HnsHeader_to_bytes_concat [OF \<open>valid_HnsHeader h\<close>]
    using cat len by (simp add: h hns_layout_def le_words)
  ultimately show ?thesis by simp
qed

lemma MinerHeader_from_to:
  assumes "valid_MinerHeader m"
  shows "length (MinerHeader_to_bytes m) = 256"
    "MinerHeader_from_bytes (MinerHeader_to_bytes m) = Inr m"
proof -
  note cat = MinerHeader_to_bytes_concat [OF assms]
  show l: "length (MinerHeader_to_bytes m) = 256"
    using assms unfolding cat by (simp add: valid_MinerHeader_def)
  have "slices miner_layout (MinerHeader_to_bytes m) = [to_le 4 (mh_nonce m), to_le 8 (mh_time m),
    deterministic_padding (mh_prev_block m) (mh_tree_root m) 20,
    mh_prev_block m, mh_tree_root m, mh_mask_hash m, mh_extra_nonce m, mh_reserved_root m,
    mh_witness_root m, mh_merkle_root m, to_le 4 (mh_version m), to_le 4 (mh_bits m)]"
    using assms slices_concat [where rest = "[]"] unfolding cat
    by (simp only: append_Nil2) (simp add: valid_MinerHeader_def miner_layout_def)
  from MinerHeader_from_bytes_slices [OF l this]
  show "MinerHeader_from_bytes (MinerHeader_to_bytes m) = Inr m" by (simp add: le_words)
qed

lemma MinerHeader_to_from:
  assumes "MinerHeader_from_bytes bs = Inr m"
  shows "valid_MinerHeader m \<and> bs = MinerHeader_to_bytes m"
proof -
  have l: "length bs = 256"
    using assms by (auto simp: MinerHeader_from_bytes_def header_sizes split: if_splits)
  obtain a b p c d e f g h i j k where
    sl: "slices miner_layout bs = [a, b, p, c, d, e, f, g, h, i, j, k]"
    and cat: "bs = concat [a, b, p, c, d, e, f, g, h, i, j, k]"
    and len: "map length [a, b, p, c, d, e, f, g, h, i, j, k] = miner_layout"
    using miner_slices [OF l] by metis
  have p: "p = deterministic_padding c d 20" and m: "m = \<lparr>mh_nonce = from_le a,
    mh_time = from_le b, mh_prev_block = c, mh_tree_root = d,
    mh_mask_hash = e, mh_extra_nonce = f, mh_reserved_root = g, mh_witness_root = h,
    mh_merkle_root = i, mh_version = from_le j, mh_bits = from_le k\<rparr>"
    using MinerHeader_from_bytes_slices [OF l sl] assms by (auto split: if_splits)
  have "valid_MinerHeader m" using len by (simp add: m valid_MinerHeader_def miner_layout_def)
  moreover have "bs = MinerHeader_to_bytes m"
    unfolding MinerHeader_to_bytes_concat [OF \<open>valid_MinerHeader m\<close>]
    using cat len by (simp add: m p miner_layout_def le_words)
  ultimately show ?thesis by simp
qed

section \<open>The two ways of hashing agree\<close>

lemma share_hash_from_miner:
  "MinerHeader_share_hash hs (MinerHeader_from hs h) = HnsHeader_share_hash hs h"
  by (simp add: MinerHeader_share_hash_def HnsHeader_share_hash_def MinerHeader_preheader_def
    HnsHeader_preheader_def MinerHeader_commit_hash_def HnsHeader_commit_hash_def
    MinerHeader_sub_hash_def HnsHeader_sub_hash_def MinerHeader_subheader_def
    HnsHeader_subheader_def MinerHeader_from_def)

lemma preheader_set_nonce:
  assumes "length prev_block = 32" "length tree_root = 32" "length commit_hash = 32"
  shows "to_le 4 nonce' @ drop 4 (preheader nonce time prev_block tree_root commit_hash) =
    preheader nonce' time prev_block tree_root commit_hash"
  by (simp add: preheader_concat [OF assms])

text \<open>XOR of byte strings is XOR of the numbers they stand for.\<close>

lemma xor_shift_nat:
  fixes a b u v :: nat
  assumes "u < 2 ^ k" "v < 2 ^ k"
  shows "(a * 2 ^ k + u) XOR (b * 2 ^ k + v) = (a XOR b) * 2 ^ k + (u XOR v)"
proof -
  have sum: "x * 2 ^ k + y = push_bit k x XOR y" if "y < 2 ^ k" for x y :: nat
  proof -
    have "push_bit k x AND take_bit k y = 0" by (rule bit_eqI) (auto simp: bit_simps)
    moreover have "take_bit k y = y" using that by (simp add: take_bit_nat_eq_self_iff)
    ultimately have "push_bit k x AND y = 0" by simp
    then have "push_bit k x + y = push_bit k x XOR y" by (rule disjunctive_add_eq_xor)
    then show ?thesis by (simp only: push_bit_eq_mult)
  qed
  have uv: "u XOR v < 2 ^ k"
    using assms by (metis take_bit_nat_eq_self_iff take_bit_xor)
  show ?thesis
    unfolding sum [OF assms(1)] sum [OF assms(2)] sum [OF uv] push_bit_xor
    by (simp only: ac_simps)
qed

lemma from_be_map2_xor:
  "length xs = length ys \<Longrightarrow> from_be (map2 (XOR) xs ys) = from_be xs XOR from_be ys"
proof (induction xs ys rule: rev_induct2)
  case (4 x xs y ys)
  have "unat x < 2 ^ 8" "unat y < 2 ^ 8" using unat_u8_less by simp_all
  from xor_shift_nat [OF this, of "from_be xs" "from_be ys"] 4 show ?case
    by (simp add: unsigned_xor_eq)
qed simp_all

lemma xor_hashes_map2:
  assumes "length a = 32" "length b = 32"
  shows "xor_hashes a b = map2 (XOR) a b"
  using assms by (intro nth_equalityI) (simp_all add: xor_hashes_def HASH_SIZE_def)

lemma from_be_xor_hashes:
  assumes "length a = 32" "length b = 32"
  shows "from_be (xor_hashes a b) = from_be a XOR from_be b"
  using assms by (simp add: xor_hashes_map2 from_be_map2_xor)

lemma xor_nat_less: "a < 2 ^ k \<Longrightarrow> b < 2 ^ k \<Longrightarrow> a XOR b < (2 ^ k :: nat)"
  by (metis take_bit_nat_eq_self_iff take_bit_xor)

section \<open>Properties of headers\<close>

text \<open>
  C14: headers on the wire. A byte string parses as a consensus header exactly if it is the
  printed form of that header, and as a miner header exactly if it is the printed form of that
  miner header: parsing accepts precisely 236 (256) bytes and, for miner headers, rejects every
  padding other than the one derived from the previous block and the tree root.
\<close>

theorem header_bytes_round_trip:
  "(HnsHeader_from_bytes bs = Inr h \<longleftrightarrow> valid_HnsHeader h \<and> bs = HnsHeader_to_bytes h) \<and>
   (MinerHeader_from_bytes bs = Inr m \<longleftrightarrow> valid_MinerHeader m \<and> bs = MinerHeader_to_bytes m)"
  using HnsHeader_from_to(2) HnsHeader_to_from MinerHeader_from_to(2) MinerHeader_to_from by blast

text \<open>
  C13: what a miner computes. For a well-formed header and hash functions whose BLAKE2b-256 output
  has 32 bytes, the bytes handed to the miner parse to the miner header; hashing with it, and
  hashing any nonce with the prepared hasher built from it, gives the share hash of the full header
  with that nonce; and XOR with the mask turns this share hash into the proof-of-work hash.
\<close>

theorem miner_hashing_agrees:
  assumes "valid_HnsHeader h" "\<And>x. length (hash_blake2b_256 hs x) = 32"
  shows "\<exists>m. MinerHeader_from_bytes (HnsHeader_to_miner hs h) = Inr m \<and>
    MinerHeader_share_hash hs m = HnsHeader_share_hash hs h \<and>
    PreparedMinerHasher_share_hash hs (PreparedMinerHasher_new hs m) nonce =
      HnsHeader_share_hash hs (h\<lparr>hh_nonce := nonce\<rparr>) \<and>
    HnsHeader_pow_hash hs h = xor_hashes (MinerHeader_share_hash hs m) (hh_mask h)"
proof -
  let ?m = "MinerHeader_from hs h"
  have len: "length (h_blake2b_256 hs xs) = 32" for xs by (simp add: blake2b_256_def assms(2))
  have v: "valid_MinerHeader ?m" using assms(1)
    by (simp add: valid_MinerHeader_def valid_HnsHeader_def MinerHeader_from_def
      HnsHeader_mask_hash_def len)
  have "PreparedMinerHasher_share_hash hs (PreparedMinerHasher_new hs ?m) nonce =
      MinerHeader_share_hash hs (?m\<lparr>mh_nonce := nonce\<rparr>)"
  proof -
    have "to_le 4 nonce @ drop 4 (MinerHeader_preheader hs ?m) =
        MinerHeader_preheader hs (?m\<lparr>mh_nonce := nonce\<rparr>)"
      unfolding MinerHeader_preheader_def
      using v by (subst preheader_set_nonce) (simp_all add: valid_MinerHeader_def len
        MinerHeader_commit_hash_def MinerHeader_sub_hash_def MinerHeader_subheader_def)
    then show ?thesis
      by (simp add: PreparedMinerHasher_share_hash_def PreparedMinerHasher_new_def
        MinerHeader_share_hash_def share_hash_from_preheader_def Let_def)
  qed
  also have "?m\<lparr>mh_nonce := nonce\<rparr> = MinerHeader_from hs (h\<lparr>hh_nonce := nonce\<rparr>)"
    by (simp add: MinerHeader_from_def HnsHeader_mask_hash_def)
  finally show ?thesis
    using MinerHeader_from_to(2) [OF v]
    by (intro exI [of _ ?m]) (simp add: share_hash_from_miner HnsHeader_to_miner_def HnsHeader_pow_hash_def)
qed

definition example_hashes :: Hashes where
  "example_hashes = \<lparr>hash_blake2b_256 = (\<lambda>x. take 32 (x @ replicate 32 0)),
     hash_blake2b_512 = (\<lambda>x. take 64 (x @ replicate 64 0)),
     hash_sha3_256 = (\<lambda>x. take 32 (x @ replicate 32 1))\<rparr>"

lemma example_hashes_length: "length (hash_blake2b_256 example_hashes x) = 32"
  by (simp add: example_hashes_def)

lemma valid_HnsHeader_default: "valid_HnsHeader HnsHeader_default"
  by (simp add: valid_HnsHeader_def HnsHeader_default_def header_sizes)

theorem miner_hashing_agrees_witness:
  "\<exists>m. MinerHeader_from_bytes (HnsHeader_to_miner example_hashes HnsHeader_default) = Inr m \<and>
    PreparedMinerHasher_share_hash example_hashes (PreparedMinerHasher_new example_hashes m) 7 =
      HnsHeader_share_hash example_hashes (HnsHeader_default\<lparr>hh_nonce := 7\<rparr>)"
  using miner_hashing_agrees [OF valid_HnsHeader_default example_hashes_length, of 7] by blast

text \<open>
  C2: no winning share is missed. Let capture parameters be derived for the header's compact target, and let
  the unmasked proof-of-work hash solve the block. Then the masked share hash the miner sees is under the
  public capture target exactly if the mask is, that is if the mask is zero in the first \<^verbatim>\<open>q\<close> bits. So
  under a mask that respects the prefix every winner is a capture share, and under any other none is.
\<close>

theorem winner_is_capture_share:
  assumes "valid_HnsHeader h" "\<And>x. length (hash_blake2b_256 hs x) = 32"
    and "derive_capture_parameters (hh_bits h) d = Inr cp"
    and "verify_pow (HnsHeader_pow_hash hs h) (hh_bits h)"
  shows "from_be (HnsHeader_share_hash hs h) \<le> from_be (capture_target cp) \<longleftrightarrow>
    from_be (hh_mask h) \<le> from_be (capture_target cp)"
proof -
  let ?share = "from_be (HnsHeader_share_hash hs h)" and ?pow = "from_be (HnsHeader_pow_hash hs h)"
    and ?mask = "from_be (hh_mask h)"
  have len: "length (HnsHeader_share_hash hs h) = 32" "length (hh_mask h) = 32"
    using assms(1) by (simp_all add: HnsHeader_share_hash_def share_hash_from_preheader_def Let_def
      blake2b_256_def assms(2) valid_HnsHeader_def)
  have pow: "?pow = ?share XOR ?mask"
    unfolding HnsHeader_pow_hash_def by (rule from_be_xor_hashes [OF len])
  then have share: "?share = ?pow XOR ?mask" by (simp add: xor.assoc)
  from pow have mask: "?mask = ?pow XOR ?share" by (simp add: xor.commute xor.left_commute)
  note pow_small = solution_below_capture [OF assms(3,4)]
  show ?thesis
    unfolding below_capture_iff [OF assms(3)] using xor_nat_less [OF pow_small] share mask by metis
qed

text \<open>A masked header: its share hash and its proof-of-work hash differ, and the hash depends on the input.\<close>

definition example_masked :: HnsHeader where
  "example_masked = HnsHeader_default\<lparr>hh_bits := 0x1925ae67, hh_prev_block := replicate 19 0 @ [3] @ replicate 12 0,
     hh_mask := replicate 31 0 @ [5]\<rparr>"

lemma example_masked_hashes:
  "HnsHeader_share_hash example_hashes example_masked = replicate 31 0 @ [3]"
  "HnsHeader_pow_hash example_hashes example_masked = replicate 31 0 @ [6]"
  "HnsHeader_share_hash example_hashes (example_masked\<lparr>hh_nonce := 1\<rparr>) \<noteq> replicate 31 0 @ [3]"
  by code_simp+

theorem winner_is_capture_share_witness:
  "\<exists>cp. derive_capture_parameters (hh_bits example_masked) 12 = Inr cp \<and>
    verify_pow (HnsHeader_pow_hash example_hashes example_masked) (hh_bits example_masked) \<and>
    HnsHeader_pow_hash example_hashes example_masked \<noteq> HnsHeader_share_hash example_hashes example_masked \<and>
    from_be (HnsHeader_share_hash example_hashes example_masked) \<le> from_be (capture_target cp)"
proof -
  have bits: "hh_bits example_masked = 0x1925ae67" by (simp add: example_masked_def)
  obtain cp where cp: "derive_capture_parameters 0x1925ae67 12 = Inr cp"
    using derive_capture_parameters_example by blast
  have v: "valid_HnsHeader example_masked"
    using valid_HnsHeader_default by (simp add: valid_HnsHeader_def example_masked_def header_sizes)
  have small: "from_be (replicate 31 0 @ [6] :: bytes) = 6" "from_be (replicate 31 0 @ [5] :: bytes) = 5"
    by code_simp+
  have won: "verify_pow (HnsHeader_pow_hash example_hashes example_masked) (hh_bits example_masked)"
    by (simp add: example_masked_hashes bits small verify_pow_iff compact_to_target_def)
  have "verify_pow (replicate 31 0 @ [5]) 0x1925ae67"
    by (simp add: small verify_pow_iff compact_to_target_def)
  from solution_below_capture [OF cp this] have "from_be (hh_mask example_masked) \<le> from_be (capture_target cp)"
    by (simp add: below_capture_iff [OF cp] example_masked_def)
  with cp won show ?thesis
    using winner_is_capture_share [OF v example_hashes_length _ won, of 12 cp]
    by (simp add: bits example_masked_hashes)
qed

end
