(* ===== verification/Hns_Merkle.thy ===== *)
theory Hns_Merkle
  imports Core_Common
begin

text \<open>
  The Handshake Merkle root over transaction hashes: \<^verbatim>\<open>crates/meshmine-hns/src/merkle.rs\<close>.
  Leaves, inner nodes and the sentinel for a missing sibling are hashed with different prefixes.
  The hash function is a parameter; the binding property needs it to be injective only on the
  inputs that are hashed for the two trees at hand.
\<close>

definition merkle_leaf :: "(bytes \<Rightarrow> hash256) \<Rightarrow> hash256 \<Rightarrow> hash256" where
  "merkle_leaf H leaf = blake2b_256 H [[0], leaf]"

definition merkle_node :: "(bytes \<Rightarrow> hash256) \<Rightarrow> hash256 \<Rightarrow> hash256 \<Rightarrow> hash256" where
  "merkle_node H left right = blake2b_256 H [[1], left, right]"

text \<open>One pass over \<^verbatim>\<open>level.chunks(2)\<close>.\<close>

fun merkle_next :: "(bytes \<Rightarrow> hash256) \<Rightarrow> hash256 \<Rightarrow> hash256 list \<Rightarrow> hash256 list" where
  "merkle_next H sentinel (left # right # rest) =
     merkle_node H left right # merkle_next H sentinel rest"
| "merkle_next H sentinel [left] = [merkle_node H left sentinel]"
| "merkle_next H sentinel [] = []"

lemma length_merkle_next: "length (merkle_next H s xs) = (length xs + 1) div 2"
  by (induction H s xs rule: merkle_next.induct) auto

text \<open>\<^verbatim>\<open>while level.len() > 1\<close>.\<close>

function merkle_reduce :: "(bytes \<Rightarrow> hash256) \<Rightarrow> hash256 \<Rightarrow> hash256 list \<Rightarrow> hash256" where
  "merkle_reduce H sentinel level =
     (if length level > 1 then merkle_reduce H sentinel (merkle_next H sentinel level)
      else level ! 0)"
  by pat_completeness auto
termination
  by (relation "measure (\<lambda>(_, _, level). length level)") (auto simp: length_merkle_next)

declare merkle_reduce.simps [simp del]

definition merkle_root :: "(bytes \<Rightarrow> hash256) \<Rightarrow> hash256 list \<Rightarrow> hash256" where
  "merkle_root H leaves =
     (let sentinel = blake2b_256 H [[]]
      in if leaves = [] then sentinel
         else merkle_reduce H sentinel (map (merkle_leaf H) leaves))"

section \<open>Binding\<close>

text \<open>The levels the loop goes through, and the byte strings hashed on the way.\<close>

function merkle_levels :: "(bytes \<Rightarrow> hash256) \<Rightarrow> hash256 \<Rightarrow> hash256 list \<Rightarrow> hash256 list list" where
  "merkle_levels H s level =
     level # (if length level > 1 then merkle_levels H s (merkle_next H s level) else [])"
  by pat_completeness auto
termination
  by (relation "measure (\<lambda>(_, _, level). length level)") (auto simp: length_merkle_next)

declare merkle_levels.simps [simp del]

fun node_inputs :: "hash256 \<Rightarrow> hash256 list \<Rightarrow> bytes list" where
  "node_inputs s (left # right # rest) = (1 # left @ right) # node_inputs s rest"
| "node_inputs s [left] = [1 # left @ s]"
| "node_inputs s [] = []"

lemma merkle_next_inputs: "merkle_next H s xs = map H (node_inputs s xs)"
  by (induction H s xs rule: merkle_next.induct) (simp_all add: merkle_node_def blake2b_256_def)

definition merkle_inputs :: "(bytes \<Rightarrow> hash256) \<Rightarrow> hash256 list \<Rightarrow> bytes set" where
  "merkle_inputs H leaves =
     insert [] ((\<lambda>l. 0 # l) ` set leaves \<union>
       (\<Union>level \<in> set (merkle_levels H (H []) (map (merkle_leaf H) leaves)).
         if length level > 1 then set (node_inputs (H []) level) else {}))"

text \<open>A level is good if its entries are digests of non-empty inputs from the given set.\<close>

definition good_level :: "(bytes \<Rightarrow> hash256) \<Rightarrow> bytes set \<Rightarrow> hash256 list \<Rightarrow> bool" where
  "good_level H S xs \<longleftrightarrow> (\<forall>x \<in> set xs. length x = 32 \<and> (\<exists>i \<in> S. i \<noteq> [] \<and> x = H i))"

lemma good_not_sentinel:
  "good_level H S xs \<Longrightarrow> inj_on H S \<Longrightarrow> [] \<in> S \<Longrightarrow> x \<in> set xs \<Longrightarrow> x \<noteq> H []"
  by (auto simp: good_level_def dest: inj_onD)

lemma node_inputs_inject:
  assumes "node_inputs s xs = node_inputs s ys" "length s = 32"
    and "\<forall>x \<in> set xs. length x = 32 \<and> x \<noteq> s" "\<forall>y \<in> set ys. length y = 32 \<and> y \<noteq> s"
  shows "xs = ys"
  using assms
proof (induction s xs arbitrary: ys rule: node_inputs.induct)
  case (1 s l r xs)
  then show ?case by (cases "(s, ys)" rule: node_inputs.cases) auto
next
  case (2 s l)
  then show ?case by (cases "(s, ys)" rule: node_inputs.cases) auto
next
  case (3 s)
  then show ?case by (cases "(s, ys)" rule: node_inputs.cases) auto
qed

lemma merkle_next_inject:
  assumes "merkle_next H (H []) xs = merkle_next H (H []) ys" "inj_on H S" "[] \<in> S"
    and "good_level H S xs" "good_level H S ys" "length (H []) = 32"
    and "set (node_inputs (H []) xs) \<subseteq> S" "set (node_inputs (H []) ys) \<subseteq> S"
  shows "xs = ys"
proof -
  have "node_inputs (H []) xs = node_inputs (H []) ys"
    using assms(1,2,7,8) by (auto simp: merkle_next_inputs intro: map_inj_on inj_on_subset)
  then show ?thesis
    using node_inputs_inject assms good_not_sentinel by (auto simp: good_level_def)
qed

definition inputs_within :: "(bytes \<Rightarrow> hash256) \<Rightarrow> bytes set \<Rightarrow> hash256 list \<Rightarrow> bool" where
  "inputs_within H S xs \<longleftrightarrow>
     (\<forall>level \<in> set (merkle_levels H (H []) xs).
       length level > 1 \<longrightarrow> set (node_inputs (H []) level) \<subseteq> S)"

lemma inputs_within_step:
  "length xs > 1 \<Longrightarrow> inputs_within H S xs \<longleftrightarrow>
     set (node_inputs (H []) xs) \<subseteq> S \<and> inputs_within H S (merkle_next H (H []) xs)"
  unfolding inputs_within_def by (subst merkle_levels.simps) auto

lemma good_next:
  assumes "\<And>x. length (H x) = 32" "set (node_inputs (H []) xs) \<subseteq> S"
  shows "good_level H S (merkle_next H (H []) xs)"
proof -
  have "i \<noteq> []" if "i \<in> set (node_inputs s xs)" for i s
    using that by (induction s xs rule: node_inputs.induct) auto
  then show ?thesis using assms by (fastforce simp: good_level_def merkle_next_inputs)
qed

lemma levels_next:
  "length xs > 1 \<Longrightarrow> c \<in> set (merkle_levels H s (merkle_next H s xs)) \<Longrightarrow>
   \<exists>d \<in> set (merkle_levels H s xs). length d > 1 \<and> c = merkle_next H s d"
proof (induction H s xs rule: merkle_levels.induct)
  case (1 H s xs)
  let ?n = "merkle_next H s xs"
  have sub: "set (merkle_levels H s ?n) \<subseteq> set (merkle_levels H s xs)" "xs \<in> set (merkle_levels H s xs)"
    using 1(2) by (auto simp: merkle_levels.simps [of H s xs])
  show ?case
  proof (cases "c = ?n")
    case True
    then show ?thesis using 1(2) sub by auto
  next
    case False
    then have "length ?n > 1" "c \<in> set (merkle_levels H s (merkle_next H s ?n))"
      using 1(3) by (auto simp: merkle_levels.simps [of H s ?n] split: if_splits)
    then show ?thesis using 1(1,2) sub by auto
  qed
qed

lemma levels_good:
  assumes "\<And>x. length (H x) = 32"
  shows "good_level H S xs \<Longrightarrow> inputs_within H S xs \<Longrightarrow>
    c \<in> set (merkle_levels H (H []) xs) \<Longrightarrow> good_level H S c"
proof (induction "length xs" arbitrary: xs rule: less_induct)
  case less
  show ?case
  proof (cases "length xs > 1")
    case True
    then have "length (merkle_next H (H []) xs) < length xs" by (simp add: length_merkle_next)
    then have "good_level H S c" if "c \<in> set (merkle_levels H (H []) (merkle_next H (H []) xs))"
      using less.hyps [OF _ good_next [OF assms] _ that] less.prems(2) True
      by (simp add: inputs_within_step)
    with less.prems(1,3) True show ?thesis by (auto simp: merkle_levels.simps [of H "H []" xs])
  next
    case False
    with less show ?thesis by (simp add: merkle_levels.simps [of H "H []" xs])
  qed
qed

lemma levels_step_back:
  assumes H: "\<And>x. length (H x) = 32" and S: "inj_on H S" "[] \<in> S"
    and "merkle_next H (H []) xs \<in> set (merkle_levels H (H []) (merkle_next H (H []) ys))"
    and "length xs > 1" "length ys > 1"
    and "good_level H S xs" "good_level H S ys" "inputs_within H S xs" "inputs_within H S ys"
  shows "xs \<in> set (merkle_levels H (H []) ys)"
proof -
  obtain d where d: "d \<in> set (merkle_levels H (H []) ys)" "length d > 1"
    "merkle_next H (H []) xs = merkle_next H (H []) d"
    using levels_next [OF assms(6,4)] by blast
  have "good_level H S d" using levels_good [OF H assms(8,10) d(1)] .
  moreover have "set (node_inputs (H []) d) \<subseteq> S" using assms(10) d by (auto simp: inputs_within_def)
  moreover have "set (node_inputs (H []) xs) \<subseteq> S" using assms(5,9) by (simp add: inputs_within_step)
  ultimately have "xs = d" using merkle_next_inject [OF d(3) S assms(7)] H by blast
  then show ?thesis using d by simp
qed

text \<open>Equal roots: one of the two starting levels occurs among the levels of the other.\<close>

lemma merkle_reduce_inject:
  assumes "\<And>x. length (H x) = 32" "inj_on H S" "[] \<in> S"
  shows "xs \<noteq> [] \<Longrightarrow> ys \<noteq> [] \<Longrightarrow> good_level H S xs \<Longrightarrow> good_level H S ys \<Longrightarrow>
    inputs_within H S xs \<Longrightarrow> inputs_within H S ys \<Longrightarrow>
    merkle_reduce H (H []) xs = merkle_reduce H (H []) ys \<Longrightarrow>
    xs \<in> set (merkle_levels H (H []) ys) \<or> ys \<in> set (merkle_levels H (H []) xs)"
proof (induction "length xs + length ys" arbitrary: xs ys rule: less_induct)
  case less
  let ?nx = "merkle_next H (H []) xs" and ?ny = "merkle_next H (H []) ys"
  note lv = merkle_levels.simps [of H "H []"] and rd = merkle_reduce.simps [of H "H []"]
  have step: "good_level H S (merkle_next H (H []) zs) \<and> inputs_within H S (merkle_next H (H []) zs) \<and>
      length (merkle_next H (H []) zs) < length zs \<and> merkle_next H (H []) zs \<noteq> []"
    if "length zs > 1" "inputs_within H S zs" for zs
  proof -
    have sub: "set (node_inputs (H []) zs) \<subseteq> S"
      and "inputs_within H S (merkle_next H (H []) zs)"
      using inputs_within_step [OF that(1)] that(2) by blast+
    moreover have "good_level H S (merkle_next H (H []) zs)" 
      by (rule good_next) (simp_all add: assms(1) sub)
    moreover have "length (merkle_next H (H []) zs) < length zs \<and> 0 < length (merkle_next H (H []) zs)"
      using that(1) unfolding length_merkle_next by linarith
    ultimately show ?thesis by simp
  qed
  note gx = step [OF _ less.prems(5)] and gy = step [OF _ less.prems(6)]
  have rx: "merkle_reduce H (H []) xs = merkle_reduce H (H []) ?nx" if "length xs > 1"
    using that by (subst rd) simp
  have ry: "merkle_reduce H (H []) ys = merkle_reduce H (H []) ?ny" if "length ys > 1"
    using that by (subst rd) simp
  have lx: "set (merkle_levels H (H []) xs) = insert xs (set (merkle_levels H (H []) ?nx))"
    if "length xs > 1" using that by (subst lv) simp
  have ly: "set (merkle_levels H (H []) ys) = insert ys (set (merkle_levels H (H []) ?ny))"
    if "length ys > 1" using that by (subst lv) simp
  have self: "zs \<in> set (merkle_levels H (H []) zs)" for zs by (subst lv) simp
  have single: "set (merkle_levels H (H []) zs) = {zs}" if "\<not> length zs > 1" for zs
    using that by (subst lv) simp
  consider "length xs > 1" "length ys > 1" | "length xs > 1" "\<not> length ys > 1"
    | "\<not> length xs > 1" "length ys > 1" | "\<not> length xs > 1" "\<not> length ys > 1" by blast
  then show ?case
  proof cases
    case 1
    have "?nx \<in> set (merkle_levels H (H []) ?ny) \<or> ?ny \<in> set (merkle_levels H (H []) ?nx)"
      using less.hyps [of ?nx ?ny] gx [OF 1(1)] gy [OF 1(2)] less.prems(7) rx [OF 1(1)] ry [OF 1(2)]
      by simp
    then show ?thesis
      using levels_step_back [OF assms] 1 less.prems(3-6) by blast
  next
    case 2
    have "?nx \<in> set (merkle_levels H (H []) ys) \<or> ys \<in> set (merkle_levels H (H []) ?nx)"
      using less.hyps [of ?nx ys] gx [OF 2(1)] less.prems rx [OF 2(1)] by simp
    then show ?thesis unfolding single [OF 2(2)] lx [OF 2(1)] using self [of ?nx] by auto
  next
    case 3
    have "xs \<in> set (merkle_levels H (H []) ?ny) \<or> ?ny \<in> set (merkle_levels H (H []) xs)"
      using less.hyps [of xs ?ny] gy [OF 3(2)] less.prems ry [OF 3(2)] by simp
    then show ?thesis unfolding single [OF 3(1)] ly [OF 3(2)] using self [of ?ny] by auto
  next
    case 4
    then have "xs ! 0 = ys ! 0" using less.prems(7) by (simp add: rd [of xs] rd [of ys])
    then have "xs = ys" using 4 less.prems(1,2) by (cases xs; cases ys) auto
    then show ?thesis using self by simp
  qed
qed

lemma merkle_reduce_in_levels:
  "xs \<noteq> [] \<Longrightarrow> \<exists>c \<in> set (merkle_levels H s xs). c \<noteq> [] \<and> merkle_reduce H s xs = c ! 0"
proof (induction H s xs rule: merkle_reduce.induct)
  case (1 H s xs)
  have "merkle_next H s xs \<noteq> []" using 1(2) length_merkle_next [of H s xs] by (cases xs) auto
  with 1 show ?case
    by (cases "length xs > 1")
      (auto simp: merkle_reduce.simps [of H s xs] merkle_levels.simps [of H s xs])
qed

lemma merkle_reduce_not_sentinel:
  assumes "\<And>x. length (H x) = 32" "inj_on H S" "[] \<in> S" "xs \<noteq> []"
    and "good_level H S xs" "inputs_within H S xs"
  shows "merkle_reduce H (H []) xs \<noteq> H []"
proof -
  obtain c where c: "c \<in> set (merkle_levels H (H []) xs)" "c \<noteq> []"
    "merkle_reduce H (H []) xs = c ! 0" using merkle_reduce_in_levels [OF assms(4)] by blast
  have "good_level H S c" by (rule levels_good [where H = H, OF _ assms(5,6) c(1)]) (rule assms(1))
  then show ?thesis using good_not_sentinel [OF _ assms(2,3), of c "c ! 0"] c(2,3) by simp
qed

lemma merkle_leaves_inject:
  assumes H: "\<And>x. length (H x) = 32" and S: "inj_on H S" "[] \<in> S"
    and "xs \<noteq> []" "ys \<noteq> []" "(\<lambda>l. 0 # l) ` set xs \<subseteq> S" "(\<lambda>l. 0 # l) ` set ys \<subseteq> S"
    and "inputs_within H S (map (merkle_leaf H) ys)"
    and "map (merkle_leaf H) xs \<in> set (merkle_levels H (H []) (map (merkle_leaf H) ys))"
  shows "xs = ys"
proof (cases "map (merkle_leaf H) xs = map (merkle_leaf H) ys")
  case True
  have "inj_on (merkle_leaf H) (set xs \<union> set ys)"
  proof (rule inj_onI)
    fix a b
    assume ab: "a \<in> set xs \<union> set ys" "b \<in> set xs \<union> set ys" "merkle_leaf H a = merkle_leaf H b"
    then have "0 # a \<in> S" "0 # b \<in> S" using assms(6,7) by auto
    moreover have "H (0 # a) = H (0 # b)" using ab(3) by (simp add: merkle_leaf_def blake2b_256_def)
    ultimately have "0 # a = 0 # b" using inj_onD [OF S(1)] by blast
    then show "a = b" by simp
  qed
  with True show ?thesis by (simp add: inj_on_map_eq_map)
next
  case False
  let ?ys = "map (merkle_leaf H) ys"
  have "map (merkle_leaf H) xs \<in> set (?ys # (if length ?ys > 1
      then merkle_levels H (H []) (merkle_next H (H []) ?ys) else []))"
    using assms(9) unfolding merkle_levels.simps [of H "H []" ?ys] .
  then have "length ?ys > 1"
    "map (merkle_leaf H) xs \<in> set (merkle_levels H (H []) (merkle_next H (H []) ?ys))"
    using False by (cases "length ?ys > 1"; simp)+
  from levels_next [OF this] obtain d where d: "d \<in> set (merkle_levels H (H []) ?ys)" "length d > 1"
    "map (merkle_leaf H) xs = map H (node_inputs (H []) d)" unfolding merkle_next_inputs by blast
  have sub: "set (node_inputs (H []) d) \<subseteq> S" using assms(8) d by (auto simp: inputs_within_def)
  obtain x xs' where x: "xs = x # xs'" using assms(4) by (cases xs) auto
  obtain l r rest where lr: "d = l # r # rest" using d(2) by (cases d; cases "tl d") auto
  then have i: "1 # l @ r \<in> set (node_inputs (H []) d)" "merkle_leaf H x = H (1 # l @ r)"
    using d(3) x by simp_all
  have "H (0 # x) = H (1 # l @ r)" using i(2) by (simp add: merkle_leaf_def blake2b_256_def)
  moreover have "0 # x \<in> S" using assms(6) x by auto
  ultimately have "0 # x = 1 # l @ r" using inj_onD [OF S(1)] i(1) sub by blast
  then show ?thesis by simp
qed

section \<open>Properties of the Merkle root\<close>

text \<open>
  C12: the Merkle root binds the whole list of leaves. If two lists of 32-byte leaves have the same
  root, and the hash function (with 32-byte output) is injective on the byte strings hashed for
  the two trees, then the lists are equal: same leaves, same order, same number, an odd last leaf
  and an empty list included.
\<close>

theorem merkle_root_binding:
  assumes "\<And>x. length (H x) = 32"
    and "inj_on H (merkle_inputs H xs \<union> merkle_inputs H ys)"
    and "merkle_root H xs = merkle_root H ys"
  shows "xs = ys"
proof -
  define S where "S = merkle_inputs H xs \<union> merkle_inputs H ys"
  have S: "inj_on H S" "[] \<in> S" using assms(2) by (simp_all add: S_def merkle_inputs_def)
  have leaves: "(\<lambda>l. 0 # l) ` set zs \<subseteq> S" "inputs_within H S (map (merkle_leaf H) zs)"
    "good_level H S (map (merkle_leaf H) zs)" if "zs = xs \<or> zs = ys" for zs
  proof -
    have "merkle_inputs H zs \<subseteq> S" using that by (auto simp: S_def)
    then show "(\<lambda>l. 0 # l) ` set zs \<subseteq> S" "inputs_within H S (map (merkle_leaf H) zs)"
      by (auto simp: merkle_inputs_def inputs_within_def split: if_splits)
    then show "good_level H S (map (merkle_leaf H) zs)"
      using assms(1) by (auto simp: good_level_def merkle_leaf_def blake2b_256_def)
  qed
  have root: "merkle_root H zs = (if zs = [] then H []
      else merkle_reduce H (H []) (map (merkle_leaf H) zs))" for zs
    by (simp add: merkle_root_def blake2b_256_def)
  note ns = merkle_reduce_not_sentinel [where H = H and S = S, OF assms(1) S]
  show ?thesis
  proof (cases "xs = [] \<or> ys = []")
    case True
    then show ?thesis
      using assms(3) ns [of "map (merkle_leaf H) xs"] ns [of "map (merkle_leaf H) ys"]
        leaves(2,3) [of xs] leaves(2,3) [of ys]
      by (auto simp: root split: if_splits)
  next
    case False
    let ?xs = "map (merkle_leaf H) xs" and ?ys = "map (merkle_leaf H) ys"
    have "?xs \<in> set (merkle_levels H (H []) ?ys) \<or> ?ys \<in> set (merkle_levels H (H []) ?xs)"
      by (rule merkle_reduce_inject [where H = H and S = S, OF assms(1) S])
        (use False leaves [of xs] leaves [of ys] assms(3) in \<open>simp_all add: root\<close>)
    then show ?thesis
    proof
      assume "?xs \<in> set (merkle_levels H (H []) ?ys)"
      then show "xs = ys"
        by (intro merkle_leaves_inject [where H = H and S = S, OF assms(1) S])
          (use False leaves [of xs] leaves [of ys] in simp_all)
    next
      assume "?ys \<in> set (merkle_levels H (H []) ?xs)"
      then have "ys = xs"
        by (intro merkle_leaves_inject [where H = H and S = S, OF assms(1) S])
          (use False leaves [of xs] leaves [of ys] in simp_all)
      then show "xs = ys" by simp
    qed
  qed
qed

text \<open>A digest that tells apart the inputs of the example: their length and last byte.\<close>

definition example_digest :: "bytes \<Rightarrow> hash256" where
  "example_digest x = be_pad 32 (length x mod 256 * 256 + unat (last (0 # x)))"

lemma example_digest_inject:
  assumes "example_digest x = example_digest y"
  shows "length x mod 256 = length y mod 256 \<and> last (0 # x) = last (0 # y)"
proof -
  have small: "length z mod 256 * 256 + unat (last (0 # z)) < 256 ^ 32" for z :: bytes
  proof -
    have "length z mod 256 < 256" "unat (last (0 # z)) < 256" by (simp_all add: unat_u8_less)
    then have "length z mod 256 * 256 + unat (last (0 # z)) < 256 * 256" by linarith
    then show ?thesis by simp
  qed
  have "length x mod 256 * 256 + unat (last (0 # x)) = length y mod 256 * 256 + unat (last (0 # y))"
    using arg_cong [OF assms, of from_be] small [of x] small [of y]
    unfolding example_digest_def from_be_be_pad by (simp only: mod_less)
  moreover have "u = v \<and> a = b" if "a * 256 + u = b * 256 + v" "u < 256" "v < 256" for a b u v :: nat
    using arg_cong [OF that(1), of "\<lambda>n. n mod 256"] arg_cong [OF that(1), of "\<lambda>n. n div 256"] that(2,3)
    by simp
  ultimately have "unat (last (0 # x)) = unat (last (0 # y)) \<and> length x mod 256 = length y mod 256"
    using unat_u8_less by blast
  then show ?thesis by (simp only: word_unat_eq_iff)
qed

theorem merkle_root_binding_witness:
  "merkle_root example_digest [replicate 32 1] \<noteq>
   merkle_root example_digest [replicate 32 1, replicate 32 2]"
proof
  let ?H = example_digest
  assume eq: "merkle_root ?H [replicate 32 1] = merkle_root ?H [replicate 32 1, replicate 32 2]"
  have len: "length (?H x) = 32" for x by (simp add: example_digest_def)
  have "inj_on ?H {[], 0 # replicate 32 1, 0 # replicate 32 2,
      1 # ?H (0 # replicate 32 1) @ ?H (0 # replicate 32 2)}" (is "inj_on _ ?S")
  proof (rule inj_onI)
    fix x y assume "x \<in> ?S" "y \<in> ?S" "?H x = ?H y"
    with example_digest_inject [of x y] show "x = y" by (auto simp: len)
  qed
  moreover have "merkle_inputs ?H [replicate 32 1] \<union>
      merkle_inputs ?H [replicate 32 1, replicate 32 2] = ?S"
    by (auto simp: merkle_inputs_def merkle_levels.simps merkle_leaf_def blake2b_256_def)
  ultimately have "[replicate 32 1] = [replicate 32 1, replicate 32 (2 :: u8)]"
    by (intro merkle_root_binding [of ?H, OF len _ eq]) simp
  then show False by simp
qed

end
