(* ===== verification/Body_Package.thy ===== *)
theory Body_Package
  imports Object_Ids Hns_Header
begin

text \<open>
  Stable block bodies and the coinbase layout: \<^verbatim>\<open>crates/meshmine-body/src/lib.rs\<close>. The fixed-size
  coinbase commitment, the order of coinbase outputs and the space reserved for them, and the
  construction of body packages. Field prefixes are \<^verbatim>\<open>cc_\<close> (commitment), \<^verbatim>\<open>po_\<close> (payout output),
  \<^verbatim>\<open>sk_\<close> (output skeleton) and \<^verbatim>\<open>pw_\<close> (weight reservation).
\<close>

definition COINBASE_COMMITMENT_MAGIC :: bytes where
  "COINBASE_COMMITMENT_MAGIC = str_bytes ''HNSM''"

definition COINBASE_COMMITMENT_SIZE :: nat where
  "COINBASE_COMMITMENT_SIZE = 147"

definition VALIDATION_DOMAIN :: string where
  "VALIDATION_DOMAIN = ''meshmine/consensus-validation-result/v3''"

record CoinbaseCommitmentV2 =
  cc_protocol_version :: u16
  cc_network_id :: u8
  cc_template_core_id :: hash256
  cc_payout_snapshot_id :: hash256
  cc_payout_plan_id :: hash256
  cc_plan_sequence :: u64
  cc_operator_key_hash :: hash256
  cc_flags :: u32

record PayoutOutput =
  po_hns_address_version :: u8
  po_hns_address_hash :: bytes
  po_value :: u64

record CoinbaseOutputSkeleton =
  sk_first_work_or_fallback :: PayoutOutput
  sk_mandatory_claim_airdrop_outputs :: "PayoutOutput list"
  sk_remaining_work_outputs :: "PayoutOutput list"
  sk_service_outputs :: "PayoutOutput list"
  sk_operator_fee_output :: "PayoutOutput option"

record PayoutWeightReservation =
  pw_final_output_count :: nat
  pw_ordinary_payout_output_count :: nat
  pw_reserved_base_bytes :: nat
  pw_reserved_weight :: nat

datatype BodyError =
  InvalidCommitmentLength nat | InvalidCommitmentMagic | TemplateIdMismatch |
  TemplateContextMismatch | UnsortedOutputs | InvalidPayoutAddress | PayoutSizeOverflow

section \<open>The coinbase commitment\<close>

definition for_template :: "(bytes \<Rightarrow> hash256) \<Rightarrow> TemplateCoreV2 \<Rightarrow> u32 \<Rightarrow> CoinbaseCommitmentV2" where
  "for_template H template flags =
     \<lparr>cc_protocol_version = tc_protocol_version template,
      cc_network_id = tc_network_id template,
      cc_template_core_id = object_id_TemplateCoreV2 H template,
      cc_payout_snapshot_id = tc_payout_snapshot_id template,
      cc_payout_plan_id = tc_payout_plan_id template,
      cc_plan_sequence = tc_plan_sequence template,
      cc_operator_key_hash = blake2b_256 H [tc_operator_pubkey template],
      cc_flags = flags\<rparr>"

definition CoinbaseCommitmentV2_encode :: "CoinbaseCommitmentV2 \<Rightarrow> bytes" where
  "CoinbaseCommitmentV2_encode c =
     fst (write_bytes (to_le 4 (cc_flags c)) (write_bytes (cc_operator_key_hash c)
       (write_bytes (to_le 8 (cc_plan_sequence c)) (write_bytes (cc_payout_plan_id c)
       (write_bytes (cc_payout_snapshot_id c) (write_bytes (cc_template_core_id c)
       (write_bytes [cc_network_id c] (write_bytes (to_le 2 (cc_protocol_version c))
       (write_bytes COINBASE_COMMITMENT_MAGIC (replicate COINBASE_COMMITMENT_SIZE 0, 0))))))))))"

definition CoinbaseCommitmentV2_decode :: "bytes \<Rightarrow> BodyError + CoinbaseCommitmentV2" where
  "CoinbaseCommitmentV2_decode bs =
     (if length bs \<noteq> COINBASE_COMMITMENT_SIZE then Inl (InvalidCommitmentLength (length bs))
      else if take 4 bs \<noteq> COINBASE_COMMITMENT_MAGIC then Inl InvalidCommitmentMagic
      else
        let c = 4;
            (protocol_version, c) = read_array 2 bs c;
            (network_id, c) = read_array 1 bs c;
            (template_core_id, c) = read_array 32 bs c;
            (payout_snapshot_id, c) = read_array 32 bs c;
            (payout_plan_id, c) = read_array 32 bs c;
            (plan_sequence, c) = read_array 8 bs c;
            (operator_key_hash, c) = read_array 32 bs c;
            (flags, c) = read_array 4 bs c
        in Inr \<lparr>cc_protocol_version = from_le protocol_version, cc_network_id = network_id ! 0,
             cc_template_core_id = template_core_id, cc_payout_snapshot_id = payout_snapshot_id,
             cc_payout_plan_id = payout_plan_id, cc_plan_sequence = from_le plan_sequence,
             cc_operator_key_hash = operator_key_hash, cc_flags = from_le flags\<rparr>)"

section \<open>Coinbase outputs\<close>

definition destination_order :: "PayoutOutput \<Rightarrow> u8 \<times> bytes" where
  "destination_order out = (po_hns_address_version out, po_hns_address_hash out)"

definition destinations_sorted :: "PayoutOutput list \<Rightarrow> bool" where
  "destinations_sorted outputs \<longleftrightarrow>
     \<not> windows2_any (\<lambda>a b. \<not> destination_order a \<le> destination_order b) outputs"

definition validate_sorted :: "CoinbaseOutputSkeleton \<Rightarrow> BodyError + unit" where
  "validate_sorted s =
     (if \<not> destinations_sorted (sk_remaining_work_outputs s)
         \<or> \<not> destinations_sorted (sk_service_outputs s)
      then Inl UnsortedOutputs else Inr ())"

definition ordered_outputs :: "CoinbaseOutputSkeleton \<Rightarrow> BodyError + PayoutOutput list" where
  "ordered_outputs s =
     res_bind (validate_sorted s) (\<lambda>_.
       Inr ([sk_first_work_or_fallback s] @ sk_mandatory_claim_airdrop_outputs s @
         sk_remaining_work_outputs s @ sk_service_outputs s @
         (case sk_operator_fee_output s of None \<Rightarrow> [] | Some out \<Rightarrow> [out])))"

definition validate_hns_address :: "PayoutOutput \<Rightarrow> BodyError + unit" where
  "validate_hns_address out =
     (let len = length (po_hns_address_hash out) in
      if po_hns_address_version out > 31 \<or> \<not> (2 \<le> len \<and> len \<le> 40)
         \<or> (po_hns_address_version out = 0 \<and> len \<noteq> 20 \<and> len \<noteq> 32)
      then Inl InvalidPayoutAddress else Inr ())"

definition hns_varint_size :: "nat \<Rightarrow> nat" where
  "hns_varint_size v =
     (if v < 0xfd then 1 else if v \<le> 0xffff then 3 else if v \<le> 0xffffffff then 5 else 9)"

definition payout_weight_reservation ::
  "CoinbaseOutputSkeleton \<Rightarrow> BodyError + PayoutWeightReservation" where
  "payout_weight_reservation s =
     res_bind (validate_sorted s) (\<lambda>_.
     let ordinary = [sk_first_work_or_fallback s] @ sk_remaining_work_outputs s @
           sk_service_outputs s @
           (case sk_operator_fee_output s of None \<Rightarrow> [] | Some out \<Rightarrow> [out])
     in res_bind
       (res_foldM (\<lambda>(count, sz) out.
          res_bind (validate_hns_address out) (\<lambda>_.
          res_bind (ok_or PayoutSizeOverflow (usize_checked_add count 1)) (\<lambda>count.
          res_bind (ok_or PayoutSizeOverflow (Option.bind (usize_checked_add sz 12)
             (\<lambda>sz. usize_checked_add sz (length (po_hns_address_hash out)))))
            (\<lambda>sz. Inr (count, sz)))))
          (0, 0) ordinary)
       (\<lambda>(count, sz).
     res_bind (ok_or PayoutSizeOverflow
       (usize_checked_add (length (sk_mandatory_claim_airdrop_outputs s)) count)) (\<lambda>final_output_count.
     res_bind (ok_or PayoutSizeOverflow
       (usize_checked_add sz (hns_varint_size final_output_count))) (\<lambda>reserved_base_bytes.
     res_bind (ok_or PayoutSizeOverflow (usize_checked_mul reserved_base_bytes 4))
       (\<lambda>reserved_weight.
     Inr \<lparr>pw_final_output_count = final_output_count,
          pw_ordinary_payout_output_count = count,
          pw_reserved_base_bytes = reserved_base_bytes,
          pw_reserved_weight = reserved_weight\<rparr>)))))"

section \<open>Body packages\<close>

definition validation_result_hash ::
  "(bytes \<Rightarrow> hash256) \<Rightarrow> u8 \<Rightarrow> hash256 \<Rightarrow> bytes \<Rightarrow> bytes list \<Rightarrow> hash256" where
  "validation_result_hash H network_id template_core_id coinbase_raw transactions_raw =
     (let body = enc_u16 2 @ enc_u8 network_id @ enc_fixed template_core_id @
            enc_bytes coinbase_raw @ enc_varint (of_nat (length transactions_raw)) @
            concat (map enc_bytes transactions_raw);
          tagged = enc_bytes (str_bytes VALIDATION_DOMAIN) @ enc_fixed body
      in blake2b_256 H [tagged])"

definition validate_body_package ::
  "(bytes \<Rightarrow> hash256) \<Rightarrow> BlockBodyPackageV2 \<Rightarrow> BodyError + unit" where
  "validate_body_package H package =
     (if bp_protocol_version package \<noteq> tc_protocol_version (bp_template_core package)
         \<or> bp_network_id package \<noteq> tc_network_id (bp_template_core package)
      then Inl TemplateContextMismatch
      else if object_id_TemplateCoreV2 H (bp_template_core package) \<noteq> bp_template_core_id package
      then Inl TemplateIdMismatch
      else Inr ())"

definition build_body_package ::
  "(bytes \<Rightarrow> hash256) \<Rightarrow> TemplateCoreV2 \<Rightarrow> bytes \<Rightarrow> bytes list \<Rightarrow> hash256 \<Rightarrow> hash256 \<Rightarrow>
   hash256 \<Rightarrow> hash256 \<Rightarrow> u32 \<Rightarrow> u32 \<Rightarrow> u64 \<Rightarrow> u64 \<Rightarrow> u64 \<Rightarrow> u64 \<Rightarrow> u64 \<Rightarrow> u64 \<Rightarrow>
   SignatureBytes \<Rightarrow> BodyError + BlockBodyPackageV2" where
  "build_body_package H template_core coinbase_raw transactions_raw merkle_root witness_root
     tree_root reserved_root block_weight block_sigops miner_subsidy ordinary_transaction_fees
     claim_airdrop_principal claim_airdrop_fees operator_fee_value work_service_subsidy_value
     operator_signature =
     (let template_core_id = object_id_TemplateCoreV2 H template_core;
          package =
            \<lparr>bp_protocol_version = tc_protocol_version template_core,
             bp_network_id = tc_network_id template_core,
             bp_template_core = template_core, bp_template_core_id = template_core_id,
             bp_coinbase_raw = coinbase_raw, bp_transactions_raw = transactions_raw,
             bp_merkle_root = merkle_root, bp_witness_root = witness_root,
             bp_tree_root = tree_root, bp_reserved_root = reserved_root,
             bp_block_weight = block_weight, bp_block_sigops = block_sigops,
             bp_miner_subsidy = miner_subsidy,
             bp_ordinary_transaction_fees = ordinary_transaction_fees,
             bp_claim_airdrop_principal = claim_airdrop_principal,
             bp_claim_airdrop_fees = claim_airdrop_fees,
             bp_operator_fee_value = operator_fee_value,
             bp_work_service_subsidy_value = work_service_subsidy_value,
             bp_consensus_validation_result_hash =
               validation_result_hash H (tc_network_id template_core) template_core_id
                 coinbase_raw transactions_raw,
             bp_operator_signature = operator_signature\<rparr>
      in res_bind (validate_body_package H package) (\<lambda>_. Inr package))"

section \<open>Lemmas\<close>

definition valid_CoinbaseCommitmentV2 :: "CoinbaseCommitmentV2 \<Rightarrow> bool" where
  "valid_CoinbaseCommitmentV2 c \<longleftrightarrow>
     length (cc_template_core_id c) = 32 \<and> length (cc_payout_snapshot_id c) = 32 \<and>
     length (cc_payout_plan_id c) = 32 \<and> length (cc_operator_key_hash c) = 32"

lemma length_magic: "length COINBASE_COMMITMENT_MAGIC = 4"
  by (simp add: COINBASE_COMMITMENT_MAGIC_def str_bytes_def)

lemma CoinbaseCommitmentV2_encode_concat:
  assumes "valid_CoinbaseCommitmentV2 c"
  shows "CoinbaseCommitmentV2_encode c = concat [COINBASE_COMMITMENT_MAGIC,
    to_le 2 (cc_protocol_version c), [cc_network_id c], cc_template_core_id c,
    cc_payout_snapshot_id c, cc_payout_plan_id c, to_le 8 (cc_plan_sequence c),
    cc_operator_key_hash c, to_le 4 (cc_flags c)]"
proof -
  have "CoinbaseCommitmentV2_encode c = fst (fold write_bytes [COINBASE_COMMITMENT_MAGIC,
    to_le 2 (cc_protocol_version c), [cc_network_id c], cc_template_core_id c,
    cc_payout_snapshot_id c, cc_payout_plan_id c, to_le 8 (cc_plan_sequence c),
    cc_operator_key_hash c, to_le 4 (cc_flags c)] (replicate COINBASE_COMMITMENT_SIZE 0, 0))"
    by (simp add: CoinbaseCommitmentV2_encode_def)
  then show ?thesis using assms
    by (simp only: fold_write_fill) (subst fold_write_fill, simp_all add:
      valid_CoinbaseCommitmentV2_def COINBASE_COMMITMENT_SIZE_def length_magic)
qed

definition commitment_layout :: "nat list" where
  "commitment_layout = [4, 2, 1, 32, 32, 32, 8, 32, 4]"

lemma CoinbaseCommitmentV2_decode_slices:
  assumes "length bs = 147" "slices commitment_layout bs = [m, a, b, c, d, e, f, g, h]"
  shows "CoinbaseCommitmentV2_decode bs =
    (if m \<noteq> COINBASE_COMMITMENT_MAGIC then Inl InvalidCommitmentMagic
     else Inr \<lparr>cc_protocol_version = from_le a, cc_network_id = b ! 0,
       cc_template_core_id = c, cc_payout_snapshot_id = d, cc_payout_plan_id = e,
       cc_plan_sequence = from_le f, cc_operator_key_hash = g, cc_flags = from_le h\<rparr>)"
  using assms by (auto simp: CoinbaseCommitmentV2_decode_def read_array_def
    commitment_layout_def COINBASE_COMMITMENT_SIZE_def)

lemma commitment_slices:
  assumes "length bs = 147"
  obtains m a b c d e f g h where "slices commitment_layout bs = [m, a, b, c, d, e, f, g, h]"
    "bs = concat [m, a, b, c, d, e, f, g, h]"
    "map length [m, a, b, c, d, e, f, g, h] = commitment_layout"
proof -
  have "map length (slices commitment_layout bs) = commitment_layout"
    by (rule map_length_slices) (simp add: commitment_layout_def assms)
  moreover have "concat (slices commitment_layout bs) = bs"
    by (subst concat_slices) (simp add: commitment_layout_def assms)
  moreover obtain m a b c d e f g h
    where "slices commitment_layout bs = [m, a, b, c, d, e, f, g, h]"
    by (simp add: commitment_layout_def)
  ultimately show ?thesis using that by metis
qed

lemma le_u16: "length bs = 2 \<Longrightarrow> to_le 2 (from_le bs :: u16) = bs" "from_le (to_le 2 v) = (v :: u16)"
  using to_le_from_le [where ?'a = 16, of bs] by (simp_all add: from_le_to_le_self)

lemma CoinbaseCommitmentV2_to_from:
  assumes "CoinbaseCommitmentV2_decode bs = Inr v"
  shows "valid_CoinbaseCommitmentV2 v \<and> bs = CoinbaseCommitmentV2_encode v"
proof -
  have l: "length bs = 147" using assms
    by (auto simp: CoinbaseCommitmentV2_decode_def COINBASE_COMMITMENT_SIZE_def split: if_splits)
  obtain m a b c d e f g h where
    sl: "slices commitment_layout bs = [m, a, b, c, d, e, f, g, h]"
    and cat: "bs = concat [m, a, b, c, d, e, f, g, h]"
    and len: "map length [m, a, b, c, d, e, f, g, h] = commitment_layout"
    using commitment_slices [OF l] by metis
  have m: "m = COINBASE_COMMITMENT_MAGIC" and v: "v = \<lparr>cc_protocol_version = from_le a,
      cc_network_id = b ! 0, cc_template_core_id = c, cc_payout_snapshot_id = d,
      cc_payout_plan_id = e, cc_plan_sequence = from_le f, cc_operator_key_hash = g,
      cc_flags = from_le h\<rparr>"
    using CoinbaseCommitmentV2_decode_slices [OF l sl] assms by (auto split: if_splits)
  have b: "[b ! 0] = b" using len by (cases b) (auto simp: commitment_layout_def)
  have "valid_CoinbaseCommitmentV2 v"
    using len by (simp add: v valid_CoinbaseCommitmentV2_def commitment_layout_def)
  moreover have "bs = CoinbaseCommitmentV2_encode v"
    unfolding CoinbaseCommitmentV2_encode_concat [OF \<open>valid_CoinbaseCommitmentV2 v\<close>]
    using cat len b by (simp add: v m commitment_layout_def le_words le_u16)
  ultimately show ?thesis by simp
qed

lemma CoinbaseCommitmentV2_from_to:
  assumes "valid_CoinbaseCommitmentV2 v"
  shows "length (CoinbaseCommitmentV2_encode v) = 147"
    "CoinbaseCommitmentV2_decode (CoinbaseCommitmentV2_encode v) = Inr v"
proof -
  note cat = CoinbaseCommitmentV2_encode_concat [OF assms]
  show l: "length (CoinbaseCommitmentV2_encode v) = 147"
    using assms unfolding cat by (simp add: valid_CoinbaseCommitmentV2_def length_magic)
  have "slices commitment_layout (CoinbaseCommitmentV2_encode v) = [COINBASE_COMMITMENT_MAGIC,
    to_le 2 (cc_protocol_version v), [cc_network_id v], cc_template_core_id v,
    cc_payout_snapshot_id v, cc_payout_plan_id v, to_le 8 (cc_plan_sequence v),
    cc_operator_key_hash v, to_le 4 (cc_flags v)]"
    using assms slices_concat [where rest = "[]"] unfolding cat
    by (simp only: append_Nil2)
      (simp add: valid_CoinbaseCommitmentV2_def commitment_layout_def length_magic)
  from CoinbaseCommitmentV2_decode_slices [OF l this]
  show "CoinbaseCommitmentV2_decode (CoinbaseCommitmentV2_encode v) = Inr v"
    by (simp add: le_words le_u16)
qed

definition ordinary_outputs :: "CoinbaseOutputSkeleton \<Rightarrow> PayoutOutput list" where
  "ordinary_outputs s = [sk_first_work_or_fallback s] @ sk_remaining_work_outputs s @
     sk_service_outputs s @ (case sk_operator_fee_output s of None \<Rightarrow> [] | Some out \<Rightarrow> [out])"

text \<open>
  What an HNS node writes for a coinbase, in the layout that the source documents at
  \<^verbatim>\<open>payout_weight_reservation\<close>: an output is its value (8 bytes), the address version (1), the
  address length (1), the address bytes, the covenant type (1) and the number of covenant items, here
  none. A count below 0xfd is one byte; a larger one is a marker and the shortest of 2, 4 and 8 bytes
  that holds it. The readers show that nothing is lost in this layout.
\<close>

definition hns_varint :: "nat \<Rightarrow> bytes" where
  "hns_varint v = (if v < 0xfd then [of_nat v]
     else if v < 2 ^ 16 then 0xfd # to_le 2 (of_nat v :: u16)
     else if v < 2 ^ 32 then 0xfe # to_le 4 (of_nat v :: u32)
     else 0xff # to_le 8 (of_nat v :: u64))"

definition hns_output :: "PayoutOutput \<Rightarrow> bytes" where
  "hns_output out = to_le 8 (po_value out) @ [po_hns_address_version out] @
     [of_nat (length (po_hns_address_hash out))] @ po_hns_address_hash out @ [0] @ hns_varint 0"

definition read_hns_varint :: "bytes \<Rightarrow> nat \<times> bytes" where
  "read_hns_varint bs =
     (if hd bs = 0xfd then (unat (from_le (take 2 (tl bs)) :: u16), drop 3 bs)
      else if hd bs = 0xfe then (unat (from_le (take 4 (tl bs)) :: u32), drop 5 bs)
      else if hd bs = 0xff then (unat (from_le (take 8 (tl bs)) :: u64), drop 9 bs)
      else (unat (hd bs), tl bs))"

definition read_hns_output :: "bytes \<Rightarrow> PayoutOutput \<times> bytes" where
  "read_hns_output bs = (let len = unat (bs ! 9) in
     (\<lparr>po_hns_address_version = bs ! 8, po_hns_address_hash = take len (drop 10 bs),
       po_value = from_le (take 8 bs)\<rparr>, drop (len + 12) bs))"

lemma read_hns_varint:
  assumes "v < 2 ^ 64"
  shows "read_hns_varint (hns_varint v @ rest) = (v, rest)"
proof -
  have "of_nat v \<noteq> (0xfd :: u8)" "of_nat v \<noteq> (0xfe :: u8)" "of_nat v \<noteq> (0xff :: u8)" if "v < 0xfd"
    using that take_bit_nat_eq_self [of v 8] by (simp_all add: unsigned_of_nat word_unat_eq_iff)
  then show ?thesis
    using assms by (auto simp: hns_varint_def read_hns_varint_def from_le_to_le_self unat_of_nat)
qed

lemma read_hns_output:
  assumes "length (po_hns_address_hash out) < 256"
  shows "read_hns_output (hns_output out @ rest) = (out, rest)"
  using assms
  by (simp add: hns_output_def read_hns_output_def hns_varint_def nth_append from_le_to_le_self unat_of_nat Let_def
      drop_Cons')

lemma length_hns_varint: "length (hns_varint v) = hns_varint_size v"
  by (simp add: hns_varint_def hns_varint_size_def)

lemma length_hns_output: "length (hns_output out) = 12 + length (po_hns_address_hash out)"
  by (simp add: hns_output_def hns_varint_def)

lemma reservation_fold:
  assumes "c \<le> usize_max" "z \<le> usize_max"
  shows "res_foldM (\<lambda>(count, sz) out.
      res_bind (validate_hns_address out) (\<lambda>_.
      res_bind (ok_or PayoutSizeOverflow (usize_checked_add count 1)) (\<lambda>count.
      res_bind (ok_or PayoutSizeOverflow (Option.bind (usize_checked_add sz 12)
         (\<lambda>sz. usize_checked_add sz (length (po_hns_address_hash out)))))
        (\<lambda>sz. Inr (count, sz)))))
      (c, z) outs = Inr (count, sz) \<longleftrightarrow>
    count = c + length outs \<and> sz = z + length (concat (map hns_output outs)) \<and>
    count \<le> usize_max \<and> sz \<le> usize_max \<and> (\<forall>out \<in> set outs. validate_hns_address out = Inr ())"
  using assms
proof (induction outs arbitrary: c z)
  case (Cons out outs)
  show ?case
  proof (cases "c + 1 \<le> usize_max \<and> z + length (hns_output out) \<le> usize_max")
    case True
    then show ?thesis using Cons.IH [of "c + 1" "z + length (hns_output out)"]
      by (cases "validate_hns_address out")
        (auto simp: usize_checked_add_def not_less length_hns_output add.assoc)
  next
    case False
    then show ?thesis
      by (cases "validate_hns_address out")
        (auto simp: usize_checked_add_def not_less length_hns_output split: if_splits)
  qed
qed auto

lemma ordered_outputs_ok:
  "validate_sorted s = Inr () \<Longrightarrow> \<exists>outs. ordered_outputs s = Inr outs \<and>
     length outs = length (ordinary_outputs s) + length (sk_mandatory_claim_airdrop_outputs s)"
  by (simp add: ordered_outputs_def ordinary_outputs_def)

lemma validation_body_inject:
  assumes "enc_u16 2 @ enc_u8 n @ enc_fixed t @ enc_bytes cb @ enc_vec enc_bytes txs =
      enc_u16 2 @ enc_u8 n' @ enc_fixed t' @ enc_bytes cb' @ enc_vec enc_bytes txs'"
    and "length t = 32" "length t' = 32"
    and "fits (enc_u16 2 @ enc_u8 n @ enc_fixed t @ enc_bytes cb @ enc_vec enc_bytes txs)"
    and "valid_vec MAX_OBJECT_HASHES (valid_bytes MAX_BODY_BYTES) L txs"
    and "valid_vec MAX_OBJECT_HASHES (valid_bytes MAX_BODY_BYTES) L txs'"
  shows "n = n' \<and> t = t' \<and> cb = cb' \<and> txs = txs'"
proof -
  have nt: "n = n' \<and> t = t'" and
    rest: "enc_bytes cb @ enc_vec enc_bytes txs = enc_bytes cb' @ enc_vec enc_bytes txs'"
    using assms(1-3) by (simp_all add: enc_u8_def enc_fixed_def)
  have "fits (enc_bytes cb @ enc_vec enc_bytes txs)" using assms(4) by (simp add: fits_def)
  then have cb: "cb = cb'" and txs: "enc_vec enc_bytes txs = enc_vec enc_bytes txs'"
    using enc_bytes_prefix_free [OF rest] by simp_all
  have "txs = txs'"
    using transactions_codec.enc_prefix_free [OF assms(5,6), of "[]" "[]"] txs assms(4)
    by (simp add: fits_def)
  with nt cb show ?thesis by simp
qed

text \<open>The bytes hashed for the validation result.\<close>

definition validation_preimage :: "u8 \<Rightarrow> hash256 \<Rightarrow> bytes \<Rightarrow> bytes list \<Rightarrow> bytes" where
  "validation_preimage n t cb txs = id_preimage VALIDATION_DOMAIN
     (enc_u16 2 @ enc_u8 n @ enc_fixed t @ enc_bytes cb @ enc_vec enc_bytes txs)"

lemma validation_result_hash_preimage:
  "validation_result_hash H n t cb txs = H (validation_preimage n t cb txs)"
  by (simp add: validation_result_hash_def validation_preimage_def id_preimage_def
    blake2b_256_def enc_vec_def enc_fixed_def)

section \<open>Properties of block bodies\<close>

text \<open>
  C20: the coinbase commitment on the wire. A byte string decodes to a commitment exactly if it is
  the 147-byte encoding of that commitment, magic included.
\<close>

theorem coinbase_commitment_round_trip:
  "CoinbaseCommitmentV2_decode bs = Inr c \<longleftrightarrow>
     valid_CoinbaseCommitmentV2 c \<and> bs = CoinbaseCommitmentV2_encode c"
  using CoinbaseCommitmentV2_from_to(2) CoinbaseCommitmentV2_to_from by blast

text \<open>
  C21: reserved coinbase space. A reservation is made exactly if the outputs are sorted, every output that is
  not mandatory has a valid address, and the counts and the weight fit a \<^verbatim>\<open>usize\<close>. It then counts exactly
  the outputs that \<^verbatim>\<open>ordered_outputs\<close> lays out; the reserved base bytes are the length of the
  output-count prefix and of the serialisation of the outputs that are not mandatory, in the node's layout;
  and the weight is four times that.
\<close>

theorem payout_weight_reservation_exact:
  "payout_weight_reservation s = Inr w \<longleftrightarrow>
    (\<exists>outs. ordered_outputs s = Inr outs \<and>
      (\<forall>out \<in> set (ordinary_outputs s). validate_hns_address out = Inr ()) \<and>
      pw_final_output_count w = length outs \<and>
      pw_ordinary_payout_output_count w = length (ordinary_outputs s) \<and>
      pw_reserved_base_bytes w =
        length (hns_varint (length outs) @ concat (map hns_output (ordinary_outputs s))) \<and>
      pw_reserved_weight w = 4 * pw_reserved_base_bytes w \<and>
      length outs \<le> usize_max \<and> pw_reserved_weight w \<le> usize_max)"
proof (cases "validate_sorted s")
  case (Inl e)
  then show ?thesis by (simp add: payout_weight_reservation_def ordered_outputs_def)
next
  case (Inr u)
  let ?n = "length (ordinary_outputs s)" and ?b = "length (concat (map hns_output (ordinary_outputs s)))"
    and ?m = "length (sk_mandatory_claim_airdrop_outputs s)"
  obtain outs where outs: "ordered_outputs s = Inr outs" "length outs = ?m + ?n"
    using ordered_outputs_ok [of s] Inr by (auto simp: add.commute)
  have "payout_weight_reservation s = Inr w \<longleftrightarrow>
      (\<forall>out \<in> set (ordinary_outputs s). validate_hns_address out = Inr ()) \<and> ?n \<le> usize_max \<and> ?b \<le> usize_max \<and>
      ?m + ?n \<le> usize_max \<and> ?b + hns_varint_size (?m + ?n) \<le> usize_max \<and>
      (?b + hns_varint_size (?m + ?n)) * 4 \<le> usize_max \<and>
      w = \<lparr>pw_final_output_count = ?m + ?n, pw_ordinary_payout_output_count = ?n,
        pw_reserved_base_bytes = ?b + hns_varint_size (?m + ?n),
        pw_reserved_weight = (?b + hns_varint_size (?m + ?n)) * 4\<rparr>"
    unfolding payout_weight_reservation_def ordinary_outputs_def [symmetric] Let_def Inr res_bind_simps
    by (auto simp: res_simps reservation_fold simp del: One_nat_def)
  then show ?thesis using outs by (cases w) (auto simp: length_hns_varint mult.commute add.commute)
qed

definition example_output :: "u8 \<Rightarrow> PayoutOutput" where
  "example_output b = \<lparr>po_hns_address_version = 0, po_hns_address_hash = replicate 20 b, po_value = 5\<rparr>"

definition example_skeleton :: CoinbaseOutputSkeleton where
  "example_skeleton = \<lparr>sk_first_work_or_fallback = example_output 1,
     sk_mandatory_claim_airdrop_outputs = [example_output 9],
     sk_remaining_work_outputs = [example_output 2], sk_service_outputs = [],
     sk_operator_fee_output = Some (example_output 4)\<rparr>"

theorem payout_weight_reservation_exact_witness:
  "\<exists>w. payout_weight_reservation example_skeleton = Inr w \<and> pw_reserved_weight w = 4 * (96 + 1)"
proof -
  let ?w = "\<lparr>pw_final_output_count = 4, pw_ordinary_payout_output_count = 3, pw_reserved_base_bytes = 97,
    pw_reserved_weight = 388\<rparr>"
  have "payout_weight_reservation example_skeleton = Inr ?w"
    unfolding payout_weight_reservation_exact
    by (simp add: ordered_outputs_def ordinary_outputs_def example_skeleton_def example_output_def
        validate_sorted_def destinations_sorted_def validate_hns_address_def usize_max_def
        length_hns_output length_hns_varint hns_varint_size_def)
  then show ?thesis by simp
qed

text \<open>
  C22: what the validation result commits to. For two body packages built by
  \<^verbatim>\<open>build_body_package\<close> from transaction lists within the wire bounds, the validation-result hashes
  are equal exactly if network, template identifier, coinbase and transactions are, unless the hash function
  collides on the two inputs. Nothing else of a package enters the hash: not the four roots, the weight, the
  signature operations or the values. Each package satisfies the template linkage that decoding checks.
\<close>

theorem validation_result_binds_body:
  assumes "\<And>x. length (H x) = 32"
    and "build_body_package H tc cb txs mr wr tr rr bw bs ms fees cap caf ofv wsv sig = Inr p"
    and "build_body_package H tc' cb' txs' mr' wr' tr' rr' bw' bs' ms' fees' cap' caf' ofv' wsv' sig'
      = Inr p'"
    and "valid_vec MAX_OBJECT_HASHES (valid_bytes MAX_BODY_BYTES) L txs"
      "valid_vec MAX_OBJECT_HASHES (valid_bytes MAX_BODY_BYTES) L txs'"
    and "fits (validation_preimage (bp_network_id p) (bp_template_core_id p) cb txs)"
    and "inj_on H {validation_preimage (bp_network_id p) (bp_template_core_id p) cb txs,
                   validation_preimage (bp_network_id p') (bp_template_core_id p') cb' txs'}"
  shows "(bp_consensus_validation_result_hash p = bp_consensus_validation_result_hash p' \<longleftrightarrow>
      bp_network_id p = bp_network_id p' \<and> bp_template_core_id p = bp_template_core_id p' \<and>
      bp_coinbase_raw p = bp_coinbase_raw p' \<and> bp_transactions_raw p = bp_transactions_raw p') \<and>
    validate_links H p = Inr () \<and> validate_links H p' = Inr ()"
proof -
  have p: "bp_network_id p = tc_network_id tc" "bp_coinbase_raw p = cb" "bp_transactions_raw p = txs"
    "bp_template_core_id p = object_id_TemplateCoreV2 H tc" "validate_links H p = Inr ()"
    "bp_consensus_validation_result_hash p =
      H (validation_preimage (bp_network_id p) (bp_template_core_id p) cb txs)"
    using assms(2) by (auto simp: build_body_package_def validate_body_package_def
      validate_links_def validation_result_hash_preimage Let_def)
  have p': "bp_network_id p' = tc_network_id tc'" "bp_coinbase_raw p' = cb'"
    "bp_transactions_raw p' = txs'" "bp_template_core_id p' = object_id_TemplateCoreV2 H tc'"
    "validate_links H p' = Inr ()" "bp_consensus_validation_result_hash p' =
      H (validation_preimage (bp_network_id p') (bp_template_core_id p') cb' txs')"
    using assms(3) by (auto simp: build_body_package_def validate_body_package_def
      validate_links_def validation_result_hash_preimage Let_def)
  have len: "length (bp_template_core_id p) = 32" "length (bp_template_core_id p') = 32"
    by (simp_all add: p p' object_id_TemplateCoreV2_def domain_hash_preimage assms(1))
  have fit: "fits (enc_u16 2 @ enc_u8 (bp_network_id p) @ enc_fixed (bp_template_core_id p) @
      enc_bytes cb @ enc_vec enc_bytes txs)"
    using assms(6) by (simp add: validation_preimage_def id_preimage_def fits_def enc_fixed_def)
  have "bp_consensus_validation_result_hash p = bp_consensus_validation_result_hash p' \<longleftrightarrow>
      validation_preimage (bp_network_id p) (bp_template_core_id p) cb txs =
      validation_preimage (bp_network_id p') (bp_template_core_id p') cb' txs'"
    unfolding p(6) p'(6) using assms(7) by (auto dest: inj_onD)
  also have "\<dots> \<longleftrightarrow> bp_network_id p = bp_network_id p' \<and> bp_template_core_id p = bp_template_core_id p' \<and>
      cb = cb' \<and> txs = txs'"
    using validation_body_inject [OF _ len fit assms(4,5)] id_preimage_inject assms(6)
    unfolding validation_preimage_def by metis
  finally show ?thesis using p(2,3,5) p'(2,3,5) by simp
qed

definition example_template :: TemplateCoreV2 where
  "example_template = \<lparr>tc_protocol_version = 2, tc_network_id = 1,
     tc_hns_parent_hash = replicate 32 0, tc_hns_parent_height = 7,
     tc_operator_pubkey = replicate 32 1, tc_operator_fee_bucket_id = replicate 32 2,
     tc_payout_snapshot_id = replicate 32 3, tc_payout_plan_id = replicate 32 4,
     tc_plan_sequence = 5, tc_ordered_non_coinbase_txids = [], tc_ordered_claim_ids = [],
     tc_ordered_airdrop_ids = [], tc_block_version = 0, tc_bits = 0x1925ae67,
     tc_minimum_ntime = 0, tc_policy_commitment = replicate 32 6\<rparr>"

definition tail_hash :: "bytes \<Rightarrow> hash256" where
  "tail_hash x = take 32 (rev x @ replicate 32 0)"

definition example_body :: "bytes \<Rightarrow> hash256 \<Rightarrow> BodyError + BlockBodyPackageV2" where
  "example_body cb root = build_body_package tail_hash example_template cb [[4], [5, 6]]
     root (replicate 32 0) (replicate 32 0) (replicate 32 0) 0 0 0 0 0 0 0 0 []"

lemma example_body_built:
  obtains p where "example_body cb root = Inr p" "length (bp_template_core_id p) = 32" "bp_coinbase_raw p = cb"
    "bp_merkle_root p = root" "bp_network_id p = 1" "bp_template_core_id p = object_id_TemplateCoreV2 tail_hash example_template"
    "bp_transactions_raw p = [[4], [5, 6]]"
proof -
  have "length (tail_hash x) = 32" for x by (simp add: tail_hash_def)
  then have "length (object_id_TemplateCoreV2 tail_hash example_template) = 32"
    by (simp add: object_id_TemplateCoreV2_def domain_hash_preimage)
  moreover have "tc_network_id example_template = 1" by (simp add: example_template_def)
  ultimately show ?thesis
    using that by (simp add: example_body_def build_body_package_def validate_body_package_def Let_def)
qed

text \<open>Two packages with different Merkle roots share the hash; one with another coinbase does not.\<close>

theorem validation_result_binds_body_witness:
  "\<exists>p p' q. example_body [1, 2, 3] (replicate 32 0) = Inr p \<and> example_body [1, 2, 3] (replicate 32 7) = Inr p' \<and>
    example_body [1, 2, 9] (replicate 32 0) = Inr q \<and> bp_merkle_root p \<noteq> bp_merkle_root p' \<and>
    bp_consensus_validation_result_hash p = bp_consensus_validation_result_hash p' \<and>
    bp_consensus_validation_result_hash p \<noteq> bp_consensus_validation_result_hash q"
proof -
  let ?t = "object_id_TemplateCoreV2 tail_hash example_template"
  let ?pre = "\<lambda>cb. validation_preimage 1 ?t cb [[4], [5, 6]]"
  obtain p where p: "example_body [1, 2, 3] (replicate 32 0) = Inr p" "length (bp_template_core_id p) = 32"
    "bp_coinbase_raw p = [1, 2, 3]" "bp_merkle_root p = replicate 32 0" "bp_network_id p = 1"
    "bp_template_core_id p = ?t" "bp_transactions_raw p = [[4], [5, 6]]" by (rule example_body_built)
  obtain p' where p': "example_body [1, 2, 3] (replicate 32 7) = Inr p'" "length (bp_template_core_id p') = 32"
    "bp_coinbase_raw p' = [1, 2, 3]" "bp_merkle_root p' = replicate 32 7" "bp_network_id p' = 1"
    "bp_template_core_id p' = ?t" "bp_transactions_raw p' = [[4], [5, 6]]" by (rule example_body_built)
  obtain q where q: "example_body [1, 2, 9] (replicate 32 0) = Inr q" "length (bp_template_core_id q) = 32"
    "bp_coinbase_raw q = [1, 2, 9]" "bp_merkle_root q = replicate 32 0" "bp_network_id q = 1"
    "bp_template_core_id q = ?t" "bp_transactions_raw q = [[4], [5, 6]]" by (rule example_body_built)
  have vec: "valid_vec MAX_OBJECT_HASHES (valid_bytes MAX_BODY_BYTES) default_limits [[4], [5, 6]]"
    by (simp add: valid_vec_def valid_bytes_def max_defs default_limits_def)
  have fit: "fits (validation_preimage (bp_network_id p) (bp_template_core_id p) [1, 2, 3] [[4], [5, 6]])"
    using length_enc_varint_le [of 39] length_enc_varint_le [of 3] length_enc_varint_le [of 1]
      length_enc_varint_le [of 2] p(2)
    by (simp add: validation_preimage_def id_preimage_def fits_def enc_bytes_def enc_vec_def
      enc_fixed_def enc_u8_def enc_u16_def str_bytes_def VALIDATION_DOMAIN_def usize_max_def)
  have "tail_hash (?pre [1, 2, 3]) \<noteq> tail_hash (?pre [1, 2, 9])" by code_simp
  then have inj: "inj_on tail_hash {?pre [1, 2, 3], ?pre [1, 2, 9]}" by (auto simp: inj_on_def)
  have len: "length (tail_hash x) = 32" for x by (simp add: tail_hash_def)
  note binds = validation_result_binds_body [OF len p(1) [unfolded example_body_def] _ vec vec fit]
  have "bp_consensus_validation_result_hash p = bp_consensus_validation_result_hash p'"
    using binds [OF p'(1) [unfolded example_body_def]] p p' by simp
  moreover have "bp_consensus_validation_result_hash p \<noteq> bp_consensus_validation_result_hash q"
    using binds [OF q(1) [unfolded example_body_def]] p q inj by simp
  moreover have "bp_merkle_root p \<noteq> bp_merkle_root p'" by (simp add: p p' replicate_eq_replicate)
  ultimately show ?thesis using p(1) p'(1) q(1) by blast
qed

end
