(* ===== verification/Ordered_Map.thy ===== *)
theory Ordered_Map
  imports Prelude
begin

text \<open>
  The standard library's ordered map \<^verbatim>\<open>BTreeMap\<close> as a strictly sorted association list: look up,
  insert or replace, remove, iteration in key order, first and last entry, ranges. The locale
  \<^verbatim>\<open>ordered_map\<close> states the laws its users rely on; the lists interpret it.
\<close>

type_synonym ('k, 'v) btmap = "('k \<times> 'v) list"

definition bt_wf :: "('k::linorder, 'v) btmap \<Rightarrow> bool" where
  "bt_wf m \<longleftrightarrow> sorted_wrt (<) (map fst m)"

definition bt_get :: "('k::linorder, 'v) btmap \<Rightarrow> 'k \<Rightarrow> 'v option" where
  "bt_get m k = map_of m k"

fun bt_insert :: "'k::linorder \<Rightarrow> 'v \<Rightarrow> ('k, 'v) btmap \<Rightarrow> ('k, 'v) btmap" where
  "bt_insert k v [] = [(k, v)]"
| "bt_insert k v ((k', v') # m) =
     (if k < k' then (k, v) # (k', v') # m
      else if k = k' then (k, v) # m
      else (k', v') # bt_insert k v m)"

definition bt_remove :: "'k::linorder \<Rightarrow> ('k, 'v) btmap \<Rightarrow> ('k, 'v) btmap" where
  "bt_remove k m = filter (\<lambda>e. fst e \<noteq> k) m"

definition bt_keys :: "('k::linorder, 'v) btmap \<Rightarrow> 'k list" where
  "bt_keys m = map fst m"

definition bt_values :: "('k::linorder, 'v) btmap \<Rightarrow> 'v list" where
  "bt_values m = map snd m"

definition bt_last :: "('k::linorder, 'v) btmap \<Rightarrow> ('k \<times> 'v) option" where
  "bt_last m = (if m = [] then None else Some (last m))"

definition bt_map_values :: "('k \<Rightarrow> 'v \<Rightarrow> 'w) \<Rightarrow> ('k::linorder, 'v) btmap \<Rightarrow> ('k, 'w) btmap" where
  "bt_map_values f m = map (\<lambda>(k, v). (k, f k v)) m"

definition bt_from_list :: "('k::linorder \<times> 'v) list \<Rightarrow> ('k, 'v) btmap" where
  "bt_from_list es = fold (\<lambda>(k, v). bt_insert k v) es []"

section \<open>The interface\<close>

locale ordered_map =
  fixes get :: "'m \<Rightarrow> 'k::linorder \<Rightarrow> 'v option"
    and ins :: "'k \<Rightarrow> 'v \<Rightarrow> 'm \<Rightarrow> 'm"
    and rem :: "'k \<Rightarrow> 'm \<Rightarrow> 'm"
    and entries :: "'m \<Rightarrow> ('k \<times> 'v) list"
    and wf :: "'m \<Rightarrow> bool"
  assumes get_ins: "wf m \<Longrightarrow> get (ins k v m) = (get m)(k \<mapsto> v)"
    and get_rem: "wf m \<Longrightarrow> get (rem k m) = (get m)(k := None)"
    and wf_ins: "wf m \<Longrightarrow> wf (ins k v m)"
    and wf_rem: "wf m \<Longrightarrow> wf (rem k m)"
    and entries_sorted: "wf m \<Longrightarrow> sorted_wrt (<) (map fst (entries m))"
    and entries_get: "wf m \<Longrightarrow> (k, v) \<in> set (entries m) \<longleftrightarrow> get m k = Some v"
begin

lemma entries_unique:
  assumes "wf m" "wf n" "get m = get n"
  shows "entries m = entries n"
proof -
  have s: "set (entries m) = set (entries n)"
    using assms entries_get by (metis surj_pair subsetI subset_antisym)
  have i: "inj_on fst (set (entries m))"
    using assms entries_get by (auto simp: inj_on_def)
  have "map fst (entries m) = map fst (entries n)"
    by (rule strict_sorted_equal) (use assms entries_sorted s in \<open>auto simp: image_def\<close>)
  with s i show ?thesis by (metis map_inj_on sup.idem)
qed

lemma distinct_keys: "wf m \<Longrightarrow> distinct (map fst (entries m))"
  using entries_sorted sorted_wrt_less_distinct by blast

lemma get_fold_ins:
  "wf m \<Longrightarrow> wf (fold (\<lambda>(k, v). ins k v) es m) \<and>
    get (fold (\<lambda>(k, v). ins k v) es m) = get m ++ map_of (rev es)"
proof (induction es arbitrary: m)
  case (Cons e es)
  then show ?case
    by (cases e) (auto simp: wf_ins get_ins map_add_def fun_eq_iff split: option.splits)
qed simp

end

lemma bt_insert_keys: "set (map fst (bt_insert k v m)) = insert k (set (map fst m))"
  by (induction k v m rule: bt_insert.induct) auto

lemma bt_wf_insert: "bt_wf m \<Longrightarrow> bt_wf (bt_insert k v m)"
proof (induction k v m rule: bt_insert.induct)
  case (2 k v k' v' m)
  then show ?case using bt_insert_keys [of k v m] by (auto simp: bt_wf_def)
qed (simp add: bt_wf_def)

lemma bt_get_insert: "bt_wf m \<Longrightarrow> bt_get (bt_insert k v m) = (bt_get m)(k \<mapsto> v)"
proof (induction k v m rule: bt_insert.induct)
  case (2 k v k' v' m)
  then show ?case by (auto simp: bt_wf_def bt_get_def fun_eq_iff)
qed (simp add: bt_get_def fun_eq_iff)

lemma bt_get_remove: "bt_get (bt_remove k m) = (bt_get m)(k := None)"
  by (induction m) (auto simp: bt_get_def bt_remove_def fun_eq_iff)

lemma bt_wf_remove: "bt_wf m \<Longrightarrow> bt_wf (bt_remove k m)"
  unfolding bt_wf_def bt_remove_def
  by (simp add: sorted_wrt_map sorted_wrt_filter)

lemma bt_distinct: "bt_wf m \<Longrightarrow> distinct (map fst m)"
  by (simp add: bt_wf_def sorted_wrt_less_distinct)

lemma bt_get_iff: "bt_wf m \<Longrightarrow> (k, v) \<in> set m \<longleftrightarrow> bt_get m k = Some v"
  using bt_distinct [of m] by (simp add: bt_get_def)

interpretation bt: ordered_map bt_get bt_insert bt_remove "\<lambda>m. m" bt_wf
  by unfold_locales
    (simp_all add: bt_get_insert bt_get_remove bt_wf_insert bt_wf_remove bt_get_iff,
     simp add: bt_wf_def)

lemma bt_wf_Nil [simp]: "bt_wf []"
  by (simp add: bt_wf_def)

lemma bt_get_Nil [simp]: "bt_get [] = Map.empty"
  by (simp add: bt_get_def fun_eq_iff)

lemma bt_from_list: "bt_wf (bt_from_list es) \<and> bt_get (bt_from_list es) = map_of (rev es)"
  using bt.get_fold_ins [of "[]" es] by (simp add: bt_from_list_def)

lemma bt_wf_map_values [simp]: "bt_wf (bt_map_values f m) = bt_wf m"
  by (simp add: bt_wf_def bt_map_values_def comp_def case_prod_beta)

lemma bt_get_map_values [simp]: "bt_get (bt_map_values f m) k = map_option (f k) (bt_get m k)"
  by (induction m) (auto simp: bt_get_def bt_map_values_def)

text \<open>Appending beyond the last key.\<close>

lemma bt_insert_last: "\<forall>k' \<in> set (map fst m). k' < k \<Longrightarrow> bt_insert k v m = m @ [(k, v)]"
proof (induction k v m rule: bt_insert.induct)
  case (2 k v k' v' m)
  then have "k' < k" by simp
  with 2 show ?case by auto
qed simp

lemma bt_wf_snoc:
  "bt_wf (m @ [(k, v)]) \<longleftrightarrow> bt_wf m \<and> (\<forall>k' \<in> set (map fst m). k' < k)"
  by (auto simp: bt_wf_def sorted_wrt_append)

lemma bt_remove_last: "bt_wf (m @ [(k, v)]) \<Longrightarrow> bt_remove k (m @ [(k, v)]) = m"
  by (auto simp: bt_remove_def bt_wf_snoc filter_id_conv)

text \<open>Totals over the entries.\<close>

lemma sum_bt_insert:
  fixes f :: "'v \<Rightarrow> nat" and k :: "'k::linorder"
  assumes "bt_wf m"
  shows "sum_list (map f (map snd (bt_insert k v m))) + (case bt_get m k of None \<Rightarrow> 0 | Some v' \<Rightarrow> f v') =
    sum_list (map f (map snd m)) + f v"
  using assms
proof (induction k v m rule: bt_insert.induct)
  case (2 k v k' v' m)
  have "bt_get m k = None" if "k < k'"
    using 2(2) that by (auto simp: bt_wf_def bt_get_def map_of_eq_None_iff)
  with 2 show ?case by (auto simp: bt_wf_def bt_get_def)
qed simp

end
