(* ===== verification/Durable_Store.thy ===== *)
theory Durable_Store
  imports Ordered_Map "HOL-Library.Char_ord"
begin

text \<open>
  The durable key-value store of \<^verbatim>\<open>crates/meshmine-storage/src/lib.rs\<close>: the trait \<^verbatim>\<open>DurableStore\<close> as
  a record of operations, the in-memory implementation \<^verbatim>\<open>MemoryStore\<close>, and the locale
  \<^verbatim>\<open>durable_store\<close> with the laws that journal and signing guard rely on. A string is the list of
  its UTF-8 bytes, compared bytewise as in Rust.
\<close>

datatype StorageError =
  Backend string | ReadOnly | InvalidKey | ScanLimit | PaginationUnsupported |
  MultipleConditionsUnsupported

record ScanLimits =
  sl_maximum_records :: nat
  sl_maximum_value_bytes :: u64
  sl_maximum_total_bytes :: u64

record NamespaceRecord =
  nr_key :: string
  nr_value :: bytes

record NamespacePage =
  np_records :: "NamespaceRecord list"
  np_has_more :: bool

datatype BatchOperation = Put string string bytes | Delete string string

record BatchCondition =
  bc_namespace :: string
  bc_key :: string
  bc_expected :: "bytes option"

definition BatchCondition_new :: "string \<Rightarrow> string \<Rightarrow> bytes option \<Rightarrow> BatchCondition" where
  "BatchCondition_new ns key expected =
     \<lparr>bc_namespace = ns, bc_key = key, bc_expected = expected\<rparr>"

definition BatchCondition_absent :: "string \<Rightarrow> string \<Rightarrow> BatchCondition" where
  "BatchCondition_absent ns key = BatchCondition_new ns key None"

definition BatchCondition_equals :: "string \<Rightarrow> string \<Rightarrow> bytes \<Rightarrow> BatchCondition" where
  "BatchCondition_equals ns key expected = BatchCondition_new ns key (Some expected)"

section \<open>Physical keys\<close>

definition NUL :: char where "NUL = CHR 0x00"

definition storage_key :: "string \<Rightarrow> string \<Rightarrow> StorageError + string" where
  "storage_key ns key =
     (if NUL \<in> set ns \<or> NUL \<in> set key then Inl InvalidKey else Inr (ns @ [NUL] @ key))"

definition namespace_upper :: "string \<Rightarrow> StorageError + string" where
  "namespace_upper ns = (if NUL \<in> set ns then Inl InvalidKey else Inr (ns @ [CHR 0x01]))"

definition u64_try_from :: "nat \<Rightarrow> u64 option" where
  "u64_try_from n = (if n < 2 ^ 64 then Some (of_nat n) else None)"

definition append_scanned_record ::
  "NamespaceRecord list \<Rightarrow> u64 \<Rightarrow> string \<Rightarrow> bytes \<Rightarrow> ScanLimits \<Rightarrow>
   StorageError + NamespaceRecord list \<times> u64" where
  "append_scanned_record records total_bytes key v limits =
     res_bind (ok_or ScanLimit (u64_try_from (length v))) (\<lambda>value_bytes.
     res_bind (ok_or ScanLimit (Option.bind (u64_try_from (length key))
       (\<lambda>key_bytes. checked_add key_bytes value_bytes))) (\<lambda>record_bytes.
     res_bind (ok_or ScanLimit (checked_add total_bytes record_bytes)) (\<lambda>next_total.
     if length records \<ge> sl_maximum_records limits
        \<or> value_bytes > sl_maximum_value_bytes limits
        \<or> next_total > sl_maximum_total_bytes limits
     then Inl ScanLimit
     else Inr (records @ [\<lparr>nr_key = key, nr_value = v\<rparr>], next_total))))"

text \<open>\<^verbatim>\<open>None\<close> stands for \<^verbatim>\<open>Ok(false)\<close>: the record does not fit the rest of the page.\<close>

definition append_page_record ::
  "NamespaceRecord list \<Rightarrow> u64 \<Rightarrow> string \<Rightarrow> bytes \<Rightarrow> ScanLimits \<Rightarrow>
   StorageError + (NamespaceRecord list \<times> u64) option" where
  "append_page_record records total_bytes key v limits =
     res_bind (ok_or ScanLimit (u64_try_from (length v))) (\<lambda>value_bytes.
     res_bind (ok_or ScanLimit (Option.bind (u64_try_from (length key))
       (\<lambda>key_bytes. checked_add key_bytes value_bytes))) (\<lambda>record_bytes.
     if value_bytes > sl_maximum_value_bytes limits
        \<or> record_bytes > sl_maximum_total_bytes limits
     then Inl ScanLimit
     else
     res_bind (ok_or ScanLimit (checked_add total_bytes record_bytes)) (\<lambda>next_total.
     if length records \<ge> sl_maximum_records limits
        \<or> next_total > sl_maximum_total_bytes limits
     then Inr None
     else Inr (Some (records @ [\<lparr>nr_key = key, nr_value = v\<rparr>], next_total)))))"

section \<open>The trait\<close>

record 'st store_ops =
  so_put :: "'st \<Rightarrow> string \<Rightarrow> string \<Rightarrow> bytes \<Rightarrow> StorageError + 'st"
  so_get :: "'st \<Rightarrow> string \<Rightarrow> string \<Rightarrow> StorageError + bytes option"
  so_delete :: "'st \<Rightarrow> string \<Rightarrow> string \<Rightarrow> StorageError + 'st"
  so_compare_and_swap ::
    "'st \<Rightarrow> string \<Rightarrow> string \<Rightarrow> bytes option \<Rightarrow> bytes \<Rightarrow> StorageError + bool \<times> 'st"
  so_apply_batch :: "'st \<Rightarrow> BatchOperation list \<Rightarrow> StorageError + 'st"
  so_apply_batch_if :: "'st \<Rightarrow> string \<Rightarrow> string \<Rightarrow> bytes option \<Rightarrow> BatchOperation list \<Rightarrow>
     StorageError + bool \<times> 'st"
  so_apply_batch_if_all ::
    "'st \<Rightarrow> BatchCondition list \<Rightarrow> BatchOperation list \<Rightarrow> StorageError + bool \<times> 'st"
  so_scan_namespace :: "'st \<Rightarrow> string \<Rightarrow> ScanLimits \<Rightarrow> StorageError + NamespaceRecord list"
  so_scan_namespace_after ::
    "'st \<Rightarrow> string \<Rightarrow> string option \<Rightarrow> ScanLimits \<Rightarrow> StorageError + NamespacePage"

definition put_if_absent ::
  "'st store_ops \<Rightarrow> 'st \<Rightarrow> string \<Rightarrow> string \<Rightarrow> bytes \<Rightarrow> StorageError + bool \<times> 'st" where
  "put_if_absent ops st ns key v = so_compare_and_swap ops st ns key None v"

text \<open>The provided methods, for a store that does not override them.\<close>

fun default_apply_batch_if_all ::
  "'st store_ops \<Rightarrow> 'st \<Rightarrow> BatchCondition list \<Rightarrow> BatchOperation list \<Rightarrow> StorageError + bool \<times> 'st" where
  "default_apply_batch_if_all ops st [] operations =
     res_bind (so_apply_batch ops st operations) (\<lambda>st'. Inr (True, st'))"
| "default_apply_batch_if_all ops st [c] operations =
     so_apply_batch_if ops st (bc_namespace c) (bc_key c) (bc_expected c) operations"
| "default_apply_batch_if_all ops st (c # c' # cs) operations = Inl MultipleConditionsUnsupported"

definition default_scan_namespace_after ::
  "'st \<Rightarrow> string \<Rightarrow> string option \<Rightarrow> ScanLimits \<Rightarrow> StorageError + NamespacePage" where
  "default_scan_namespace_after st ns exclusive_cursor limits = Inl PaginationUnsupported"

section \<open>The in-memory store\<close>

text \<open>The map behind its lock; a poisoned lock makes every operation fail.\<close>

record MemoryStore =
  ms_records :: "(string, bytes) btmap"
  ms_poisoned :: bool

definition ms_lock :: "MemoryStore \<Rightarrow> StorageError + (string, bytes) btmap" where
  "ms_lock st = (if ms_poisoned st then Inl (Backend ''memory store lock poisoned'')
     else Inr (ms_records st))"

definition MemoryStore_put ::
  "MemoryStore \<Rightarrow> string \<Rightarrow> string \<Rightarrow> bytes \<Rightarrow> StorageError + MemoryStore" where
  "MemoryStore_put st ns key v =
     res_bind (storage_key ns key) (\<lambda>k.
     res_bind (ms_lock st) (\<lambda>records. Inr (st\<lparr>ms_records := bt_insert k v records\<rparr>)))"

definition MemoryStore_get ::
  "MemoryStore \<Rightarrow> string \<Rightarrow> string \<Rightarrow> StorageError + bytes option" where
  "MemoryStore_get st ns key =
     res_bind (storage_key ns key) (\<lambda>k.
     res_bind (ms_lock st) (\<lambda>records. Inr (bt_get records k)))"

definition MemoryStore_delete ::
  "MemoryStore \<Rightarrow> string \<Rightarrow> string \<Rightarrow> StorageError + MemoryStore" where
  "MemoryStore_delete st ns key =
     res_bind (storage_key ns key) (\<lambda>k.
     res_bind (ms_lock st) (\<lambda>records. Inr (st\<lparr>ms_records := bt_remove k records\<rparr>)))"

definition MemoryStore_compare_and_swap ::
  "MemoryStore \<Rightarrow> string \<Rightarrow> string \<Rightarrow> bytes option \<Rightarrow> bytes \<Rightarrow> StorageError + bool \<times> MemoryStore" where
  "MemoryStore_compare_and_swap st ns key expected v =
     res_bind (storage_key ns key) (\<lambda>k.
     res_bind (ms_lock st) (\<lambda>records.
     if bt_get records k \<noteq> expected then Inr (False, st)
     else Inr (True, st\<lparr>ms_records := bt_insert k v records\<rparr>)))"

fun operation_key :: "BatchOperation \<Rightarrow> StorageError + string" where
  "operation_key (Put ns key v) = storage_key ns key"
| "operation_key (Delete ns key) = storage_key ns key"

fun apply_operation :: "BatchOperation \<times> string \<Rightarrow> (string, bytes) btmap \<Rightarrow> (string, bytes) btmap" where
  "apply_operation (Put ns key v, k) records = bt_insert k v records"
| "apply_operation (Delete ns key, k) records = bt_remove k records"

definition MemoryStore_apply_batch ::
  "MemoryStore \<Rightarrow> BatchOperation list \<Rightarrow> StorageError + MemoryStore" where
  "MemoryStore_apply_batch st operations =
     res_bind (res_mapM operation_key operations) (\<lambda>keys.
     res_bind (ms_lock st) (\<lambda>records.
     Inr (st\<lparr>ms_records := fold apply_operation (zip operations keys) records\<rparr>)))"

definition MemoryStore_apply_batch_if_all ::
  "MemoryStore \<Rightarrow> BatchCondition list \<Rightarrow> BatchOperation list \<Rightarrow> StorageError + bool \<times> MemoryStore" where
  "MemoryStore_apply_batch_if_all st conditions operations =
     res_bind (res_mapM (\<lambda>c. storage_key (bc_namespace c) (bc_key c)) conditions)
       (\<lambda>condition_keys.
     res_bind (res_mapM operation_key operations) (\<lambda>operation_keys.
     res_bind (ms_lock st) (\<lambda>records.
     if list_ex (\<lambda>(c, k). bt_get records k \<noteq> bc_expected c) (zip conditions condition_keys)
     then Inr (False, st)
     else Inr (True, st\<lparr>ms_records := fold apply_operation (zip operations operation_keys) records\<rparr>))))"

definition MemoryStore_apply_batch_if ::
  "MemoryStore \<Rightarrow> string \<Rightarrow> string \<Rightarrow> bytes option \<Rightarrow> BatchOperation list \<Rightarrow>
   StorageError + bool \<times> MemoryStore" where
  "MemoryStore_apply_batch_if st ns key expected operations =
     MemoryStore_apply_batch_if_all st [BatchCondition_new ns key expected] operations"

text \<open>\<^verbatim>\<open>str::strip_prefix\<close>.\<close>

definition strip_prefix :: "string \<Rightarrow> string \<Rightarrow> string option" where
  "strip_prefix p s = (if take (length p) s = p then Some (drop (length p) s) else None)"

definition MemoryStore_scan_namespace ::
  "MemoryStore \<Rightarrow> string \<Rightarrow> ScanLimits \<Rightarrow> StorageError + NamespaceRecord list" where
  "MemoryStore_scan_namespace st ns limits =
     res_bind (storage_key ns []) (\<lambda>prefix.
     res_bind (namespace_upper ns) (\<lambda>upper.
     res_bind (ms_lock st) (\<lambda>stored.
     res_bind (res_foldM (\<lambda>(records, total_bytes) (key, v).
         case strip_prefix prefix key of
           None \<Rightarrow> Inr (records, total_bytes)
         | Some logical_key \<Rightarrow>
             append_scanned_record records total_bytes logical_key v limits)
       ([], 0) (filter (\<lambda>(key, v). prefix \<le> key \<and> key < upper) stored))
     (\<lambda>(records, total_bytes). Inr records))))"

text \<open>The loop of a page stops at the first record that does not fit.\<close>

fun scan_page ::
  "string \<Rightarrow> ScanLimits \<Rightarrow> NamespaceRecord list \<Rightarrow> u64 \<Rightarrow> (string \<times> bytes) list \<Rightarrow>
   StorageError + NamespacePage" where
  "scan_page prefix limits records total_bytes [] =
     Inr \<lparr>np_records = records, np_has_more = False\<rparr>"
| "scan_page prefix limits records total_bytes ((key, v) # rest) =
     (case strip_prefix prefix key of
        None \<Rightarrow> scan_page prefix limits records total_bytes rest
      | Some logical_key \<Rightarrow>
          res_bind (append_page_record records total_bytes logical_key v limits) (\<lambda>appended.
          case appended of
            None \<Rightarrow> if records = [] then Inl ScanLimit
                    else Inr \<lparr>np_records = records, np_has_more = True\<rparr>
          | Some (records', total_bytes') \<Rightarrow>
              scan_page prefix limits records' total_bytes' rest))"

definition MemoryStore_scan_namespace_after ::
  "MemoryStore \<Rightarrow> string \<Rightarrow> string option \<Rightarrow> ScanLimits \<Rightarrow> StorageError + NamespacePage" where
  "MemoryStore_scan_namespace_after st ns exclusive_cursor limits =
     res_bind (storage_key ns []) (\<lambda>prefix.
     res_bind (case exclusive_cursor of
         Some cursor \<Rightarrow> storage_key ns cursor | None \<Rightarrow> Inr prefix) (\<lambda>lower.
     res_bind (namespace_upper ns) (\<lambda>upper.
     res_bind (ms_lock st) (\<lambda>stored.
     scan_page prefix limits [] 0
       (filter (\<lambda>(key, v). (if exclusive_cursor \<noteq> None then lower < key else lower \<le> key)
          \<and> key < upper) stored)))))"

definition memory_ops :: "MemoryStore store_ops" where
  "memory_ops = \<lparr>so_put = MemoryStore_put, so_get = MemoryStore_get,
     so_delete = MemoryStore_delete, so_compare_and_swap = MemoryStore_compare_and_swap,
     so_apply_batch = MemoryStore_apply_batch,
     so_apply_batch_if = MemoryStore_apply_batch_if,
     so_apply_batch_if_all = MemoryStore_apply_batch_if_all,
     so_scan_namespace = MemoryStore_scan_namespace,
     so_scan_namespace_after = MemoryStore_scan_namespace_after\<rparr>"

section \<open>The contract\<close>

text \<open>What a store holds, as a map from namespace and key, and what a batch does to it.\<close>

type_synonym kv_view = "string \<Rightarrow> string \<Rightarrow> bytes option"

definition view_set :: "string \<Rightarrow> string \<Rightarrow> bytes option \<Rightarrow> kv_view \<Rightarrow> kv_view" where
  "view_set ns key v m = (\<lambda>ns' key'. if ns' = ns \<and> key' = key then v else m ns' key')"

fun view_operation :: "BatchOperation \<Rightarrow> kv_view \<Rightarrow> kv_view" where
  "view_operation (Put ns key v) m = view_set ns key (Some v) m"
| "view_operation (Delete ns key) m = view_set ns key None m"

definition conditions_hold :: "BatchCondition list \<Rightarrow> kv_view \<Rightarrow> bool" where
  "conditions_hold cs m \<longleftrightarrow> (\<forall>c \<in> set cs. m (bc_namespace c) (bc_key c) = bc_expected c)"

fun operation_target :: "BatchOperation \<Rightarrow> string \<times> string" where
  "operation_target (Put ns key v) = (ns, key)"
| "operation_target (Delete ns key) = (ns, key)"

locale durable_store =
  fixes ops :: "'st store_ops"
    and inv :: "'st \<Rightarrow> bool"
    and view :: "'st \<Rightarrow> kv_view"
  assumes get_law: "inv st \<Longrightarrow> so_get ops st ns key = Inr found \<Longrightarrow> found = view st ns key"
    and cas_law: "inv st \<Longrightarrow> so_compare_and_swap ops st ns key expected v = Inr (ok, st') \<Longrightarrow>
      inv st' \<and> (ok \<longleftrightarrow> view st ns key = expected) \<and>
      (if ok then view st' = view_set ns key (Some v) (view st) else st' = st)"
    and batch_law: "inv st \<Longrightarrow> so_apply_batch_if_all ops st cs bs = Inr (ok, st') \<Longrightarrow>
      inv st' \<and> (ok \<longleftrightarrow> conditions_hold cs (view st)) \<and>
      (if ok then view st' = fold view_operation bs (view st) else st' = st)"
begin

lemma put_if_absent_law:
  assumes "inv st" "put_if_absent ops st ns key v = Inr (ok, st')"
  shows "inv st'" "ok \<longleftrightarrow> view st ns key = None"
    "if ok then view st' = view_set ns key (Some v) (view st) else st' = st"
  using cas_law [OF assms(1)] assms(2) unfolding put_if_absent_def by blast+

end

lemma fold_view_operation_other:
  "(ns, key) \<notin> operation_target ` set bs \<Longrightarrow> fold view_operation bs m ns key = m ns key"
proof (induction bs arbitrary: m)
  case (Cons b bs)
  then show ?case by (cases b) (auto simp: view_set_def)
qed simp

section \<open>The in-memory store implements it\<close>

definition ms_inv :: "MemoryStore \<Rightarrow> bool" where
  "ms_inv st \<longleftrightarrow> bt_wf (ms_records st)"

definition ms_view :: "MemoryStore \<Rightarrow> kv_view" where
  "ms_view st ns key =
     (case storage_key ns key of Inl e \<Rightarrow> None | Inr k \<Rightarrow> bt_get (ms_records st) k)"

lemma storage_key_Inr [res_simps]:
  "storage_key ns key = Inr k \<longleftrightarrow> NUL \<notin> set ns \<and> NUL \<notin> set key \<and> k = ns @ [NUL] @ key"
  by (auto simp: storage_key_def)

lemma nul_split_inject:
  "NUL \<notin> set ns \<Longrightarrow> NUL \<notin> set ns' \<Longrightarrow> ns @ NUL # key = ns' @ NUL # key' \<longleftrightarrow> ns = ns' \<and> key = key'"
proof (induction ns arbitrary: ns')
  case Nil
  then show ?case by (cases ns') auto
next
  case (Cons c ns)
  then show ?case by (cases ns') auto
qed

lemma storage_key_inject:
  "storage_key ns key = Inr k \<Longrightarrow> storage_key ns' key' = Inr k \<Longrightarrow> ns = ns' \<and> key = key'"
  by (auto simp: res_simps nul_split_inject)

lemma ms_lock_Inr [res_simps]: "ms_lock st = Inr m \<longleftrightarrow> \<not> ms_poisoned st \<and> m = ms_records st"
  by (auto simp: ms_lock_def)

lemma ms_view_key: "storage_key ns key = Inr k \<Longrightarrow> ms_view st ns key = bt_get (ms_records st) k"
  by (simp add: ms_view_def)

text \<open>Changing one physical key changes one logical key.\<close>

lemma ms_view_change:
  assumes "storage_key ns key = Inr k" "bt_get m = (bt_get (ms_records st))(k := v)"
  shows "ms_view (st\<lparr>ms_records := m\<rparr>) = view_set ns key v (ms_view st)"
proof (intro ext)
  fix ns' key'
  show "ms_view (st\<lparr>ms_records := m\<rparr>) ns' key' = view_set ns key v (ms_view st) ns' key'"
  proof (cases "storage_key ns' key'")
    case (Inr k')
    have "k' = k \<longleftrightarrow> ns' = ns \<and> key' = key"
      by (metis storage_key_inject assms(1) Inr sum.inject(2))
    then show ?thesis using assms(2) by (simp add: ms_view_def view_set_def Inr)
  next
    case (Inl e)
    then have "\<not> (ns' = ns \<and> key' = key)" using assms(1) by force
    then show ?thesis using Inl by (auto simp: ms_view_def view_set_def)
  qed
qed

lemma ms_operation:
  assumes "ms_inv st" "operation_key b = Inr k"
  shows "ms_inv (st\<lparr>ms_records := apply_operation (b, k) (ms_records st)\<rparr>)"
    "ms_view (st\<lparr>ms_records := apply_operation (b, k) (ms_records st)\<rparr>) = view_operation b (ms_view st)"
  using assms
  by (cases b; auto simp: ms_inv_def bt_wf_insert bt_wf_remove bt_get_insert bt_get_remove
      intro!: ms_view_change)+

lemma ms_batch:
  assumes "ms_inv st" "res_mapM operation_key bs = Inr ks"
  shows "ms_inv (st\<lparr>ms_records := fold apply_operation (zip bs ks) (ms_records st)\<rparr>) \<and>
    ms_view (st\<lparr>ms_records := fold apply_operation (zip bs ks) (ms_records st)\<rparr>) =
    fold view_operation bs (ms_view st)"
  using assms
proof (induction bs arbitrary: st ks)
  case (Cons b bs)
  then obtain k ks' where ks: "ks = k # ks'" "operation_key b = Inr k"
      "res_mapM operation_key bs = Inr ks'"
    by (auto simp: res_simps)
  let ?st = "st\<lparr>ms_records := apply_operation (b, k) (ms_records st)\<rparr>"
  from Cons.IH [of ?st, OF ms_operation(1) [OF Cons.prems(1) ks(2)] ks(3)]
  show ?case by (simp add: ks(1) ms_operation(2) [OF Cons.prems(1) ks(2)])
qed simp

lemma ms_conditions:
  assumes "res_mapM (\<lambda>c. storage_key (bc_namespace c) (bc_key c)) cs = Inr ks"
  shows "(\<not> list_ex (\<lambda>(c, k). bt_get (ms_records st) k \<noteq> bc_expected c) (zip cs ks)) =
    conditions_hold cs (ms_view st)"
  using assms
proof (induction cs arbitrary: ks)
  case (Cons c cs)
  then show ?case
    by (auto simp: res_bind_Inr_iff conditions_hold_def ms_view_key)
qed (simp add: conditions_hold_def)

interpretation mem: durable_store memory_ops ms_inv ms_view
proof
  fix st ns key v
  assume "ms_inv st" "so_get memory_ops st ns key = Inr v"
  then show "v = ms_view st ns key"
    by (auto simp: memory_ops_def MemoryStore_get_def res_bind_Inr_iff ms_lock_Inr ms_view_key)
next
  fix st ns key expected v ok st'
  assume "ms_inv st" "so_compare_and_swap memory_ops st ns key expected v = Inr (ok, st')"
  then show "ms_inv st' \<and> (ok \<longleftrightarrow> ms_view st ns key = expected) \<and>
      (if ok then ms_view st' = view_set ns key (Some v) (ms_view st) else st' = st)"
    by (auto simp: memory_ops_def MemoryStore_compare_and_swap_def res_bind_Inr_iff ms_lock_Inr
        ms_view_key ms_inv_def bt_wf_insert bt_get_insert split: if_splits intro!: ms_view_change)
next
  fix st cs bs ok st'
  assume "ms_inv st" "so_apply_batch_if_all memory_ops st cs bs = Inr (ok, st')"
  then show "ms_inv st' \<and> (ok \<longleftrightarrow> conditions_hold cs (ms_view st)) \<and>
      (if ok then ms_view st' = fold view_operation bs (ms_view st) else st' = st)"
    using ms_batch [of st bs] ms_conditions [of cs _ st]
    by (auto simp: memory_ops_def MemoryStore_apply_batch_if_all_def res_bind_Inr_iff ms_lock_Inr
        split: if_splits)
qed

text \<open>A store whose lock is not poisoned never fails on valid keys.\<close>

definition mem_live :: "MemoryStore \<Rightarrow> bool" where
  "mem_live st \<longleftrightarrow> ms_inv st \<and> \<not> ms_poisoned st"

lemma memory_poisoned_unchanged:
  "so_compare_and_swap memory_ops st ns key expected v = Inr (ok, st') \<Longrightarrow>
    ms_poisoned st' = ms_poisoned st"
  "so_apply_batch_if_all memory_ops st cs bs = Inr (ok, st') \<Longrightarrow> ms_poisoned st' = ms_poisoned st"
  by (auto simp: memory_ops_def MemoryStore_compare_and_swap_def MemoryStore_apply_batch_if_all_def
      res_bind_Inr_iff split: if_splits)

interpretation live: durable_store memory_ops mem_live ms_view
proof
  fix st ns key v
  assume "mem_live st" "so_get memory_ops st ns key = Inr v"
  then show "v = ms_view st ns key" by (simp add: mem_live_def mem.get_law)
next
  fix st ns key expected v ok st'
  assume *: "mem_live st" "so_compare_and_swap memory_ops st ns key expected v = Inr (ok, st')"
  with mem.cas_law [OF _ *(2)] memory_poisoned_unchanged(1) [OF *(2)]
  show "mem_live st' \<and> (ok \<longleftrightarrow> ms_view st ns key = expected) \<and>
      (if ok then ms_view st' = view_set ns key (Some v) (ms_view st) else st' = st)"
    by (simp add: mem_live_def)
next
  fix st cs bs ok st'
  assume *: "mem_live st" "so_apply_batch_if_all memory_ops st cs bs = Inr (ok, st')"
  with mem.batch_law [OF _ *(2)] memory_poisoned_unchanged(2) [OF *(2)]
  show "mem_live st' \<and> (ok \<longleftrightarrow> conditions_hold cs (ms_view st)) \<and>
      (if ok then ms_view st' = fold view_operation bs (ms_view st) else st' = st)"
    by (simp add: mem_live_def)
qed

definition key_ok :: "string \<times> string \<Rightarrow> bool" where
  "key_ok k \<longleftrightarrow> NUL \<notin> set (fst k) \<and> NUL \<notin> set (snd k)"

lemma storage_key_ok: "key_ok (ns, key) \<Longrightarrow> storage_key ns key = Inr (ns @ [NUL] @ key)"
  by (simp add: key_ok_def storage_key_def)

lemma operation_key_ok: "key_ok (operation_target b) \<Longrightarrow> \<exists>k. operation_key b = Inr k"
  by (cases b) (simp_all add: storage_key_ok)

lemma res_mapM_ok: "\<forall>x \<in> set xs. \<exists>y. f x = Inr y \<Longrightarrow> \<exists>ys. res_mapM f xs = Inr ys"
  by (induction xs) auto

lemma live_get: "mem_live st \<Longrightarrow> key_ok (ns, key) \<Longrightarrow> so_get memory_ops st ns key = Inr (ms_view st ns key)"
  by (simp add: memory_ops_def MemoryStore_get_def mem_live_def ms_lock_def storage_key_ok ms_view_def)

lemma live_batch:
  assumes "mem_live st" "\<forall>c \<in> set cs. key_ok (bc_namespace c, bc_key c)"
    "\<forall>b \<in> set bs. key_ok (operation_target b)"
  shows "\<exists>ok st'. so_apply_batch_if_all memory_ops st cs bs = Inr (ok, st')"
proof -
  obtain ks where "res_mapM (\<lambda>c. storage_key (bc_namespace c) (bc_key c)) cs = Inr ks"
    using res_mapM_ok [of cs "\<lambda>c. storage_key (bc_namespace c) (bc_key c)"] assms(2)
    by (auto simp: storage_key_ok)
  moreover obtain js where "res_mapM operation_key bs = Inr js"
    using res_mapM_ok [of bs operation_key] assms(3) by (auto simp: operation_key_ok)
  ultimately show ?thesis
    using assms(1)
    by (auto simp: memory_ops_def MemoryStore_apply_batch_if_all_def mem_live_def ms_lock_def)
qed

lemma live_put_if_absent:
  assumes "mem_live st" "key_ok (ns, key)"
  shows "\<exists>ok st'. put_if_absent memory_ops st ns key v = Inr (ok, st')"
  using assms
  by (auto simp: put_if_absent_def memory_ops_def MemoryStore_compare_and_swap_def mem_live_def
      ms_lock_def storage_key_ok)

section \<open>Scans return the namespace\<close>

definition in_namespace :: "string \<Rightarrow> string \<times> bytes \<Rightarrow> bool" where
  "in_namespace ns e \<longleftrightarrow> take (Suc (length ns)) (fst e) = ns @ [NUL]"

definition logical_record :: "string \<Rightarrow> string \<times> bytes \<Rightarrow> NamespaceRecord" where
  "logical_record ns e = \<lparr>nr_key = drop (Suc (length ns)) (fst e), nr_value = snd e\<rparr>"

text \<open>The records of a namespace in key order, and those beyond a cursor.\<close>

definition namespace_records :: "MemoryStore \<Rightarrow> string \<Rightarrow> NamespaceRecord list" where
  "namespace_records st ns = map (logical_record ns) (filter (in_namespace ns) (ms_records st))"

definition records_after :: "string option \<Rightarrow> NamespaceRecord list \<Rightarrow> NamespaceRecord list" where
  "records_after cursor rs = filter (\<lambda>r. case cursor of None \<Rightarrow> True | Some c \<Rightarrow> c < nr_key r) rs"

lemma NUL_least: "NUL \<le> c"
  by (simp add: NUL_def less_eq_char_def)

lemma less_SOH: "c < CHR 0x01 \<longleftrightarrow> c = NUL"
proof
  assume "c < CHR 0x01"
  then have "of_char c < (1 :: nat)" by (simp add: less_char_def)
  then have "of_char c = (of_char NUL :: nat)" by (simp add: NUL_def)
  then show "c = NUL" by simp
qed (simp add: NUL_def less_char_def)

lemma range_is_namespace:
  "ns @ [NUL] \<le> k \<and> k < ns @ [CHR 0x01] \<longleftrightarrow> take (Suc (length ns)) k = ns @ [NUL]"
proof (induction ns arbitrary: k)
  case Nil
  show ?case by (cases k) (auto simp: less_SOH)
next
  case (Cons c ns)
  show ?case
  proof (cases k)
    case (Cons a ks)
    show ?thesis using Cons.IH [of ks] by (cases "a = c") (auto simp: Cons)
  qed simp
qed

lemma in_namespace_conv: "in_namespace ns (k, v) \<longleftrightarrow> (\<exists>key. k = ns @ NUL # key)"
proof
  assume "in_namespace ns (k, v)"
  then have "k = (ns @ [NUL]) @ drop (Suc (length ns)) k"
    by (metis append_take_drop_id fst_conv in_namespace_def)
  then show "\<exists>key. k = ns @ NUL # key" by (metis append.assoc append_Cons append_Nil)
qed (auto simp: in_namespace_def)

lemma append_less_iff: "(xs :: 'a::linorder list) @ ys < xs @ zs \<longleftrightarrow> ys < zs"
  by (induction xs) auto

lemma namespace_records_sorted:
  assumes "ms_inv st"
  shows "sorted_wrt (<) (map nr_key (namespace_records st ns))"
proof -
  have "sorted_wrt (\<lambda>a b. fst a < fst b) (filter (in_namespace ns) (ms_records st))"
    using assms by (auto simp: ms_inv_def bt_wf_def sorted_wrt_map intro: sorted_wrt_filter)
  moreover have "nr_key (logical_record ns a) < nr_key (logical_record ns b)"
    if "in_namespace ns a" "in_namespace ns b" "fst a < fst b" for a b
    using that by (cases a; cases b) (auto simp: in_namespace_conv logical_record_def append_less_iff)
  ultimately show ?thesis
    unfolding namespace_records_def map_map sorted_wrt_map comp_def
    by (rule sorted_wrt_mono_rel [rotated]) auto
qed

lemma namespace_records_view:
  assumes "ms_inv st" "NUL \<notin> set ns" "NUL \<notin> set key"
  shows "\<lparr>nr_key = key, nr_value = v\<rparr> \<in> set (namespace_records st ns) \<longleftrightarrow> ms_view st ns key = Some v"
proof -
  have "\<lparr>nr_key = key, nr_value = v\<rparr> \<in> set (namespace_records st ns) \<longleftrightarrow>
      (ns @ NUL # key, v) \<in> set (ms_records st)"
    by (force simp: namespace_records_def logical_record_def image_iff in_namespace_conv)
  then show ?thesis
    using assms by (simp add: bt_get_iff ms_inv_def ms_view_def storage_key_def)
qed

lemma strip_prefix_namespace:
  "in_namespace ns (k, v) \<Longrightarrow> strip_prefix (ns @ [NUL]) k = Some (drop (Suc (length ns)) k)"
  by (simp add: in_namespace_def strip_prefix_def)

lemma append_scanned_record_Inr:
  "append_scanned_record rs t key v limits = Inr (rs', t') \<Longrightarrow> rs' = rs @ [\<lparr>nr_key = key, nr_value = v\<rparr>]"
  by (auto simp: append_scanned_record_def res_simps)

lemma scan_fold:
  assumes "\<forall>e \<in> set es. in_namespace ns e"
    and "res_foldM (\<lambda>(records, total_bytes) (key, v).
         case strip_prefix (ns @ [NUL]) key of
           None \<Rightarrow> Inr (records, total_bytes)
         | Some logical_key \<Rightarrow>
             append_scanned_record records total_bytes logical_key v limits) (rs, t) es = Inr (rs', t')"
  shows "rs' = rs @ map (logical_record ns) es"
  using assms
proof (induction es arbitrary: rs t)
  case (Cons e es)
  obtain k v where e: "e = (k, v)" by force
  with Cons.prems obtain rs1 t1 where
    "append_scanned_record rs t (drop (Suc (length ns)) k) v limits = Inr (rs1, t1)"
    and *: "rs' = rs1 @ map (logical_record ns) es"
    using Cons.IH by (auto simp: res_bind_Inr_iff strip_prefix_namespace)
  from append_scanned_record_Inr [OF this(1)] * e show ?case by (simp add: logical_record_def)
qed simp

lemma scan_namespace_Inr:
  assumes "MemoryStore_scan_namespace st ns limits = Inr rs"
  shows "rs = namespace_records st ns"
proof -
  have "filter (\<lambda>(key, v). ns @ [NUL] \<le> key \<and> key < ns @ [CHR 0x01]) (ms_records st) =
      filter (in_namespace ns) (ms_records st)"
    by (rule filter_cong [OF refl]) (auto simp: range_is_namespace in_namespace_def)
  with assms show ?thesis
    using scan_fold [of "filter (in_namespace ns) (ms_records st)" ns limits "[]" 0]
    by (auto simp: MemoryStore_scan_namespace_def namespace_upper_def res_simps
        namespace_records_def split: if_splits)
qed

text \<open>A page is a prefix of what remains, and is empty only when nothing remains.\<close>

lemma append_page_record_Some:
  "append_page_record rs t key v limits = Inr (Some (rs', t')) \<Longrightarrow>
    rs' = rs @ [\<lparr>nr_key = key, nr_value = v\<rparr>]"
  by (auto simp: append_page_record_def res_simps split: if_splits)

lemma scan_page_prefix:
  assumes "\<forall>e \<in> set es. in_namespace ns e"
    and "scan_page (ns @ [NUL]) limits rs t es = Inr page"
  shows "\<exists>rest. rs @ map (logical_record ns) es = np_records page @ rest \<and>
    (np_has_more page \<longleftrightarrow> rest \<noteq> []) \<and> (np_has_more page \<longrightarrow> np_records page \<noteq> [])"
  using assms
proof (induction es arbitrary: rs t)
  case (Cons e es)
  obtain k v where e: "e = (k, v)" by force
  let ?key = "drop (Suc (length ns)) k"
  have rec: "logical_record ns e = \<lparr>nr_key = ?key, nr_value = v\<rparr>"
    by (simp add: e logical_record_def)
  from Cons.prems e obtain ap where ap: "append_page_record rs t ?key v limits = Inr ap"
    by (auto simp: res_bind_Inr_iff strip_prefix_namespace)
  show ?case
  proof (cases ap)
    case None
    then show ?thesis using Cons.prems e ap
      by (auto simp: strip_prefix_namespace split: if_splits)
  next
    case (Some q)
    obtain rs1 t1 where q: "q = (rs1, t1)" by force
    with ap Some have "rs1 = rs @ [logical_record ns e]"
      by (simp add: rec append_page_record_Some)
    with Cons.IH [of rs1 t1] Cons.prems e ap Some q show ?thesis
      by (auto simp: strip_prefix_namespace)
  qed
qed auto

text \<open>Records that fit a page of their own never stop a scan with an error.\<close>

definition admissible_record :: "ScanLimits \<Rightarrow> NamespaceRecord \<Rightarrow> bool" where
  "admissible_record limits r \<longleftrightarrow>
     length (nr_value r) \<le> unat (sl_maximum_value_bytes limits) \<and>
     length (nr_key r) + length (nr_value r) \<le> unat (sl_maximum_total_bytes limits) \<and>
     unat (sl_maximum_total_bytes limits) < 2 ^ 63"

lemma u64_try_from_code [code]:
  "u64_try_from n = (let w = of_nat n in if unat w = n then Some w else None)"
proof -
  have "unat (of_nat n :: u64) < 2 ^ 64" using unsigned_less [of "of_nat n :: u64"] by simp
  then show ?thesis by (auto simp: u64_try_from_def unat_of_nat Let_def)
qed

lemma u64_try_from_Some: "n < 2 ^ 64 \<Longrightarrow> u64_try_from n = Some (of_nat n)"
  by (simp add: u64_try_from_def)

lemma unat_of_nat_u64: "n < 2 ^ 64 \<Longrightarrow> unat (of_nat n :: u64) = n"
  by (simp add: unat_of_nat)

lemma append_page_record_total:
  assumes "admissible_record limits \<lparr>nr_key = key, nr_value = v\<rparr>"
    and "unat t \<le> unat (sl_maximum_total_bytes limits)"
    and "rs = [] \<longrightarrow> t = 0" "sl_maximum_records limits > 0"
  shows "(\<exists>rs' t'. append_page_record rs t key v limits = Inr (Some (rs', t')) \<and>
      unat t' \<le> unat (sl_maximum_total_bytes limits) \<and> rs' \<noteq> []) \<or>
    append_page_record rs t key v limits = Inr None \<and> rs \<noteq> []"
proof -
  let ?M = "unat (sl_maximum_total_bytes limits)"
  have b: "length v < 2 ^ 64" "length key < 2 ^ 64" "length key + length v < 2 ^ 64"
    using assms(1) by (auto simp: admissible_record_def)
  obtain r where r: "checked_add (of_nat (length key)) (of_nat (length v) :: u64) = Some r"
      and ur: "unat r = length key + length v"
    using b by (auto simp: checked_add_def unat_of_nat_u64 unat_word_ariths)
  obtain nt where nt: "checked_add t r = Some nt" "unat nt = unat t + unat r"
    using assms(1,2) ur by (auto simp: checked_add_def unat_word_ariths admissible_record_def)
  have "\<not> of_nat (length v) > sl_maximum_value_bytes limits" "\<not> r > sl_maximum_total_bytes limits"
    using assms(1) ur b by (auto simp: admissible_record_def word_less_nat_alt unat_of_nat_u64)
  then have eq: "append_page_record rs t key v limits =
      (if length rs \<ge> sl_maximum_records limits \<or> nt > sl_maximum_total_bytes limits then Inr None
       else Inr (Some (rs @ [\<lparr>nr_key = key, nr_value = v\<rparr>], nt)))"
    using b r nt(1) by (simp add: append_page_record_def u64_try_from_Some)
  have "rs = [] \<Longrightarrow> \<not> nt > sl_maximum_total_bytes limits"
    using assms(1,3) nt(2) ur by (simp add: word_less_nat_alt admissible_record_def)
  then show ?thesis
    unfolding eq using assms(4) by (cases "rs = []") (auto simp: word_less_nat_alt not_less)
qed

lemma scan_page_total:
  assumes "\<forall>e \<in> set es. in_namespace ns e"
    and "\<forall>e \<in> set es. admissible_record limits (logical_record ns e)"
    and "unat t \<le> unat (sl_maximum_total_bytes limits)"
    and "rs = [] \<longrightarrow> t = 0" "sl_maximum_records limits > 0"
  shows "\<exists>page. scan_page (ns @ [NUL]) limits rs t es = Inr page"
  using assms
proof (induction es arbitrary: rs t)
  case (Cons e es)
  obtain k v where e: "e = (k, v)" by force
  have adm: "admissible_record limits \<lparr>nr_key = drop (Suc (length ns)) k, nr_value = v\<rparr>"
    using Cons.prems(2) e by (simp add: logical_record_def)
  from append_page_record_total [OF adm Cons.prems(3-5)] Cons.prems Cons.IH show ?case
    by (auto simp: e strip_prefix_namespace)
qed simp

lemma cursor_in_range:
  "ns @ NUL # c < k \<and> k < ns @ [CHR 0x01] \<longleftrightarrow>
    take (Suc (length ns)) k = ns @ [NUL] \<and> c < drop (Suc (length ns)) k"
proof -
  have "ns @ [NUL] \<le> ns @ NUL # c"
    using append_less_iff [of "ns @ [NUL]" c "[]"] by (simp add: linorder_not_less [symmetric])
  then have "ns @ NUL # c < k \<and> k < ns @ [CHR 0x01] \<longleftrightarrow>
      (ns @ [NUL] \<le> k \<and> k < ns @ [CHR 0x01]) \<and> ns @ NUL # c < k"
    by auto
  also have "\<dots> \<longleftrightarrow> take (Suc (length ns)) k = ns @ [NUL] \<and> ns @ NUL # c < k"
    by (simp only: range_is_namespace)
  also have "\<dots> \<longleftrightarrow> take (Suc (length ns)) k = ns @ [NUL] \<and> c < drop (Suc (length ns)) k"
    using append_less_iff [of "ns @ [NUL]" c "drop (Suc (length ns)) k"]
    by (metis append.assoc append_Cons append_Nil append_take_drop_id)
  finally show ?thesis .
qed

lemma scan_after_eq:
  assumes "NUL \<notin> set ns" "case cursor of None \<Rightarrow> True | Some c \<Rightarrow> NUL \<notin> set c" "\<not> ms_poisoned st"
  shows "\<exists>es. (\<forall>e \<in> set es. in_namespace ns e) \<and> set es \<subseteq> set (ms_records st) \<and>
    map (logical_record ns) es = records_after cursor (namespace_records st ns) \<and>
    MemoryStore_scan_namespace_after st ns cursor limits = scan_page (ns @ [NUL]) limits [] 0 es"
proof -
  let ?lower = "case cursor of None \<Rightarrow> ns @ [NUL] | Some c \<Rightarrow> ns @ NUL # c"
  let ?q = "\<lambda>e. in_namespace ns e \<and>
      (case cursor of None \<Rightarrow> True | Some c \<Rightarrow> c < nr_key (logical_record ns e))"
  have f: "filter (\<lambda>(key, v). (if cursor \<noteq> None then ?lower < key else ?lower \<le> key) \<and>
      key < ns @ [CHR 0x01]) (ms_records st) = filter ?q (ms_records st)"
    by (rule filter_cong [OF refl])
      (cases cursor; clarsimp simp: range_is_namespace cursor_in_range in_namespace_def
        logical_record_def)
  have "map (logical_record ns) (filter ?q (ms_records st)) =
      records_after cursor (namespace_records st ns)"
    by (auto simp: records_after_def namespace_records_def filter_map comp_def conj_commute
        intro!: arg_cong [where f = "map _"] filter_cong)
  moreover have "MemoryStore_scan_namespace_after st ns cursor limits =
      scan_page (ns @ [NUL]) limits [] 0 (filter ?q (ms_records st))"
    using assms f by (cases cursor) (simp_all add: MemoryStore_scan_namespace_after_def
        storage_key_def namespace_upper_def ms_lock_def)
  ultimately show ?thesis by (intro exI [of _ "filter ?q (ms_records st)"]) auto
qed

lemma scan_after_Inr:
  assumes "MemoryStore_scan_namespace_after st ns cursor limits = Inr page"
  shows "\<exists>rest. records_after cursor (namespace_records st ns) = np_records page @ rest \<and>
    (np_has_more page \<longleftrightarrow> rest \<noteq> []) \<and> (np_has_more page \<longrightarrow> np_records page \<noteq> [])"
proof -
  have "NUL \<notin> set ns" "case cursor of None \<Rightarrow> True | Some c \<Rightarrow> NUL \<notin> set c" "\<not> ms_poisoned st"
    using assms by (auto simp: MemoryStore_scan_namespace_after_def res_simps split: option.splits)
  from scan_after_eq [OF this, of limits] obtain es where
    es: "\<forall>e \<in> set es. in_namespace ns e"
      "map (logical_record ns) es = records_after cursor (namespace_records st ns)"
      "scan_page (ns @ [NUL]) limits [] 0 es = Inr page"
    using assms by auto
  from scan_page_prefix [OF es(1,3)] show ?thesis by (simp add: es(2))
qed

lemma scan_after_total:
  assumes "NUL \<notin> set ns" "case cursor of None \<Rightarrow> True | Some c \<Rightarrow> NUL \<notin> set c" "\<not> ms_poisoned st"
    and "\<forall>r \<in> set (namespace_records st ns). admissible_record limits r"
    and "sl_maximum_records limits > 0"
  shows "\<exists>page. MemoryStore_scan_namespace_after st ns cursor limits = Inr page"
proof -
  obtain es where es: "\<forall>e \<in> set es. in_namespace ns e" "set es \<subseteq> set (ms_records st)"
      "MemoryStore_scan_namespace_after st ns cursor limits = scan_page (ns @ [NUL]) limits [] 0 es"
    using scan_after_eq [OF assms(1-3)] by blast
  then have "\<forall>e \<in> set es. admissible_record limits (logical_record ns e)"
    using assms(4) by (auto simp: namespace_records_def)
  with es assms(5) show ?thesis by (simp add: scan_page_total)
qed

end
