(* ===== verification/Protocol_Journal.thy ===== *)
theory Protocol_Journal
  imports Durable_Store
begin

text \<open>
  The immutable protocol journal and the signing guard of \<^verbatim>\<open>crates/meshmine-storage/src/lib.rs\<close>
  (\<^verbatim>\<open>ProtocolRecordKind\<close>, \<^verbatim>\<open>ProtocolJournal\<close>, \<^verbatim>\<open>DurableSignGuard\<close>), over any store that satisfies the
  contract \<^verbatim>\<open>durable_store\<close>.

  Other writers run between the calls of an operation. The environment is a function
  \<^verbatim>\<open>env :: nat \<Rightarrow> 'st \<Rightarrow> 'st\<close>: \<^verbatim>\<open>env n\<close> is what they do before the n-th store call, and an operation
  works on a pair of store and call counter. With the identity as environment this is the
  sequential semantics. The hex crate is a parameter \<^verbatim>\<open>hx\<close>.
\<close>

datatype ProtocolRecordKind =
  OperatorSequence | PayoutBucket | BodyPackage | BodyValidation | ErasureDescriptor | BodyShard |
  ParentCertificate | MaskSession | MpcTranscript | OpeningShare | Assignment | GatewayAssignment |
  GatewayContextManifest | GatewayCaptureEnvelope | GatewayCaptureReceipt |
  GatewayAssignmentTransition | GatewayAssignmentDrain | CoreAssignmentDrainReceipt |
  AcceptedShare | AcceptedWorkKey | ReceiptBatch | SessionClose | PayoutSnapshot | PayoutPlan |
  PayoutRecoveryCheckpoint | CanonicalPlanPayment

definition ProtocolRecordKind_ALL :: "ProtocolRecordKind list" where
  "ProtocolRecordKind_ALL = [OperatorSequence, PayoutBucket, BodyPackage, BodyValidation,
     ErasureDescriptor, BodyShard, ParentCertificate, MaskSession, MpcTranscript, OpeningShare,
     Assignment, GatewayAssignment, GatewayContextManifest, GatewayCaptureEnvelope,
     GatewayCaptureReceipt, GatewayAssignmentTransition, GatewayAssignmentDrain,
     CoreAssignmentDrainReceipt, AcceptedShare, AcceptedWorkKey, ReceiptBatch, SessionClose,
     PayoutSnapshot, PayoutPlan, PayoutRecoveryCheckpoint, CanonicalPlanPayment]"

fun ProtocolRecordKind_label :: "ProtocolRecordKind \<Rightarrow> string" where
  "ProtocolRecordKind_label OperatorSequence = ''operator-sequence''"
| "ProtocolRecordKind_label PayoutBucket = ''payout-bucket''"
| "ProtocolRecordKind_label BodyPackage = ''body-package''"
| "ProtocolRecordKind_label BodyValidation = ''body-validation''"
| "ProtocolRecordKind_label ErasureDescriptor = ''erasure-descriptor''"
| "ProtocolRecordKind_label BodyShard = ''body-shard''"
| "ProtocolRecordKind_label ParentCertificate = ''parent-certificate''"
| "ProtocolRecordKind_label MaskSession = ''mask-session''"
| "ProtocolRecordKind_label MpcTranscript = ''mpc-transcript''"
| "ProtocolRecordKind_label OpeningShare = ''opening-share''"
| "ProtocolRecordKind_label Assignment = ''assignment''"
| "ProtocolRecordKind_label GatewayAssignment = ''gateway-assignment''"
| "ProtocolRecordKind_label GatewayContextManifest = ''gateway-context-manifest''"
| "ProtocolRecordKind_label GatewayCaptureEnvelope = ''gateway-capture-envelope''"
| "ProtocolRecordKind_label GatewayCaptureReceipt = ''gateway-capture-receipt''"
| "ProtocolRecordKind_label GatewayAssignmentTransition = ''gateway-assignment-transition''"
| "ProtocolRecordKind_label GatewayAssignmentDrain = ''gateway-assignment-drain''"
| "ProtocolRecordKind_label CoreAssignmentDrainReceipt = ''core-assignment-drain-receipt''"
| "ProtocolRecordKind_label AcceptedShare = ''accepted-share''"
| "ProtocolRecordKind_label AcceptedWorkKey = ''accepted-work-key''"
| "ProtocolRecordKind_label ReceiptBatch = ''receipt-batch''"
| "ProtocolRecordKind_label SessionClose = ''session-close''"
| "ProtocolRecordKind_label PayoutSnapshot = ''payout-snapshot''"
| "ProtocolRecordKind_label PayoutPlan = ''payout-plan''"
| "ProtocolRecordKind_label PayoutRecoveryCheckpoint = ''payout-recovery-checkpoint''"
| "ProtocolRecordKind_label CanonicalPlanPayment = ''canonical-plan-payment''"

fun kind_namespace :: "ProtocolRecordKind \<Rightarrow> string" where
  "kind_namespace OperatorSequence = ''journal/operator-sequence/v2''"
| "kind_namespace PayoutBucket = ''journal/payout-bucket/v2''"
| "kind_namespace BodyPackage = ''journal/body-package/v2''"
| "kind_namespace BodyValidation = ''journal/body-validation/v2''"
| "kind_namespace ErasureDescriptor = ''journal/erasure-descriptor/v2''"
| "kind_namespace BodyShard = ''journal/body-shard/v2''"
| "kind_namespace ParentCertificate = ''journal/parent-certificate/v2''"
| "kind_namespace MaskSession = ''journal/mask-session/v2''"
| "kind_namespace MpcTranscript = ''journal/mpc-transcript/v2''"
| "kind_namespace OpeningShare = ''journal/opening-share/v2''"
| "kind_namespace Assignment = ''journal/assignment/v2''"
| "kind_namespace GatewayAssignment = ''journal/gateway-assignment/v1''"
| "kind_namespace GatewayContextManifest = ''journal/gateway-context-manifest/v1''"
| "kind_namespace GatewayCaptureEnvelope = ''journal/gateway-capture-envelope/v1''"
| "kind_namespace GatewayCaptureReceipt = ''journal/gateway-capture-receipt/v1''"
| "kind_namespace GatewayAssignmentTransition = ''journal/gateway-assignment-transition/v1''"
| "kind_namespace GatewayAssignmentDrain = ''journal/gateway-assignment-drain/v1''"
| "kind_namespace CoreAssignmentDrainReceipt = ''journal/core-assignment-drain-receipt/v1''"
| "kind_namespace AcceptedShare = ''journal/accepted-share/v2''"
| "kind_namespace AcceptedWorkKey = ''journal/accepted-work-key/v2''"
| "kind_namespace ReceiptBatch = ''journal/receipt-batch/v2''"
| "kind_namespace SessionClose = ''journal/session-close/v2''"
| "kind_namespace PayoutSnapshot = ''journal/payout-snapshot/v2''"
| "kind_namespace PayoutPlan = ''journal/payout-plan/v2''"
| "kind_namespace PayoutRecoveryCheckpoint = ''journal/payout-recovery-checkpoint/v1''"
| "kind_namespace CanonicalPlanPayment = ''journal/canonical-plan-payment/v2''"

datatype DurableInvariantError =
  Storage StorageError | ImmutableConflict | SupplementalJournalTarget | EmptyJournalBatch |
  DuplicateJournalKey | ConflictingSignature | InvalidRecoveryKey | InvalidRecoveryPage

record RecoveredProtocolRecord =
  rp_kind :: ProtocolRecordKind
  rp_durable_key :: bytes
  rp_value :: bytes

record ProtocolRecovery =
  pr_records :: "RecoveredProtocolRecord list"
  pr_total_value_bytes :: u64
  pr_total_scan_bytes :: u64

record ProtocolRecoveryPage =
  pp_recovery :: ProtocolRecovery
  pp_next_cursor :: "bytes option"

record JournalBatchRecord =
  jb_kind :: ProtocolRecordKind
  jb_durable_key :: bytes
  jb_value :: bytes

definition JournalBatchRecord_new :: "ProtocolRecordKind \<Rightarrow> bytes \<Rightarrow> bytes \<Rightarrow> JournalBatchRecord" where
  "JournalBatchRecord_new kind durable_key v =
     \<lparr>jb_kind = kind, jb_durable_key = durable_key, jb_value = v\<rparr>"

datatype JournalBatchOutcome = Committed | ExactRecord | PreconditionMismatch

text \<open>The hex crate: \<^verbatim>\<open>hex::encode\<close> and \<^verbatim>\<open>hex::decode\<close>.\<close>

record Hex =
  hex_encode :: "bytes \<Rightarrow> string"
  hex_decode :: "string \<Rightarrow> bytes option"

section \<open>Store calls among other writers\<close>

type_synonym 'st env = "nat \<Rightarrow> 'st \<Rightarrow> 'st"
type_synonym ('st, 'a) action = "'st \<times> nat \<Rightarrow> (DurableInvariantError + 'a) \<times> ('st \<times> nat)"

definition act_return :: "'a \<Rightarrow> ('st, 'a) action" where
  "act_return a w = (Inr a, w)"

definition act_err :: "DurableInvariantError \<Rightarrow> ('st, 'a) action" where
  "act_err e w = (Inl e, w)"

definition act_bind :: "('st, 'a) action \<Rightarrow> ('a \<Rightarrow> ('st, 'b) action) \<Rightarrow> ('st, 'b) action" where
  "act_bind m f w = (case m w of (Inl e, w') \<Rightarrow> (Inl e, w') | (Inr a, w') \<Rightarrow> f a w')"

text \<open>A call that reads, and one that may write.\<close>

definition act_read :: "'st env \<Rightarrow> ('st \<Rightarrow> StorageError + 'a) \<Rightarrow> ('st, 'a) action" where
  "act_read env f = (\<lambda>(st, n). (map_err Storage (f (env n st)), (env n st, Suc n)))"

definition act_write :: "'st env \<Rightarrow> ('st \<Rightarrow> StorageError + 'a \<times> 'st) \<Rightarrow> ('st, 'a) action" where
  "act_write env f = (\<lambda>(st, n). case f (env n st) of
     Inl e \<Rightarrow> (Inl (Storage e), (env n st, Suc n))
   | Inr (a, st') \<Rightarrow> (Inr a, (st', Suc n)))"

section \<open>Persisting\<close>

type_synonym prepared = "(string \<times> string \<times> bytes) list"

definition prepare_record ::
  "Hex \<Rightarrow> prepared \<Rightarrow> JournalBatchRecord \<Rightarrow> DurableInvariantError + prepared" where
  "prepare_record hx prepared record =
     (let ns = kind_namespace (jb_kind record); key = hex_encode hx (jb_durable_key record) in
      if list_ex (\<lambda>(existing_ns, existing_key, _). existing_ns = ns \<and> existing_key = key) prepared
      then Inl DuplicateJournalKey
      else Inr (prepared @ [(ns, key, jb_value record)]))"

definition targets_requested_record :: "prepared \<Rightarrow> string \<Rightarrow> string \<Rightarrow> bool" where
  "targets_requested_record prepared ns key =
     list_ex (\<lambda>(record_ns, record_key, _). record_ns = ns \<and> record_key = key) prepared"

definition targets_journal :: "BatchOperation \<Rightarrow> bool" where
  "targets_journal operation =
     list_ex (\<lambda>kind. kind_namespace kind = fst (operation_target operation)) ProtocolRecordKind_ALL"

fun inspect :: "'st store_ops \<Rightarrow> 'st env \<Rightarrow> prepared \<Rightarrow> ('st, bool list) action" where
  "inspect ops env [] = act_return []"
| "inspect ops env ((ns, key, expected_value) # rest) =
     act_bind (act_read env (\<lambda>st. so_get ops st ns key)) (\<lambda>found. case found of
       None \<Rightarrow> act_bind (inspect ops env rest) (\<lambda>exact. act_return (False # exact))
     | Some existing \<Rightarrow>
         if existing = expected_value
         then act_bind (inspect ops env rest) (\<lambda>exact. act_return (True # exact))
         else act_err ImmutableConflict)"

definition attempt_conditions ::
  "BatchCondition list \<Rightarrow> prepared \<Rightarrow> bool list \<Rightarrow> BatchCondition list" where
  "attempt_conditions conditions prepared observed =
     conditions @ map (\<lambda>((ns, key, expected_value), is_exact).
       if is_exact then BatchCondition_equals ns key expected_value
       else BatchCondition_absent ns key) (zip prepared observed)"

text \<open>The loop; its counter is the number of rounds left.\<close>

fun persist_rounds ::
  "'st store_ops \<Rightarrow> 'st env \<Rightarrow> prepared \<Rightarrow> BatchCondition list \<Rightarrow> BatchOperation list \<Rightarrow> nat \<Rightarrow>
   ('st, JournalBatchOutcome) action" where
  "persist_rounds ops env prepared conditions operations 0 =
     act_err (Storage (Backend ''immutable journal conditions did not stabilize''))"
| "persist_rounds ops env prepared conditions operations (Suc rounds) =
     act_bind (inspect ops env prepared) (\<lambda>observed.
     act_bind (act_write env (\<lambda>st. so_apply_batch_if_all ops st
       (attempt_conditions conditions prepared observed) operations)) (\<lambda>applied.
     if applied then act_return Committed
     else
     act_bind (inspect ops env prepared) (\<lambda>after.
     if after = observed then
       act_return (if list_all (\<lambda>is_exact. is_exact) after then ExactRecord else PreconditionMismatch)
     else if list_ex (\<lambda>(was_exact, is_exact). was_exact \<and> \<not> is_exact) (zip observed after) then
       act_err ImmutableConflict
     else persist_rounds ops env prepared conditions operations rounds)))"

definition persist_records_with_conditions_and_batch ::
  "Hex \<Rightarrow> 'st store_ops \<Rightarrow> 'st env \<Rightarrow> JournalBatchRecord list \<Rightarrow> BatchCondition list \<Rightarrow>
   BatchOperation list \<Rightarrow> ('st, JournalBatchOutcome) action" where
  "persist_records_with_conditions_and_batch hx ops env records conditions supplemental_operations =
     (if records = [] then act_err EmptyJournalBatch
      else case res_foldM (prepare_record hx) [] records of
        Inl e \<Rightarrow> act_err e
      | Inr prepared \<Rightarrow>
          if list_ex (\<lambda>c. targets_requested_record prepared (bc_namespace c) (bc_key c)) conditions
             \<or> list_ex targets_journal supplemental_operations
          then act_err SupplementalJournalTarget
          else persist_rounds ops env prepared conditions
            (map (\<lambda>(ns, key, v). Put ns key v) prepared @ supplemental_operations)
            (Suc (length records)))"

definition persist_with_conditions_and_batch ::
  "Hex \<Rightarrow> 'st store_ops \<Rightarrow> 'st env \<Rightarrow> ProtocolRecordKind \<Rightarrow> bytes \<Rightarrow> bytes \<Rightarrow>
   BatchCondition list \<Rightarrow> BatchOperation list \<Rightarrow> ('st, JournalBatchOutcome) action" where
  "persist_with_conditions_and_batch hx ops env kind durable_key v conditions supplemental_operations =
     persist_records_with_conditions_and_batch hx ops env
       [JournalBatchRecord_new kind durable_key v] conditions supplemental_operations"

definition persist_with_batch ::
  "Hex \<Rightarrow> 'st store_ops \<Rightarrow> 'st env \<Rightarrow> ProtocolRecordKind \<Rightarrow> bytes \<Rightarrow> bytes \<Rightarrow>
   BatchOperation list \<Rightarrow> ('st, unit) action" where
  "persist_with_batch hx ops env kind durable_key v supplemental_operations =
     act_bind (persist_with_conditions_and_batch hx ops env kind durable_key v []
       supplemental_operations) (\<lambda>outcome. case outcome of
         Committed \<Rightarrow> act_return ()
       | ExactRecord \<Rightarrow> act_return ()
       | PreconditionMismatch \<Rightarrow> act_err ImmutableConflict)"

definition persist ::
  "Hex \<Rightarrow> 'st store_ops \<Rightarrow> 'st env \<Rightarrow> ProtocolRecordKind \<Rightarrow> bytes \<Rightarrow> bytes \<Rightarrow> ('st, unit) action" where
  "persist hx ops env kind durable_key v = persist_with_batch hx ops env kind durable_key v []"

section \<open>Reading back\<close>

definition journal_load ::
  "Hex \<Rightarrow> 'st store_ops \<Rightarrow> 'st \<Rightarrow> ProtocolRecordKind \<Rightarrow> bytes \<Rightarrow>
   DurableInvariantError + bytes option" where
  "journal_load hx ops st kind durable_key =
     map_err Storage (so_get ops st (kind_namespace kind) (hex_encode hx durable_key))"

text \<open>One round of \<^verbatim>\<open>decode_protocol_records\<close>; the state is the recovery so far and the previous key.\<close>

definition decode_protocol_record ::
  "Hex \<Rightarrow> ProtocolRecordKind \<Rightarrow> ProtocolRecovery \<times> string option \<Rightarrow> NamespaceRecord \<Rightarrow>
   DurableInvariantError + ProtocolRecovery \<times> string option" where
  "decode_protocol_record hx kind = (\<lambda>(recovery, previous_key) record.
     if (case previous_key of None \<Rightarrow> False | Some previous \<Rightarrow> previous \<ge> nr_key record)
     then Inl InvalidRecoveryPage
     else
     res_bind (ok_or InvalidRecoveryKey (hex_decode hx (nr_key record))) (\<lambda>durable_key.
     if hex_encode hx durable_key \<noteq> nr_key record then Inl InvalidRecoveryKey
     else
     res_bind (ok_or (Storage ScanLimit) (u64_try_from (length (nr_key record)))) (\<lambda>key_bytes.
     res_bind (ok_or (Storage ScanLimit) (u64_try_from (length (nr_value record)))) (\<lambda>value_bytes.
     res_bind (ok_or (Storage ScanLimit)
       (Option.bind (checked_add (pr_total_scan_bytes recovery) key_bytes)
         (\<lambda>total. checked_add total value_bytes))) (\<lambda>total_scan_bytes.
     res_bind (ok_or (Storage ScanLimit)
       (checked_add (pr_total_value_bytes recovery) value_bytes)) (\<lambda>total_value_bytes.
     Inr (\<lparr>pr_records = pr_records recovery @
             [\<lparr>rp_kind = kind, rp_durable_key = durable_key, rp_value = nr_value record\<rparr>],
           pr_total_value_bytes = total_value_bytes,
           pr_total_scan_bytes = total_scan_bytes\<rparr>, Some (nr_key record))))))))"

definition decode_protocol_records ::
  "Hex \<Rightarrow> ProtocolRecordKind \<Rightarrow> NamespaceRecord list \<Rightarrow> DurableInvariantError + ProtocolRecovery" where
  "decode_protocol_records hx kind scanned =
     res_bind (res_foldM (decode_protocol_record hx kind)
       (\<lparr>pr_records = [], pr_total_value_bytes = 0, pr_total_scan_bytes = 0\<rparr>, None) scanned)
     (\<lambda>(recovery, previous_key). Inr recovery)"

definition recover_kind ::
  "Hex \<Rightarrow> 'st store_ops \<Rightarrow> 'st \<Rightarrow> ProtocolRecordKind \<Rightarrow> ScanLimits \<Rightarrow>
   DurableInvariantError + ProtocolRecovery" where
  "recover_kind hx ops st kind limits =
     res_bind (map_err Storage (so_scan_namespace ops st (kind_namespace kind) limits))
       (decode_protocol_records hx kind)"

definition recover_kind_page ::
  "Hex \<Rightarrow> 'st store_ops \<Rightarrow> 'st \<Rightarrow> ProtocolRecordKind \<Rightarrow> bytes option \<Rightarrow> ScanLimits \<Rightarrow>
   DurableInvariantError + ProtocolRecoveryPage" where
  "recover_kind_page hx ops st kind exclusive_cursor limits =
     (let encoded_cursor = map_option (hex_encode hx) exclusive_cursor in
     res_bind (map_err Storage
       (so_scan_namespace_after ops st (kind_namespace kind) encoded_cursor limits)) (\<lambda>page.
     if np_has_more page \<and> np_records page = [] then Inl InvalidRecoveryPage
     else if (case encoded_cursor of None \<Rightarrow> False | Some cursor \<Rightarrow>
       np_records page \<noteq> [] \<and> nr_key (hd (np_records page)) \<le> cursor) then Inl InvalidRecoveryPage
     else
     res_bind (decode_protocol_records hx kind (np_records page)) (\<lambda>recovery.
     res_bind (if np_has_more page then
         if pr_records recovery = [] then Inl InvalidRecoveryPage
         else Inr (Some (rp_durable_key (last (pr_records recovery))))
       else Inr None) (\<lambda>next_cursor.
     Inr \<lparr>pp_recovery = recovery, pp_next_cursor = next_cursor\<rparr>))))"

definition recover_all_step ::
  "Hex \<Rightarrow> 'st store_ops \<Rightarrow> 'st \<Rightarrow> ScanLimits \<Rightarrow> ProtocolRecovery \<Rightarrow> ProtocolRecordKind \<Rightarrow>
   DurableInvariantError + ProtocolRecovery" where
  "recover_all_step hx ops st limits acc kind =
     (if sl_maximum_records limits < length (pr_records acc) then Inl (Storage ScanLimit)
      else if sl_maximum_total_bytes limits < pr_total_scan_bytes acc then Inl (Storage ScanLimit)
      else
      res_bind (recover_kind hx ops st kind
        \<lparr>sl_maximum_records = sl_maximum_records limits - length (pr_records acc),
         sl_maximum_value_bytes = sl_maximum_value_bytes limits,
         sl_maximum_total_bytes = sl_maximum_total_bytes limits - pr_total_scan_bytes acc\<rparr>)
        (\<lambda>recovered.
      res_bind (ok_or (Storage ScanLimit)
        (checked_add (pr_total_scan_bytes acc) (pr_total_scan_bytes recovered))) (\<lambda>total_scan_bytes.
      res_bind (ok_or (Storage ScanLimit)
        (checked_add (pr_total_value_bytes acc) (pr_total_value_bytes recovered)))
        (\<lambda>total_value_bytes.
      Inr \<lparr>pr_records = pr_records acc @ pr_records recovered,
        pr_total_value_bytes = total_value_bytes, pr_total_scan_bytes = total_scan_bytes\<rparr>))))"

definition recover_all ::
  "Hex \<Rightarrow> 'st store_ops \<Rightarrow> 'st \<Rightarrow> ScanLimits \<Rightarrow> DurableInvariantError + ProtocolRecovery" where
  "recover_all hx ops st limits =
     res_foldM (recover_all_step hx ops st limits)
       \<lparr>pr_records = [], pr_total_value_bytes = 0, pr_total_scan_bytes = 0\<rparr> ProtocolRecordKind_ALL"

section \<open>The signing guard\<close>

text \<open>The decimal form of an integer, as \<^verbatim>\<open>format!\<close> writes it.\<close>

fun decimal :: "nat \<Rightarrow> string" where
  "decimal n = (if n < 10 then [char_of (48 + n)]
     else decimal (n div 10) @ [char_of (48 + n mod 10)])"

declare decimal.simps [simp del]

definition sign_guard_key :: "Hex \<Rightarrow> string \<Rightarrow> bytes \<Rightarrow> u64 \<Rightarrow> string" where
  "sign_guard_key hx role scope sequence =
     role @ ''/'' @ hex_encode hx scope @ ''/'' @ decimal (unat sequence)"

definition authorize ::
  "Hex \<Rightarrow> 'st store_ops \<Rightarrow> 'st env \<Rightarrow> string \<Rightarrow> bytes \<Rightarrow> u64 \<Rightarrow> hash256 \<Rightarrow> ('st, unit) action" where
  "authorize hx ops env role scope sequence object_id =
     (if NUL \<in> set role then act_err (Storage InvalidKey)
      else
      let key = sign_guard_key hx role scope sequence in
      act_bind (act_write env (\<lambda>st. put_if_absent ops st ''sign-guard/v2'' key object_id))
        (\<lambda>reserved.
      if reserved then act_return ()
      else
      act_bind (act_read env (\<lambda>st. so_get ops st ''sign-guard/v2'' key)) (\<lambda>found. case found of
        Some existing \<Rightarrow> if existing = object_id then act_return () else act_err ConflictingSignature
      | None \<Rightarrow> act_err ConflictingSignature)))"

section \<open>A hex codec\<close>

text \<open>Lower-case hex, as an instance of the crate's contract.\<close>

definition hex_digit :: "nat \<Rightarrow> char" where
  "hex_digit n = ''0123456789abcdef'' ! n"

definition hex_digit_value :: "char \<Rightarrow> nat option" where
  "hex_digit_value c = map_of (zip ''0123456789abcdef'' [0..<16]) c"

definition lower_hex_encode :: "bytes \<Rightarrow> string" where
  "lower_hex_encode bs = concat (map (\<lambda>b. [hex_digit (unat b div 16), hex_digit (unat b mod 16)]) bs)"

fun lower_hex_decode :: "string \<Rightarrow> bytes option" where
  "lower_hex_decode [] = Some []"
| "lower_hex_decode [c] = None"
| "lower_hex_decode (c # d # cs) =
     Option.bind (hex_digit_value c) (\<lambda>x. Option.bind (hex_digit_value d) (\<lambda>y.
     map_option (Cons (of_nat (16 * x + y))) (lower_hex_decode cs)))"

definition lower_hex :: Hex where
  "lower_hex = \<lparr>hex_encode = lower_hex_encode, hex_decode = lower_hex_decode\<rparr>"

section \<open>Keys of the journal\<close>

lemma kind_namespace_inj: "kind_namespace k = kind_namespace k' \<longleftrightarrow> k = k'"
  by (cases k; cases k') simp_all

lemma kind_namespace_no_NUL: "NUL \<notin> set (kind_namespace k)"
  by (cases k) (simp_all add: NUL_def)

lemma ProtocolRecordKind_ALL_complete: "k \<in> set ProtocolRecordKind_ALL"
  by (cases k) (simp_all add: ProtocolRecordKind_ALL_def)

lemma ProtocolRecordKind_ALL_distinct: "distinct ProtocolRecordKind_ALL"
  by (simp add: ProtocolRecordKind_ALL_def)

definition is_journal_namespace :: "string \<Rightarrow> bool" where
  "is_journal_namespace ns \<longleftrightarrow> ns \<in> range kind_namespace"

lemma targets_journal_iff: "targets_journal b \<longleftrightarrow> is_journal_namespace (fst (operation_target b))"
proof -
  have "set ProtocolRecordKind_ALL = UNIV" using ProtocolRecordKind_ALL_complete by blast
  then show ?thesis
    by (auto simp: targets_journal_def is_journal_namespace_def list_ex_iff image_iff eq_commute)
qed

text \<open>What the documentation of the hex crate promises and the journal relies on.\<close>

definition hex_ok :: "Hex \<Rightarrow> bool" where
  "hex_ok hx \<longleftrightarrow> (\<forall>b. hex_decode hx (hex_encode hx b) = Some b) \<and>
     (\<forall>b. NUL \<notin> set (hex_encode hx b) \<and> CHR ''/'' \<notin> set (hex_encode hx b))"

lemma hex_ok_inject: "hex_ok hx \<Longrightarrow> hex_encode hx a = hex_encode hx b \<longleftrightarrow> a = b"
  unfolding hex_ok_def by (metis option.inject)

lemma hex_digits:
  "list_all (\<lambda>n. hex_digit_value (hex_digit n) = Some n \<and> hex_digit n \<noteq> NUL \<and>
    hex_digit n \<noteq> CHR ''/'') [0..<16]"
  by code_simp

lemma hex_digit: "n < 16 \<Longrightarrow> hex_digit_value (hex_digit n) = Some n"
  "n < 16 \<Longrightarrow> hex_digit n \<noteq> NUL" "n < 16 \<Longrightarrow> hex_digit n \<noteq> CHR ''/''"
  using hex_digits by (simp_all add: list_all_iff)

lemma lower_hex_decode_encode: "lower_hex_decode (lower_hex_encode bs) = Some bs"
proof (induction bs)
  case (Cons b bs)
  have "unat b < 256" using unsigned_less [of b] by simp
  then have "unat b div 16 < 16" "unat b mod 16 < 16" by simp_all
  moreover have "of_nat (16 * (unat b div 16) + unat b mod 16) = b"
    by (simp only: mult_div_mod_eq unat_of_nat word_unat_eq_iff) (simp add: \<open>unat b < 256\<close>)
  ultimately show ?case using Cons
    by (simp add: lower_hex_encode_def hex_digit(1) del: of_nat_add of_nat_mult)
qed (simp add: lower_hex_encode_def)

lemma lower_hex_chars:
  assumes "c \<in> set (lower_hex_encode bs)"
  shows "c \<noteq> NUL" "c \<noteq> CHR ''/''"
proof -
  obtain b :: u8 where c: "c = hex_digit (unat b div 16) \<or> c = hex_digit (unat b mod 16)"
    using assms by (auto simp: lower_hex_encode_def)
  have "unat b < 256" using unsigned_less [of b] by simp
  then have "unat b div 16 < 16" "unat b mod 16 < 16" by simp_all
  with c show "c \<noteq> NUL" "c \<noteq> CHR ''/''" by (elim disjE; simp only: hex_digit not_False_eq_True)+
qed

lemma hex_ok_lower_hex: "hex_ok lower_hex"
  unfolding hex_ok_def lower_hex_def using lower_hex_chars lower_hex_decode_encode by auto

section \<open>Immutable records\<close>

text \<open>
  The discipline of the journal: a record once present keeps its bytes. It is both what an
  operation relies on of the other writers and what it guarantees to them.
\<close>

definition journal_le :: "kv_view \<Rightarrow> kv_view \<Rightarrow> bool" where
  "journal_le m m' \<longleftrightarrow>
     (\<forall>ns key v. is_journal_namespace ns \<longrightarrow> m ns key = Some v \<longrightarrow> m' ns key = Some v)"

lemma journal_le_refl: "journal_le m m"
  by (simp add: journal_le_def)

lemma journal_le_trans: "journal_le a b \<Longrightarrow> journal_le b c \<Longrightarrow> journal_le a c"
  unfolding journal_le_def by blast

definition env_disciplined :: "('st \<Rightarrow> bool) \<Rightarrow> ('st \<Rightarrow> kv_view) \<Rightarrow> 'st env \<Rightarrow> bool" where
  "env_disciplined I view env \<longleftrightarrow>
     (\<forall>n st. I st \<longrightarrow> I (env n st) \<and> journal_le (view st) (view (env n st)))"

text \<open>A run in which only the other writers acted.\<close>

definition env_only :: "'st env \<Rightarrow> 'st \<times> nat \<Rightarrow> 'st \<times> nat \<Rightarrow> bool" where
  "env_only env w w' \<longleftrightarrow> snd w \<le> snd w' \<and> fst w' = fold env [snd w..<snd w'] (fst w)"

lemma env_only_refl: "env_only env w w"
  by (simp add: env_only_def)

lemma env_only_trans:
  assumes "env_only env w w'" "env_only env w' w''"
  shows "env_only env w w''"
proof -
  have "[snd w..<snd w''] = [snd w..<snd w'] @ [snd w'..<snd w'']"
    using assms upt_add_eq_append [of "snd w" "snd w'" "snd w'' - snd w'"]
    by (simp add: env_only_def)
  then show ?thesis using assms by (simp add: env_only_def)
qed

lemma env_only_step: "env_only env (st, n) (env n st, Suc n)"
  by (simp add: env_only_def)

lemma act_bind_cases:
  assumes "act_bind m f w = (r, w')"
  obtains (err) e where "m w = (Inl e, w')" "r = Inl e"
  | (ok) a w1 where "m w = (Inr a, w1)" "f a w1 = (r, w')"
  using assms by (auto simp: act_bind_def split: prod.splits sum.splits)

lemma act_bind_Inr: "m w = (Inr a, w1) \<Longrightarrow> act_bind m f w = f a w1"
  by (simp add: act_bind_def)

lemma act_bind_Inl: "m w = (Inl e, w1) \<Longrightarrow> act_bind m f w = (Inl e, w1)"
  by (simp add: act_bind_def)

lemma act_bind_read [simp]:
  "act_bind (act_read env f) g (st, n) = (case f (env n st) of
     Inl e \<Rightarrow> (Inl (Storage e), (env n st, Suc n)) | Inr a \<Rightarrow> g a (env n st, Suc n))"
  by (simp add: act_bind_def act_read_def split: sum.splits)

lemma act_bind_write [simp]:
  "act_bind (act_write env f) g (st, n) = (case f (env n st) of
     Inl e \<Rightarrow> (Inl (Storage e), (env n st, Suc n)) | Inr (a, st') \<Rightarrow> g a (st', Suc n))"
  by (simp add: act_bind_def act_write_def split: sum.splits)

text \<open>Inspection never writes.\<close>

lemma inspect_env_only: "inspect ops env ps w = (r, w') \<Longrightarrow> env_only env w w'"
proof (induction ps arbitrary: w r w')
  case Nil
  then show ?case by (simp add: act_return_def env_only_refl)
next
  case (Cons p ps)
  obtain ns key v where p: "p = (ns, key, v)" by (cases p) auto
  obtain st n where w: "w = (st, n)" by force
  let ?w = "(env n st, Suc n)"
  have step: "env_only env w ?w" by (simp add: w env_only_step)
  have tail: "env_only env w w'"
    if "act_bind (inspect ops env ps) (\<lambda>e. act_return (b # e)) ?w = (r, w')" for b
    using that by (rule act_bind_cases)
      (auto simp: act_return_def intro: env_only_trans [OF step] Cons.IH)
  from Cons.prems show ?case
    by (auto simp: p w act_err_def intro: step [unfolded w] tail [unfolded w]
        split: sum.splits option.splits if_splits)
qed

lemma env_only_disciplined:
  assumes "env_disciplined I view env" "I (fst w)" "env_only env w w'"
  shows "I (fst w')" "journal_le (view (fst w)) (view (fst w'))"
proof -
  have "I (fold env ns st) \<and> journal_le (view st) (view (fold env ns st))" if "I st" for ns st
    using that
  proof (induction ns arbitrary: st)
    case (Cons n ns)
    then show ?case
      using assms(1) by (auto simp: env_disciplined_def intro: journal_le_trans)
  qed (simp add: journal_le_refl)
  with assms(2,3) show "I (fst w')" "journal_le (view (fst w)) (view (fst w'))"
    by (simp_all add: env_only_def)
qed

section \<open>The journal over a store\<close>

definition journal_keys :: "prepared \<Rightarrow> bool" where
  "journal_keys ps \<longleftrightarrow> (\<forall>p \<in> set ps. is_journal_namespace (fst p))"

definition exact_in :: "kv_view \<Rightarrow> string \<times> string \<times> bytes \<Rightarrow> bool" where
  "exact_in m = (\<lambda>(ns, key, v). m ns key = Some v)"

definition absent_in :: "kv_view \<Rightarrow> string \<times> string \<times> bytes \<Rightarrow> bool" where
  "absent_in m = (\<lambda>(ns, key, v). m ns key = None)"

definition conflicts_in :: "kv_view \<Rightarrow> string \<times> string \<times> bytes \<Rightarrow> bool" where
  "conflicts_in m = (\<lambda>(ns, key, v). \<exists>u. m ns key = Some u \<and> u \<noteq> v)"

lemma exact_in_mono: "journal_le m m' \<Longrightarrow> is_journal_namespace (fst p) \<Longrightarrow> exact_in m p \<Longrightarrow> exact_in m' p"
  by (cases p) (auto simp: journal_le_def exact_in_def)

lemma absent_in_mono: "journal_le m m' \<Longrightarrow> is_journal_namespace (fst p) \<Longrightarrow> absent_in m' p \<Longrightarrow> absent_in m p"
  by (cases p) (auto simp: journal_le_def absent_in_def, metis option.exhaust option.distinct(1))

lemma conflicts_in_mono:
  "journal_le m m' \<Longrightarrow> is_journal_namespace (fst p) \<Longrightarrow> conflicts_in m p \<Longrightarrow> conflicts_in m' p"
  by (cases p) (auto simp: journal_le_def conflicts_in_def)

lemma journal_keys_Cons [simp]:
  "journal_keys (p # ps) \<longleftrightarrow> is_journal_namespace (fst p) \<and> journal_keys ps"
  by (auto simp: journal_keys_def)

definition observation :: "kv_view \<Rightarrow> kv_view \<Rightarrow> prepared \<Rightarrow> bool list \<Rightarrow> bool" where
  "observation m m' ps bs \<longleftrightarrow> list_all2 (\<lambda>p b. if b then exact_in m' p else absent_in m p) ps bs"

lemma observation_mono:
  assumes "observation m m' ps bs" "journal_le m0 m" "journal_le m' m1" "journal_keys ps"
  shows "observation m0 m1 ps bs"
  using assms(1) unfolding observation_def
  by (rule list.rel_mono_strong)
    (use assms in \<open>auto simp: journal_keys_def intro: exact_in_mono absent_in_mono split: if_splits\<close>)

lemma conditions_hold_append:
  "conditions_hold (cs @ ds) m \<longleftrightarrow> conditions_hold cs m \<and> conditions_hold ds m"
  by (auto simp: conditions_hold_def)

lemma attempt_conditions_hold:
  assumes "length bs = length ps"
  shows "conditions_hold (attempt_conditions cs ps bs) m \<longleftrightarrow>
    conditions_hold cs m \<and> observation m m ps bs"
proof -
  have "conditions_hold (map (\<lambda>((ns, key, v), b). if b then BatchCondition_equals ns key v
      else BatchCondition_absent ns key) (zip ps bs)) m \<longleftrightarrow> observation m m ps bs"
    using assms
    by (induction ps bs rule: list_induct2')
      (auto simp: conditions_hold_def observation_def exact_in_def absent_in_def
        BatchCondition_equals_def BatchCondition_absent_def BatchCondition_new_def)
  then show ?thesis by (simp add: attempt_conditions_def conditions_hold_append)
qed

text \<open>Under the discipline a later observation refines an earlier one.\<close>

lemma observation_grows:
  assumes "observation m0 m1 ps bs" "observation m2 m3 ps bs'" "journal_le m1 m2"
    "journal_keys ps"
  shows "list_all2 (\<longrightarrow>) bs bs'"
proof -
  have "length bs = length ps" "length bs' = length ps"
    using assms(1,2) by (auto simp: observation_def dest: list_all2_lengthD)
  moreover have "bs ! i \<longrightarrow> bs' ! i" if "i < length ps" for i
  proof
    assume "bs ! i"
    with assms(1) that have "exact_in m1 (ps ! i)"
      by (auto simp: observation_def dest: list_all2_nthD)
    with assms(3,4) that have "exact_in m2 (ps ! i)"
      by (auto simp: journal_keys_def intro: exact_in_mono)
    then have "\<not> absent_in m2 (ps ! i)"
      by (auto simp: exact_in_def absent_in_def)
    with assms(2) that show "bs' ! i"
      by (auto simp: observation_def split: if_splits dest: list_all2_nthD)
  qed
  ultimately show ?thesis by (simp add: list_all2_conv_all_nth)
qed

text \<open>An observation counts the exact records from below and from above.\<close>

definition exact_count :: "kv_view \<Rightarrow> prepared \<Rightarrow> nat" where
  "exact_count m ps = length (filter (exact_in m) ps)"

lemma observation_count:
  assumes "observation m m' ps bs"
  shows "exact_count m ps \<le> length (filter (\<lambda>b. b) bs)"
    "length (filter (\<lambda>b. b) bs) \<le> exact_count m' ps"
  using assms unfolding observation_def exact_count_def
  by (induction rule: list_all2_induct) (auto simp: exact_in_def absent_in_def split: if_splits)

lemma implications_count:
  assumes "list_all2 (\<longrightarrow>) bs bs'"
  shows "length (filter (\<lambda>b. b) bs) \<le> length (filter (\<lambda>b. b) bs') \<and>
    (bs \<noteq> bs' \<longrightarrow> length (filter (\<lambda>b. b) bs) < length (filter (\<lambda>b. b) bs'))"
  using assms by (induction rule: list_all2_induct) auto

text \<open>Writing the records and the derived indexes.\<close>

definition journal_operations :: "prepared \<Rightarrow> BatchOperation list \<Rightarrow> BatchOperation list" where
  "journal_operations ps bs = map (\<lambda>(ns, key, v). Put ns key v) ps @ bs"

lemma fold_puts_other:
  "\<not> list_ex targets_journal bs \<Longrightarrow> is_journal_namespace ns \<Longrightarrow>
    (\<forall>p \<in> set ps. (fst p, fst (snd p)) \<noteq> (ns, key)) \<Longrightarrow>
    fold view_operation (journal_operations ps bs) m ns key = m ns key"
  by (rule fold_view_operation_other)
    (auto simp: journal_operations_def list_ex_iff targets_journal_iff; metis fst_conv)

lemma fold_puts_exact:
  assumes "distinct (map (\<lambda>p. (fst p, fst (snd p))) ps)" "journal_keys ps"
    "\<not> list_ex targets_journal bs" "p \<in> set ps"
  shows "exact_in (fold view_operation (journal_operations ps bs) m) p"
  using assms
proof (induction ps arbitrary: m)
  case (Cons q ps)
  obtain ns key v where q: "q = (ns, key, v)" by (cases q) auto
  show ?case
  proof (cases "p = q")
    case True
    have "fold view_operation (journal_operations ps bs) (view_set ns key (Some v) m) ns key = Some v"
      using Cons.prems q by (subst fold_puts_other) (auto simp: view_set_def)
    with True q show ?thesis by (simp add: exact_in_def journal_operations_def)
  next
    case False
    with Cons show ?thesis by (simp add: journal_operations_def)
  qed
qed simp

lemma journal_le_commit:
  assumes "distinct (map (\<lambda>p. (fst p, fst (snd p))) ps)" "journal_keys ps"
    "\<not> list_ex targets_journal bs" "observation m m ps ob"
  shows "journal_le m (fold view_operation (journal_operations ps bs) m)"
  unfolding journal_le_def
proof (intro allI impI)
  fix ns key v
  assume j: "is_journal_namespace ns" and v: "m ns key = Some v"
  let ?m = "fold view_operation (journal_operations ps bs) m"
  show "?m ns key = Some v"
  proof (cases "\<exists>u. (ns, key, u) \<in> set ps")
    case True
    then obtain u where u: "(ns, key, u) \<in> set ps" by blast
    then obtain i where "i < length ps" "ps ! i = (ns, key, u)" by (auto simp: in_set_conv_nth)
    then have "exact_in m (ns, key, u) \<or> absent_in m (ns, key, u)"
      using assms(4) by (auto simp: observation_def split: if_splits dest: list_all2_nthD)
    with v have "u = v" by (auto simp: exact_in_def absent_in_def)
    with fold_puts_exact [OF assms(1-3) u] show ?thesis by (simp add: exact_in_def)
  next
    case False
    then have "\<forall>p \<in> set ps. (fst p, fst (snd p)) \<noteq> (ns, key)" by auto
    from fold_puts_other [OF assms(3) j this] v show ?thesis by simp
  qed
qed

text \<open>What an outcome says: of the store, of the conditions and of who wrote. The errors of the
  store that may surface are the parameter \<^verbatim>\<open>F\<close>.\<close>

definition get_failure ::
  "'st store_ops \<Rightarrow> ('st \<Rightarrow> bool) \<Rightarrow> prepared \<Rightarrow> StorageError \<Rightarrow> bool" where
  "get_failure ops I ps e \<longleftrightarrow>
     (\<exists>st. I st \<and> (\<exists>p \<in> set ps. so_get ops st (fst p) (fst (snd p)) = Inl e))"

definition store_failure ::
  "'st store_ops \<Rightarrow> ('st \<Rightarrow> bool) \<Rightarrow> prepared \<Rightarrow> BatchCondition list \<Rightarrow> BatchOperation list \<Rightarrow>
   StorageError \<Rightarrow> bool" where
  "store_failure ops I ps cs bs e \<longleftrightarrow> get_failure ops I ps e \<or>
     (\<exists>st ob. I st \<and> so_apply_batch_if_all ops st (attempt_conditions cs ps ob)
       (journal_operations ps bs) = Inl e)"

lemma get_failure_Cons: "get_failure ops I ps e \<Longrightarrow> get_failure ops I (p # ps) e"
  by (fastforce simp: get_failure_def)

definition rounds_outcome ::
  "('st \<Rightarrow> bool) \<Rightarrow> (StorageError \<Rightarrow> bool) \<Rightarrow> ('st \<Rightarrow> kv_view) \<Rightarrow> 'st env \<Rightarrow> prepared \<Rightarrow> BatchCondition list \<Rightarrow>
   BatchOperation list \<Rightarrow> 'st \<times> nat \<Rightarrow> DurableInvariantError + JournalBatchOutcome \<Rightarrow> 'st \<times> nat \<Rightarrow> bool" where
  "rounds_outcome I F view env ps cs bs w r w' \<longleftrightarrow> (case r of
     Inr Committed \<Rightarrow> I (fst w') \<and> (\<exists>pre. env_only env w (pre, snd w') \<and> conditions_hold cs (view pre) \<and>
       (\<exists>ob. observation (view pre) (view pre) ps ob) \<and>
       view (fst w') = fold view_operation (journal_operations ps bs) (view pre))
   | Inr ExactRecord \<Rightarrow> env_only env w w' \<and> (\<forall>p \<in> set ps. exact_in (view (fst w')) p) \<and>
       (\<exists>w1. env_only env w w1 \<and> env_only env w1 w' \<and> \<not> conditions_hold cs (view (fst w1)))
   | Inr PreconditionMismatch \<Rightarrow> env_only env w w' \<and>
       (\<exists>w1. env_only env w w1 \<and> env_only env w1 w' \<and> \<not> conditions_hold cs (view (fst w1)) \<and>
         (\<exists>p \<in> set ps. absent_in (view (fst w1)) p))
   | Inl e \<Rightarrow> env_only env w w' \<and> ((\<exists>se. e = Storage se \<and> F se) \<or>
       e = ImmutableConflict \<and> (\<exists>p \<in> set ps. conflicts_in (view (fst w')) p)))"

lemma rounds_outcome_prefix:
  assumes "env_only env w w1" "rounds_outcome I F view env ps cs bs w1 r w'"
  shows "rounds_outcome I F view env ps cs bs w r w'"
proof (cases r)
  case (Inl e)
  with assms show ?thesis by (auto simp: rounds_outcome_def intro: env_only_trans)
next
  case (Inr out)
  with assms show ?thesis
    by (cases out; simp add: rounds_outcome_def; blast intro: env_only_trans)
qed

lemma rounds_outcome_Inl:
  "rounds_outcome I F view env ps cs bs w (Inl e) w' \<longleftrightarrow> env_only env w w' \<and> ((\<exists>se. e = Storage se \<and> F se) \<or>
     e = ImmutableConflict \<and> (\<exists>p \<in> set ps. conflicts_in (view (fst w')) p))"
  by (simp add: rounds_outcome_def)

context durable_store
begin

text \<open>An inspection reports exact records that stay exact and absent ones that were absent.\<close>

lemma inspect_sound:
  assumes "env_disciplined inv view env" "inv st" "journal_keys ps"
    and "inspect ops env ps (st, n) = (r, (st', n'))"
  shows "(\<forall>bs. r = Inr bs \<longrightarrow>
      observation (view st) (view st') ps bs) \<and>
    (\<forall>e. r = Inl e \<longrightarrow> (\<exists>se. e = Storage se \<and> get_failure ops inv ps se) \<or>
      e = ImmutableConflict \<and> (\<exists>p \<in> set ps. conflicts_in (view st') p))"
  using assms(2-)
proof (induction ps arbitrary: st n r)
  case Nil
  then show ?case by (auto simp: act_return_def observation_def)
next
  case (Cons p ps)
  obtain ns key v where p: "p = (ns, key, v)" by (cases p) auto
  let ?s = "env n st"
  have s: "inv ?s" "journal_le (view st) (view ?s)"
    using assms(1) Cons.prems(1) by (auto simp: env_disciplined_def)
  have j: "is_journal_namespace (fst p)" "journal_keys ps" using Cons.prems(2) by simp_all
  have tail: ?case
    if run: "act_bind (inspect ops env ps) (\<lambda>e. act_return (b # e)) (?s, Suc n) = (r, (st', n'))"
      and b: "if b then exact_in (view ?s) p else absent_in (view ?s) p" for b
    using run
  proof (cases rule: act_bind_cases)
    case (err e)
    with Cons.IH [OF s(1) j(2) err(1)] show ?thesis by (auto intro: get_failure_Cons)
  next
    case (ok bs w1)
    then have w1: "inspect ops env ps (?s, Suc n) = (Inr bs, (st', n'))" "r = Inr (b # bs)"
      by (simp_all add: act_return_def)
    have le: "journal_le (view ?s) (view st')"
      using env_only_disciplined(2) [OF assms(1) _ inspect_env_only [OF w1(1)]] s(1) by simp
    have "if b then exact_in (view st') p else absent_in (view st) p"
      using b exact_in_mono [OF le j(1)] absent_in_mono [OF s(2) j(1)] by (cases b) auto
    moreover have "observation (view st) (view st') ps bs"
      using Cons.IH [OF s(1) j(2) w1(1)] observation_mono [OF _ s(2) journal_le_refl j(2)] by blast
    ultimately show ?thesis by (simp add: w1(2) observation_def)
  qed
  show ?case
  proof (cases "so_get ops ?s ns key")
    case (Inl e)
    with s(1) have "get_failure ops inv (p # ps) e" by (auto simp: get_failure_def p)
    with Inl Cons.prems(3) show ?thesis by (auto simp: p)
  next
    case (Inr found)
    then have "found = view ?s ns key" using get_law [OF s(1)] by blast
    then consider "found = None" "absent_in (view ?s) p" | "found = Some v" "exact_in (view ?s) p"
      | u where "found = Some u" "u \<noteq> v" "conflicts_in (view ?s) p"
      by (cases found) (auto simp: p conflicts_in_def exact_in_def absent_in_def)
    then show ?thesis
    proof cases
      case 1
      with Inr Cons.prems(3) show ?thesis by (intro tail [of False]) (simp_all add: p)
    next
      case 2
      with Inr Cons.prems(3) show ?thesis by (intro tail [of True]) (simp_all add: p)
    next
      case 3
      with Inr Cons.prems(3) show ?thesis by (auto simp: p act_err_def)
    qed
  qed
qed

lemma inspect_cases:
  assumes "env_disciplined inv view env" "inv (fst w)" "journal_keys ps"
    and "inspect ops env ps w = (r, w')"
  shows "env_only env w w'" "inv (fst w')" "journal_le (view (fst w)) (view (fst w'))"
    and "r = Inr ob \<Longrightarrow> observation (view (fst w)) (view (fst w')) ps ob"
    and "r = Inl e \<Longrightarrow> rounds_outcome inv (store_failure ops inv ps cs bs) view env ps cs bs w (Inl e) w'"
proof -
  show eo: "env_only env w w'" by (rule inspect_env_only [OF assms(4)])
  show "inv (fst w')" "journal_le (view (fst w)) (view (fst w'))"
    by (rule env_only_disciplined [OF assms(1,2) eo])+
  obtain st n st' n' where w: "w = (st, n)" "w' = (st', n')" by (metis surj_pair)
  from inspect_sound [of env st ps n r st' n'] assms
  have *: "(\<forall>bs. r = Inr bs \<longrightarrow> observation (view st) (view st') ps bs) \<and>
    (\<forall>e. r = Inl e \<longrightarrow> (\<exists>se. e = Storage se \<and> get_failure ops inv ps se) \<or>
      e = ImmutableConflict \<and> (\<exists>p \<in> set ps. conflicts_in (view st') p))"
    by (simp add: w)
  show "observation (view (fst w)) (view (fst w')) ps ob" if "r = Inr ob"
    using * that by (simp add: w)
  show "rounds_outcome inv (store_failure ops inv ps cs bs) view env ps cs bs w (Inl e) w'" if "r = Inl e"
    using * that eo by (auto simp: w rounds_outcome_Inl store_failure_def)
qed

text \<open>
  A failed attempt: the records observed before and after agree only when the caller's own
  conditions failed.
\<close>

lemma failed_attempt:
  assumes "env_disciplined inv view env" "inv (fst w)" "journal_keys ps"
    and obs: "observation (view (fst w)) (view (fst w1)) ps ob"
    and pre: "env_only env w1 w2" "inv (fst w1)"
    and failed: "\<not> conditions_hold (attempt_conditions cs ps ob) (view (fst w2))"
    and again: "inspect ops env ps w2 = (Inr ob, w3)"
    and eo: "env_only env w w1"
  shows "rounds_outcome inv (store_failure ops inv ps cs bs) view env ps cs bs w
    (Inr (if list_all (\<lambda>b. b) ob then ExactRecord else PreconditionMismatch)) w3"
proof -
  note d2 = env_only_disciplined [OF assms(1) pre(2) pre(1)]
  note i3 = inspect_cases [OF assms(1) d2(1) assms(3) again]
  have o: "observation (view (fst w2)) (view (fst w3)) ps ob" using i3(4) by simp
  have len: "length ob = length ps"
    using obs by (simp add: observation_def list_all2_lengthD)
  have o2: "observation (view (fst w2)) (view (fst w2)) ps ob"
    using observation_mono [OF obs journal_le_refl d2(2) assms(3)] o
    by (auto simp: observation_def list_all2_conv_all_nth)
  with failed len have cf: "\<not> conditions_hold cs (view (fst w2))"
    by (simp add: attempt_conditions_hold)
  have all: "\<forall>p \<in> set ps. exact_in (view (fst w3)) p" if "list_all (\<lambda>b. b) ob"
    using o that len
    by (simp add: observation_def list_all2_conv_all_nth list_all_length all_set_conv_all_nth)
  have some: "\<exists>p \<in> set ps. absent_in (view (fst w2)) p" if "\<not> list_all (\<lambda>b. b) ob"
    using o2 that len
    by (force simp: observation_def list_all2_conv_all_nth list_all_length in_set_conv_nth)
  have e: "env_only env w w2" "env_only env w w3"
    using env_only_trans [OF eo pre(1)] i3(1) env_only_trans by blast+
  show ?thesis
  proof (cases "list_all (\<lambda>b. b) ob")
    case True
    have "\<exists>w1. env_only env w w1 \<and> env_only env w1 w3 \<and> \<not> conditions_hold cs (view (fst w1))"
      using e(1) i3(1) cf by blast
    with True all e(2) show ?thesis by (simp add: rounds_outcome_def)
  next
    case False
    have "\<exists>w1. env_only env w w1 \<and> env_only env w1 w3 \<and> \<not> conditions_hold cs (view (fst w1)) \<and>
        (\<exists>p \<in> set ps. absent_in (view (fst w1)) p)"
      using e(1) i3(1) cf some False by blast
    with False e(2) show ?thesis by (simp add: rounds_outcome_def)
  qed
qed

lemma after_failure:
  assumes "env_disciplined inv view env" "inv (fst w)" "journal_keys ps"
    and obs: "observation (view (fst w)) (view (fst w1)) ps ob"
    and eo: "env_only env w w1" "inv (fst w1)" "env_only env w1 w2"
    and failed: "\<not> conditions_hold (attempt_conditions cs ps ob) (view (fst w2))"
    and run: "act_bind (inspect ops env ps) (\<lambda>after.
      if after = ob
      then act_return (if list_all (\<lambda>b. b) after then ExactRecord else PreconditionMismatch)
      else if list_ex (\<lambda>(was_exact, is_exact). was_exact \<and> \<not> is_exact) (zip ob after)
      then act_err ImmutableConflict else next_round) w2 = (r, w')"
  shows "rounds_outcome inv (store_failure ops inv ps cs bs) view env ps cs bs w r w' \<or>
    (\<exists>w3. env_only env w w3 \<and> inv (fst w3) \<and>
      exact_count (view (fst w)) ps < exact_count (view (fst w3)) ps \<and> next_round w3 = (r, w'))"
proof -
  note d2 = env_only_disciplined [OF assms(1) eo(2,3)]
  have e02: "env_only env w w2" by (rule env_only_trans [OF eo(1,3)])
  from run show ?thesis
  proof (cases rule: act_bind_cases)
    case (err e)
    with inspect_cases(5) [OF assms(1) d2(1) assms(3) err(1) refl] rounds_outcome_prefix [OF e02]
    show ?thesis by blast
  next
    case (ok ob' w3)
    note i3 = inspect_cases [OF assms(1) d2(1) assms(3) ok(1)]
    have o3: "observation (view (fst w2)) (view (fst w3)) ps ob'" using i3(4) by simp
    have g: "list_all2 (\<longrightarrow>) ob ob'" by (rule observation_grows [OF obs o3 d2(2) assms(3)])
    then have m: "\<not> list_ex (\<lambda>(was_exact, is_exact). was_exact \<and> \<not> is_exact) (zip ob ob')"
      by (auto simp: list_ex_iff list_all2_iff)
    show ?thesis
    proof (cases "ob' = ob")
      case True
      with ok failed_attempt [OF assms(1-3) obs eo(3,2) failed _ eo(1)] show ?thesis
        by (auto simp: act_return_def)
    next
      case False
      then have "length (filter (\<lambda>b. b) ob) < length (filter (\<lambda>b. b) ob')"
        using implications_count [OF g] by auto
      with observation_count(1) [OF obs] observation_count(2) [OF o3]
      have "exact_count (view (fst w)) ps < exact_count (view (fst w3)) ps" by linarith
      moreover have "next_round w3 = (r, w')" using ok(2) False m by simp
      ultimately show ?thesis using i3(2) env_only_trans [OF e02 i3(1)] by blast
    qed
  qed
qed

text \<open>
  One round either ends with an outcome, or other writers added a requested record meanwhile.
\<close>

lemma persist_round:
  assumes "env_disciplined inv view env" "inv (fst w)" "journal_keys ps"
    and run: "persist_rounds ops env ps cs (journal_operations ps bs) (Suc rounds) w = (r, w')"
  shows "rounds_outcome inv (store_failure ops inv ps cs bs) view env ps cs bs w r w' \<or>
    (\<exists>w3. env_only env w w3 \<and> inv (fst w3) \<and>
      exact_count (view (fst w)) ps < exact_count (view (fst w3)) ps \<and>
      persist_rounds ops env ps cs (journal_operations ps bs) rounds w3 = (r, w'))"
  using run unfolding persist_rounds.simps
proof (cases rule: act_bind_cases)
  case (err e)
  with inspect_cases(5) [OF assms(1-3) err(1) refl] show ?thesis by simp
next
  case (ok ob w1)
  note i1 = inspect_cases [OF assms(1-3) ok(1)]
  obtain st n where w1: "w1 = (st, n)" by force
  let ?w2 = "(env n st, Suc n)"
  have e2: "env_only env w1 ?w2" by (simp add: w1 env_only_step)
  note d2 = env_only_disciplined [OF assms(1) i1(2) e2]
  have obs: "observation (view (fst w)) (view (fst w1)) ps ob" using i1(4) by simp
  have len: "length ob = length ps" using obs by (simp add: observation_def list_all2_lengthD)
  have e02: "env_only env w ?w2" by (rule env_only_trans [OF i1(1) e2])
  show ?thesis
  proof (cases "so_apply_batch_if_all ops (env n st) (attempt_conditions cs ps ob) (journal_operations ps bs)")
    case (Inl e)
    with d2(1) have "store_failure ops inv ps cs bs e" by (auto simp: store_failure_def)
    with Inl ok(2) e02 show ?thesis by (auto simp: w1 rounds_outcome_Inl)
  next
    case (Inr q)
    obtain applied st2 where q: "q = (applied, st2)" by force
    note law = batch_law [OF d2(1) [simplified] Inr [unfolded q]]
    show ?thesis
    proof (cases applied)
      case True
      with law len have "conditions_hold cs (view (env n st))"
        "observation (view (env n st)) (view (env n st)) ps ob"
        by (simp_all add: attempt_conditions_hold)
      moreover from ok(2) Inr q True have "r = Inr Committed" "w' = (st2, Suc n)"
        by (simp_all add: w1 act_return_def)
      ultimately have "rounds_outcome inv (store_failure ops inv ps cs bs) view env ps cs bs w r w'"
        unfolding rounds_outcome_def using e02 law True by auto
      then show ?thesis ..
    next
      case False
      with law have "st2 = env n st"
        and f: "\<not> conditions_hold (attempt_conditions cs ps ob) (view (fst ?w2))" by simp_all
      with ok(2) Inr q False show ?thesis
        by (intro after_failure [OF assms(1-3) obs i1(1,2) e2 f]) (simp add: w1)
    qed
  qed
qed

lemma exact_count_le: "exact_count m ps \<le> length ps"
  by (simp add: exact_count_def)

text \<open>So the number of rounds of the code is always enough.\<close>

lemma persist_rounds_sound:
  assumes "env_disciplined inv view env" "inv (fst w)" "journal_keys ps"
    and "length ps < exact_count (view (fst w)) ps + rounds"
    and "persist_rounds ops env ps cs (journal_operations ps bs) rounds w = (r, w')"
  shows "rounds_outcome inv (store_failure ops inv ps cs bs) view env ps cs bs w r w'"
  using assms(2,4,5)
proof (induction rounds arbitrary: w)
  case 0
  then show ?case using exact_count_le [of "view (fst w)" ps] by simp
next
  case (Suc rounds)
  from persist_round [OF assms(1) Suc.prems(1) assms(3) Suc.prems(3)] consider
    "rounds_outcome inv (store_failure ops inv ps cs bs) view env ps cs bs w r w'"
    | w3 where "env_only env w w3" "inv (fst w3)"
      "exact_count (view (fst w)) ps < exact_count (view (fst w3)) ps"
      "persist_rounds ops env ps cs (journal_operations ps bs) rounds w3 = (r, w')"
    by blast
  then show ?case
  proof cases
    case 2
    then have "length ps < exact_count (view (fst w3)) ps + rounds" using Suc.prems(2) by simp
    from rounds_outcome_prefix [OF 2(1) Suc.IH [OF 2(2) this 2(4)]] show ?thesis .
  qed
qed

end

section \<open>The whole operation\<close>

definition prepared_record :: "Hex \<Rightarrow> JournalBatchRecord \<Rightarrow> string \<times> string \<times> bytes" where
  "prepared_record hx record =
     (kind_namespace (jb_kind record), hex_encode hx (jb_durable_key record), jb_value record)"

abbreviation prepared_key :: "string \<times> string \<times> bytes \<Rightarrow> string \<times> string" where
  "prepared_key p \<equiv> (fst p, fst (snd p))"

lemma prepare_records:
  "distinct (map prepared_key acc) \<Longrightarrow> res_foldM (prepare_record hx) acc records =
    (if distinct (map prepared_key (acc @ map (prepared_record hx) records))
     then Inr (acc @ map (prepared_record hx) records) else Inl DuplicateJournalKey)"
proof (induction records arbitrary: acc)
  case (Cons r records)
  let ?p = "prepared_record hx r"
  have ex: "list_ex (\<lambda>(a, b, _). a = ns \<and> b = key) acc \<longleftrightarrow> (ns, key) \<in> set (map prepared_key acc)"
    for ns key by (force simp: list_ex_iff)
  have *: "prepare_record hx acc r =
      (if prepared_key ?p \<in> set (map prepared_key acc) then Inl DuplicateJournalKey
       else Inr (acc @ [?p]))"
    by (simp only: prepare_record_def prepared_record_def ex Let_def fst_conv snd_conv)
  show ?case
  proof (cases "prepared_key ?p \<in> set (map prepared_key acc)")
    case False
    with Cons.prems Cons.IH [of "acc @ [?p]"] show ?thesis by (simp add: *)
  qed (auto simp: *)
qed simp

lemma journal_keys_prepared: "journal_keys (map (prepared_record hx) records)"
  by (auto simp: journal_keys_def prepared_record_def is_journal_namespace_def)

text \<open>The requests the journal rejects without a store call.\<close>

definition invalid_request ::
  "Hex \<Rightarrow> JournalBatchRecord list \<Rightarrow> BatchCondition list \<Rightarrow> BatchOperation list \<Rightarrow>
   DurableInvariantError option" where
  "invalid_request hx records cs bs =
     (if records = [] then Some EmptyJournalBatch
      else if \<not> distinct (map (prepared_key \<circ> prepared_record hx) records)
      then Some DuplicateJournalKey
      else if (\<exists>c \<in> set cs. (bc_namespace c, bc_key c) \<in> (prepared_key \<circ> prepared_record hx) ` set records) \<or>
        (\<exists>b \<in> set bs. is_journal_namespace (fst (operation_target b)))
      then Some SupplementalJournalTarget else None)"

lemma valid_requestD:
  assumes "invalid_request hx records cs bs = None"
  shows "distinct (map prepared_key (map (prepared_record hx) records))"
    "\<not> list_ex targets_journal bs"
  using assms
  by (auto simp: invalid_request_def comp_def list_ex_iff targets_journal_iff split: if_splits)

lemma persist_records_eq:
  "persist_records_with_conditions_and_batch hx ops env records cs bs =
    (case invalid_request hx records cs bs of
       Some e \<Rightarrow> act_err e
     | None \<Rightarrow> persist_rounds ops env (map (prepared_record hx) records) cs
         (journal_operations (map (prepared_record hx) records) bs) (Suc (length records)))"
proof -
  have t: "targets_requested_record (map (prepared_record hx) records) ns key \<longleftrightarrow>
      (ns, key) \<in> (prepared_key \<circ> prepared_record hx) ` set records" for ns key
    by (auto simp: targets_requested_record_def list_ex_iff image_iff case_prod_beta)
  show ?thesis
    by (auto simp: persist_records_with_conditions_and_batch_def invalid_request_def prepare_records
        comp_def list_ex_iff t targets_journal_iff journal_operations_def)
qed

context durable_store
begin

lemma persist_records_sound:
  assumes "env_disciplined inv view env" "inv (fst w)"
    and "persist_records_with_conditions_and_batch hx ops env records cs bs w = (r, w')"
    and "invalid_request hx records cs bs = None"
  shows "rounds_outcome inv (store_failure ops inv (map (prepared_record hx) records) cs bs) view env
    (map (prepared_record hx) records) cs bs w r w'"
  by (rule persist_rounds_sound [OF assms(1,2) journal_keys_prepared, where rounds = "Suc (length records)"])
    (use assms(3,4) in \<open>simp_all add: persist_records_eq\<close>)

lemma persist_records_inv:
  assumes "env_disciplined inv view env" "inv (fst w)"
    and "persist_records_with_conditions_and_batch hx ops env records cs bs w = (r, w')"
  shows "inv (fst w')"
proof (cases "invalid_request hx records cs bs")
  case (Some e)
  with assms(2,3) show ?thesis by (auto simp: persist_records_eq act_err_def)
next
  case None
  note out = persist_records_sound [OF assms None]
  show ?thesis
  proof (cases "r = Inr Committed")
    case False
    with out have "env_only env w w'"
      by (auto simp: rounds_outcome_def split: sum.splits JournalBatchOutcome.splits)
    then show ?thesis by (rule env_only_disciplined(1) [OF assms(1,2)])
  qed (use out in \<open>simp add: rounds_outcome_def\<close>)
qed

text \<open>What the journal guarantees to the others is what it relies on.\<close>

lemma persist_records_guarantee:
  assumes "env_disciplined inv view env" "inv (fst w)"
    and "persist_records_with_conditions_and_batch hx ops env records cs bs w = (r, w')"
  shows "journal_le (view (fst w)) (view (fst w'))"
proof (cases "invalid_request hx records cs bs")
  case (Some e)
  with assms(3) show ?thesis by (auto simp: persist_records_eq act_err_def journal_le_refl)
next
  case None
  note out = persist_records_sound [OF assms None]
  show ?thesis
  proof (cases "r = Inr Committed")
    case True
    with out obtain pre ob where pre: "env_only env w (pre, snd w')"
      "observation (view pre) (view pre) (map (prepared_record hx) records) ob"
      "view (fst w') = fold view_operation (journal_operations (map (prepared_record hx) records) bs) (view pre)"
      by (auto simp: rounds_outcome_def)
    have "journal_le (view (fst w)) (view pre)"
      using env_only_disciplined(2) [OF assms(1,2) pre(1)] by simp
    moreover have "journal_le (view pre) (view (fst w'))"
      unfolding pre(3) by (rule journal_le_commit [OF valid_requestD(1) [OF None]
        journal_keys_prepared valid_requestD(2) [OF None] pre(2)])
    ultimately show ?thesis by (rule journal_le_trans)
  next
    case False
    with out have "env_only env w w'"
      by (auto simp: rounds_outcome_def split: sum.splits JournalBatchOutcome.splits)
    then show ?thesis by (rule env_only_disciplined(2) [OF assms(1,2)])
  qed
qed

end

section \<open>The journal over the in-memory store\<close>

definition holds_record :: "Hex \<Rightarrow> MemoryStore \<Rightarrow> JournalBatchRecord \<Rightarrow> bool" where
  "holds_record hx st q \<longleftrightarrow>
     journal_load hx memory_ops st (jb_kind q) (jb_durable_key q) = Inr (Some (jb_value q))"

lemma prepared_key_ok: "hex_ok hx \<Longrightarrow> key_ok (prepared_key (prepared_record hx q))"
  by (simp add: key_ok_def prepared_record_def hex_ok_def kind_namespace_no_NUL)

lemma load_live:
  assumes "hex_ok hx" "mem_live st"
  shows "journal_load hx memory_ops st kind key =
    Inr (ms_view st (kind_namespace kind) (hex_encode hx key))"
proof -
  have "key_ok (kind_namespace kind, hex_encode hx key)"
    using assms(1) by (simp add: key_ok_def hex_ok_def kind_namespace_no_NUL)
  from live_get [OF assms(2) this] show ?thesis by (simp add: journal_load_def)
qed

lemma holds_record_exact:
  "hex_ok hx \<Longrightarrow> mem_live st \<Longrightarrow> holds_record hx st q \<longleftrightarrow> exact_in (ms_view st) (prepared_record hx q)"
  by (simp add: holds_record_def load_live exact_in_def prepared_record_def)

lemma memory_never_fails:
  assumes "hex_ok hx" "\<forall>c \<in> set cs. key_ok (bc_namespace c, bc_key c)"
    "\<forall>b \<in> set bs. key_ok (operation_target b)"
  shows "\<not> store_failure memory_ops mem_live (map (prepared_record hx) records) cs bs e"
proof -
  let ?ps = "map (prepared_record hx) records"
  have ps: "key_ok (prepared_key p)" if "p \<in> set ?ps" for p
    using that prepared_key_ok [OF assms(1)] by auto
  have cs: "\<forall>c \<in> set (attempt_conditions cs ?ps ob). key_ok (bc_namespace c, bc_key c)" for ob
    using assms(2) ps
    by (force simp: attempt_conditions_def BatchCondition_equals_def BatchCondition_absent_def
        BatchCondition_new_def dest: set_zip_leftD)
  have bs: "\<forall>b \<in> set (journal_operations ?ps bs). key_ok (operation_target b)"
    using assms(3) prepared_key_ok [OF assms(1)]
    by (auto simp: journal_operations_def case_prod_beta)
  have "\<not> get_failure memory_ops mem_live ?ps e"
    using live_get ps by (auto simp: get_failure_def)
  moreover have "so_apply_batch_if_all memory_ops st (attempt_conditions cs ?ps ob)
      (journal_operations ?ps bs) \<noteq> Inl e" if "mem_live st" for st ob
    using live_batch [OF that cs [of ob] bs] by auto
  ultimately show ?thesis by (auto simp: store_failure_def)
qed

text \<open>
  C3: persisting a batch of journal records on the in-memory store, with other writers acting
  between its calls under the journal's discipline, always ends, and its answer is right. Committed:
  all records are in the journal with the requested bytes, and the store is what the whole batch
  makes, in one step, of a state that satisfied the caller's conditions. ExactRecord: nothing was
  written, the records were already there, and the caller's conditions failed. PreconditionMismatch:
  nothing was written, the conditions failed and a record was missing. An error: nothing was written,
  and either the request is malformed or some record holds other bytes. The loop of the code never
  gives up.
\<close>

theorem journal_persist_outcome:
  assumes "env_disciplined mem_live ms_view env" "mem_live st" "hex_ok hx"
    and "\<forall>c \<in> set cs. key_ok (bc_namespace c, bc_key c)"
    and "\<forall>b \<in> set bs. key_ok (operation_target b)"
    and "persist_records_with_conditions_and_batch hx memory_ops env records cs bs (st, n) = (r, (st', n'))"
  shows "case r of
      Inr Committed \<Rightarrow> (\<forall>q \<in> set records. holds_record hx st' q) \<and>
        (\<exists>pre. env_only env (st, n) (pre, n') \<and> conditions_hold cs (ms_view pre) \<and>
          ms_view st' = fold view_operation
            (journal_operations (map (prepared_record hx) records) bs) (ms_view pre))
    | Inr ExactRecord \<Rightarrow> env_only env (st, n) (st', n') \<and> (\<forall>q \<in> set records. holds_record hx st' q) \<and>
        (\<exists>w. env_only env (st, n) w \<and> env_only env w (st', n') \<and> \<not> conditions_hold cs (ms_view (fst w)))
    | Inr PreconditionMismatch \<Rightarrow> env_only env (st, n) (st', n') \<and>
        (\<exists>w. env_only env (st, n) w \<and> env_only env w (st', n') \<and> \<not> conditions_hold cs (ms_view (fst w)) \<and>
          (\<exists>q \<in> set records. journal_load hx memory_ops (fst w) (jb_kind q) (jb_durable_key q) = Inr None))
    | Inl e \<Rightarrow> env_only env (st, n) (st', n') \<and> (invalid_request hx records cs bs = Some e \<or>
        e = ImmutableConflict \<and> (\<exists>q \<in> set records. \<exists>u. u \<noteq> jb_value q \<and>
          journal_load hx memory_ops st' (jb_kind q) (jb_durable_key q) = Inr (Some u)))"
proof (cases "invalid_request hx records cs bs")
  case (Some e)
  with assms(6) show ?thesis by (auto simp: persist_records_eq act_err_def env_only_refl)
next
  case None
  let ?ps = "map (prepared_record hx) records"
  have "store_failure memory_ops mem_live ?ps cs bs = (\<lambda>e. False)"
    using memory_never_fails [OF assms(3-5)] by blast
  then have out: "rounds_outcome mem_live (\<lambda>e. False) ms_view env ?ps cs bs (st, n) r (st', n')"
    using live.persist_records_sound [OF assms(1) _ assms(6) None] assms(2) by simp
  have w: "mem_live (fst w)" if "env_only env (st, n) w" for w
    using env_only_disciplined(1) [OF assms(1) _ that] assms(2) by simp
  note ex = holds_record_exact [OF assms(3)]
  show ?thesis
  proof (cases r)
    case (Inl e)
    with out w [of "(st', n')"] show ?thesis
      by (auto simp: rounds_outcome_def load_live [OF assms(3)] conflicts_in_def prepared_record_def)
  next
    case (Inr outcome)
    then show ?thesis
    proof (cases outcome)
      case Committed
      from out Inr Committed obtain pre where pre: "mem_live st'" "env_only env (st, n) (pre, n')"
        "conditions_hold cs (ms_view pre)"
        "ms_view st' = fold view_operation (journal_operations ?ps bs) (ms_view pre)"
        by (auto simp: rounds_outcome_def)
      have "exact_in (ms_view st') p" if "p \<in> set ?ps" for p
        unfolding pre(4) by (rule fold_puts_exact [OF valid_requestD(1) [OF None]
          journal_keys_prepared valid_requestD(2) [OF None] that])
      with ex [OF pre(1)] have "\<forall>q \<in> set records. holds_record hx st' q" by simp
      with pre(2-4) Inr Committed show ?thesis by auto
    next
      case ExactRecord
      with out Inr w [of "(st', n')"] ex [of st'] show ?thesis by (simp add: rounds_outcome_def)
    next
      case PreconditionMismatch
      have "journal_load hx memory_ops (fst v) (jb_kind q) (jb_durable_key q) = Inr None"
        if "env_only env (st, n) v" "absent_in (ms_view (fst v)) (prepared_record hx q)" for v q
        using that w by (simp add: load_live [OF assms(3)] absent_in_def prepared_record_def)
      then show ?thesis
        using out Inr PreconditionMismatch
        by (simp add: rounds_outcome_def del: split_paired_Ex) blast
    qed
  qed
qed

text \<open>
  An example: another writer installs the very record between the first look and the first attempt,
  so that the attempt fails and the second round commits.
\<close>

definition example_record :: JournalBatchRecord where
  "example_record = JournalBatchRecord_new PayoutPlan [1] [2, 3]"

definition example_store :: MemoryStore where
  "example_store = \<lparr>ms_records = [(''index'' @ [NUL] @ ''tip'', [7])], ms_poisoned = False\<rparr>"

definition racing_writer :: "MemoryStore env" where
  "racing_writer n st = (if n = 1 then
     case put_if_absent memory_ops st (kind_namespace PayoutPlan) (lower_hex_encode [1]) [2, 3] of
       Inl e \<Rightarrow> st | Inr (ok, st') \<Rightarrow> st'
     else st)"

definition example_run :: "(DurableInvariantError + JournalBatchOutcome) \<times> (MemoryStore \<times> nat)" where
  "example_run = persist_records_with_conditions_and_batch lower_hex memory_ops racing_writer
     [example_record] [BatchCondition_equals ''index'' ''tip'' [7]] [Put ''index'' ''tip'' [8]]
     (example_store, 0)"

lemma racing_writer_disciplined: "env_disciplined mem_live ms_view racing_writer"
  unfolding env_disciplined_def
proof (intro allI impI)
  fix n st
  assume st: "mem_live st"
  show "mem_live (racing_writer n st) \<and> journal_le (ms_view st) (ms_view (racing_writer n st))"
  proof (cases "n = 1 \<and> (\<exists>ok st'. put_if_absent memory_ops st (kind_namespace PayoutPlan)
      (lower_hex_encode [1]) [2, 3] = Inr (ok, st'))")
    case True
    then obtain ok st' where put: "put_if_absent memory_ops st (kind_namespace PayoutPlan)
      (lower_hex_encode [1]) [2, 3] = Inr (ok, st')" and n: "n = 1" by blast
    from live.put_if_absent_law [OF st put] show ?thesis
      by (auto simp: racing_writer_def n put journal_le_def view_set_def simp del: kind_namespace.simps
          split: if_splits)
  next
    case False
    then have "racing_writer n st = st"
      by (auto simp: racing_writer_def simp del: kind_namespace.simps split: sum.splits)
    with st show ?thesis by (simp add: journal_le_refl)
  qed
qed

lemma example_live: "mem_live example_store"
  by (simp add: mem_live_def ms_inv_def example_store_def bt_wf_def)

lemma example_run_eval: "example_run = (Inr Committed,
   (\<lparr>ms_records = [(''index'' @ [NUL] @ ''tip'', [8]),
      (''journal/payout-plan/v2'' @ [NUL] @ ''01'', [2, 3])], ms_poisoned = False\<rparr>, 5))"
  by code_simp

theorem journal_persist_outcome_witness:
  "fst example_run = Inr Committed \<and> holds_record lower_hex (fst (snd example_run)) example_record"
  using journal_persist_outcome [OF racing_writer_disciplined example_live hex_ok_lower_hex _ _
      example_run_def [symmetric, unfolded example_run_eval]]
  by (simp add: example_run_eval key_ok_def NUL_def BatchCondition_equals_def BatchCondition_new_def)

text \<open>
  C19: a journal record never changes. Whatever a persist operation does or fails to do, and whatever
  the other disciplined writers do meanwhile, a record that could be loaded before can be loaded
  afterwards with the same bytes.
\<close>

theorem journal_records_immutable:
  assumes "env_disciplined mem_live ms_view env" "mem_live st" "hex_ok hx"
    and "persist_records_with_conditions_and_batch hx memory_ops env records cs bs (st, n) = (r, (st', n'))"
    and "journal_load hx memory_ops st kind key = Inr (Some v)"
  shows "journal_load hx memory_ops st' kind key = Inr (Some v)"
proof -
  have "mem_live st'" using live.persist_records_inv [OF assms(1) _ assms(4)] assms(2) by simp
  moreover have "journal_le (ms_view st) (ms_view st')"
    using live.persist_records_guarantee [OF assms(1) _ assms(4)] assms(2) by simp
  ultimately show ?thesis
    using assms(2,5) by (auto simp: load_live [OF assms(3)] journal_le_def is_journal_namespace_def)
qed

definition example_conflict :: "(DurableInvariantError + JournalBatchOutcome) \<times> (MemoryStore \<times> nat)" where
  "example_conflict = persist_records_with_conditions_and_batch lower_hex memory_ops racing_writer
     [JournalBatchRecord_new PayoutPlan [1] [9]] [] [] (fst (snd example_run), 0)"

lemma example_conflict_eval:
  "example_conflict = (Inl ImmutableConflict, (fst (snd example_run), 1))"
  by code_simp

theorem journal_records_immutable_witness:
  "fst example_conflict = Inl ImmutableConflict \<and>
   journal_load lower_hex memory_ops (fst (snd example_conflict)) PayoutPlan [1] = Inr (Some [2, 3])"
proof -
  have "mem_live (fst (snd example_run))"
    by (simp add: example_run_eval mem_live_def ms_inv_def bt_wf_def)
  moreover have "journal_load lower_hex memory_ops (fst (snd example_run)) PayoutPlan [1] = Inr (Some [2, 3])"
    by code_simp
  ultimately show ?thesis
    using journal_records_immutable [OF racing_writer_disciplined _ hex_ok_lower_hex
        example_conflict_def [symmetric, unfolded example_conflict_eval]]
    by (simp add: example_conflict_eval)
qed

end
