(* ===== verification/Journal_Recovery.thy ===== *)
theory Journal_Recovery
  imports Protocol_Journal
begin

text \<open>
  Recovery of the journal (\<^verbatim>\<open>recover_kind\<close>, \<^verbatim>\<open>recover_kind_page\<close> of
  \<^verbatim>\<open>crates/meshmine-storage/src/lib.rs\<close>) and the signing guard over the in-memory store: what a
  recovery returns, that reading page by page ends with the whole category, and that one object at
  most is ever authorised per role, scope and sequence.
\<close>

section \<open>Reading page by page\<close>

text \<open>
  The documented use of pages: follow \<^verbatim>\<open>next_cursor\<close> until it is absent. \<^verbatim>\<open>None\<close> is the value when
  the given number of pages was not enough.
\<close>

fun recover_pages ::
  "Hex \<Rightarrow> 'st store_ops \<Rightarrow> 'st \<Rightarrow> ProtocolRecordKind \<Rightarrow> ScanLimits \<Rightarrow> nat \<Rightarrow> bytes option \<Rightarrow>
   (DurableInvariantError + RecoveredProtocolRecord list) option" where
  "recover_pages hx ops st kind limits 0 cursor = None"
| "recover_pages hx ops st kind limits (Suc pages) cursor =
     (case recover_kind_page hx ops st kind cursor limits of
        Inl e \<Rightarrow> Some (Inl e)
      | Inr page \<Rightarrow> (case pp_next_cursor page of
          None \<Rightarrow> Some (Inr (pr_records (pp_recovery page)))
        | Some c \<Rightarrow> map_option (\<lambda>rest. res_bind rest (\<lambda>records.
            Inr (pr_records (pp_recovery page) @ records)))
            (recover_pages hx ops st kind limits pages (Some c))))"

section \<open>Decoding scanned records\<close>

definition canonical_key :: "Hex \<Rightarrow> NamespaceRecord \<Rightarrow> bool" where
  "canonical_key hx r \<longleftrightarrow> nr_key r \<in> range (hex_encode hx)"

definition decoded :: "Hex \<Rightarrow> ProtocolRecordKind \<Rightarrow> NamespaceRecord \<Rightarrow> RecoveredProtocolRecord" where
  "decoded hx kind r =
     \<lparr>rp_kind = kind, rp_durable_key = the (hex_decode hx (nr_key r)), rp_value = nr_value r\<rparr>"

definition scan_bytes :: "NamespaceRecord list \<Rightarrow> nat" where
  "scan_bytes rs = sum_list (map (\<lambda>r. length (nr_key r) + length (nr_value r)) rs)"

definition value_bytes :: "NamespaceRecord list \<Rightarrow> nat" where
  "value_bytes rs = sum_list (map (\<lambda>r. length (nr_value r)) rs)"

lemma value_le_scan: "value_bytes rs \<le> scan_bytes rs"
  by (induction rs) (auto simp: value_bytes_def scan_bytes_def)

lemma decoded_key:
  "hex_ok hx \<Longrightarrow> canonical_key hx r \<Longrightarrow> hex_encode hx (rp_durable_key (decoded hx kind r)) = nr_key r"
  by (auto simp: canonical_key_def decoded_def hex_ok_def)

lemma u64_try_from_iff: "u64_try_from n = Some w \<longleftrightarrow> unat w = n"
proof -
  have "unat w < 2 ^ 64" using unsigned_less [of w] by simp
  then show ?thesis by (auto simp: u64_try_from_def unat_of_nat_u64)
qed

lemma bind_Some_iff: "Option.bind x f = Some b \<longleftrightarrow> (\<exists>a. x = Some a \<and> f a = Some b)"
  by (cases x) auto

text \<open>One record: it is accepted exactly when the key is new, canonical, and the totals fit.\<close>

lemma decode_one:
  assumes "decode_protocol_record hx kind (recovery, prev) r = Inr (recovery', prev')"
  shows "case prev of None \<Rightarrow> True | Some p \<Rightarrow> p < nr_key r" "canonical_key hx r"
    "pr_records recovery' = pr_records recovery @ [decoded hx kind r]"
    "unat (pr_total_scan_bytes recovery') =
       unat (pr_total_scan_bytes recovery) + scan_bytes [r]"
    "unat (pr_total_value_bytes recovery') = unat (pr_total_value_bytes recovery) + value_bytes [r]"
    "prev' = Some (nr_key r)"
  using assms
  by (auto simp: decode_protocol_record_def res_simps u64_try_from_iff bind_Some_iff checked_add_Some
      decoded_def scan_bytes_def value_bytes_def canonical_key_def split: option.splits if_splits;
      metis rangeI)+

lemma decode_one_total:
  assumes "hex_ok hx" "canonical_key hx r" "case prev of None \<Rightarrow> True | Some p \<Rightarrow> p < nr_key r"
    and "unat (pr_total_scan_bytes recovery) + scan_bytes [r] < 2 ^ 64"
    and "unat (pr_total_value_bytes recovery) + value_bytes [r] < 2 ^ 64"
  shows "\<exists>recovery'. decode_protocol_record hx kind (recovery, prev) r =
    Inr (recovery', Some (nr_key r))"
proof -
  obtain k where k: "nr_key r = hex_encode hx k" "hex_decode hx (nr_key r) = Some k"
    using assms(1,2) by (auto simp: canonical_key_def hex_ok_def)
  have len: "length (nr_key r) < 2 ^ 64" "length (nr_value r) < 2 ^ 64"
    using assms(4) by (auto simp: scan_bytes_def)
  have add: "\<exists>c. checked_add a b = Some c \<and> unat c = unat a + unat b"
    if "unat a + unat b < 2 ^ 64" for a b :: u64
    using that by (auto simp: checked_add_def unat_word_ariths)
  let ?k = "of_nat (length (nr_key r)) :: u64" and ?v = "of_nat (length (nr_value r)) :: u64"
  obtain t1 where t1: "checked_add (pr_total_scan_bytes recovery) ?k = Some t1"
      "unat t1 = unat (pr_total_scan_bytes recovery) + length (nr_key r)"
    using add [of "pr_total_scan_bytes recovery" ?k] assms(4) len
    by (auto simp: unat_of_nat_u64 scan_bytes_def)
  obtain t2 where t2: "checked_add t1 ?v = Some t2"
    using add [of t1 ?v] assms(4) len t1(2) by (auto simp: unat_of_nat_u64 scan_bytes_def)
  obtain t3 where t3: "checked_add (pr_total_value_bytes recovery) ?v = Some t3"
    using add [of "pr_total_value_bytes recovery" ?v] assms(5) len
    by (auto simp: unat_of_nat_u64 value_bytes_def)
  show ?thesis
    using assms(3) k len t1(1) t2 t3
    by (cases prev) (simp_all add: decode_protocol_record_def u64_try_from_def not_le [symmetric])
qed

definition fresh_run :: "string option \<Rightarrow> NamespaceRecord list \<Rightarrow> bool" where
  "fresh_run prev rs \<longleftrightarrow> sorted_wrt (<) (map nr_key rs) \<and>
     (\<forall>r \<in> set rs. case prev of None \<Rightarrow> True | Some p \<Rightarrow> p < nr_key r)"

lemma fresh_run_Cons:
  "fresh_run prev (r # rs) \<longleftrightarrow>
    (case prev of None \<Rightarrow> True | Some p \<Rightarrow> p < nr_key r) \<and> fresh_run (Some (nr_key r)) rs"
  by (auto simp: fresh_run_def split: option.splits intro: less_trans)

lemma scan_bytes_Cons: "scan_bytes (r # rs) = scan_bytes [r] + scan_bytes rs"
  "value_bytes (r # rs) = value_bytes [r] + value_bytes rs"
  by (simp_all add: scan_bytes_def value_bytes_def)

lemma decode_fold:
  assumes "res_foldM (decode_protocol_record hx kind) (recovery, prev) rs = Inr (recovery', prev')"
  shows "fresh_run prev rs \<and> (\<forall>r \<in> set rs. canonical_key hx r) \<and>
    pr_records recovery' = pr_records recovery @ map (decoded hx kind) rs \<and>
    unat (pr_total_scan_bytes recovery') = unat (pr_total_scan_bytes recovery) + scan_bytes rs \<and>
    unat (pr_total_value_bytes recovery') = unat (pr_total_value_bytes recovery) + value_bytes rs"
  using assms
proof (induction rs arbitrary: recovery prev)
  case (Cons r rs)
  then obtain rec1 prev1 where 1: "decode_protocol_record hx kind (recovery, prev) r = Inr (rec1, prev1)"
      and 2: "res_foldM (decode_protocol_record hx kind) (rec1, prev1) rs = Inr (recovery', prev')"
    by (auto simp: res_bind_Inr_iff)
  from decode_one [OF 1] Cons.IH [OF 2] show ?case
    by (simp add: fresh_run_Cons scan_bytes_Cons [of r rs])
qed (auto simp: fresh_run_def scan_bytes_def value_bytes_def)

lemma decode_fold_total:
  assumes "hex_ok hx" "\<forall>r \<in> set rs. canonical_key hx r" "fresh_run prev rs"
    and "unat (pr_total_scan_bytes recovery) + scan_bytes rs < 2 ^ 64"
    and "unat (pr_total_value_bytes recovery) + value_bytes rs < 2 ^ 64"
  shows "\<exists>z. res_foldM (decode_protocol_record hx kind) (recovery, prev) rs = Inr z"
  using assms(2-)
proof (induction rs arbitrary: recovery prev)
  case (Cons r rs)
  have c: "canonical_key hx r" "case prev of None \<Rightarrow> True | Some p \<Rightarrow> p < nr_key r"
    using Cons.prems(1,2) by (simp_all add: fresh_run_Cons)
  have "unat (pr_total_scan_bytes recovery) + scan_bytes [r] < 2 ^ 64"
    "unat (pr_total_value_bytes recovery) + value_bytes [r] < 2 ^ 64"
    using Cons.prems(3,4) by (simp_all add: scan_bytes_Cons [of r rs])
  then obtain rec1 where 1: "decode_protocol_record hx kind (recovery, prev) r = Inr (rec1, Some (nr_key r))"
    using decode_one_total [OF assms(1) c] by blast
  have "unat (pr_total_scan_bytes rec1) + scan_bytes rs < 2 ^ 64"
    "unat (pr_total_value_bytes rec1) + value_bytes rs < 2 ^ 64"
    using Cons.prems(3,4) decode_one(4,5) [OF 1] by (simp_all add: scan_bytes_Cons [of r rs])
  with Cons.IH [of "Some (nr_key r)" rec1] Cons.prems(1,2) 1 show ?case
    by (simp add: fresh_run_Cons)
qed simp

lemma decode_records_Inr:
  assumes "decode_protocol_records hx kind rs = Inr recovery"
  shows "fresh_run None rs" "\<forall>r \<in> set rs. canonical_key hx r"
    "pr_records recovery = map (decoded hx kind) rs"
    "unat (pr_total_scan_bytes recovery) = scan_bytes rs"
    "unat (pr_total_value_bytes recovery) = value_bytes rs"
  using assms decode_fold [of hx kind "\<lparr>pr_records = [], pr_total_value_bytes = 0, pr_total_scan_bytes = 0\<rparr>" None rs]
  by (auto simp: decode_protocol_records_def res_bind_Inr_iff)

lemma decode_records_total:
  assumes "hex_ok hx" "\<forall>r \<in> set rs. canonical_key hx r" "fresh_run None rs" "scan_bytes rs < 2 ^ 64"
  shows "\<exists>recovery. decode_protocol_records hx kind rs = Inr recovery"
proof -
  have "value_bytes rs < 2 ^ 64" using assms(4) value_le_scan [of rs] by linarith
  with decode_fold_total [OF assms(1-3), where kind = kind and
      recovery = "\<lparr>pr_records = [], pr_total_value_bytes = 0, pr_total_scan_bytes = 0\<rparr>"]
    assms(4) show ?thesis by (auto simp: decode_protocol_records_def)
qed

section \<open>Recovery of a category\<close>

lemma namespace_records_load:
  assumes "hex_ok hx" "mem_live st"
  shows "\<lparr>nr_key = hex_encode hx key, nr_value = v\<rparr> \<in> set (namespace_records st (kind_namespace kind)) \<longleftrightarrow>
    journal_load hx memory_ops st kind key = Inr (Some v)"
proof -
  have "NUL \<notin> set (hex_encode hx key)" using assms(1) by (simp add: hex_ok_def)
  with assms show ?thesis
    by (simp add: load_live namespace_records_view kind_namespace_no_NUL mem_live_def)
qed

lemma decoded_mem:
  assumes "hex_ok hx" "\<forall>r \<in> set rs. canonical_key hx r"
  shows "\<lparr>rp_kind = kind, rp_durable_key = key, rp_value = v\<rparr> \<in> set (map (decoded hx kind) rs) \<longleftrightarrow>
    \<lparr>nr_key = hex_encode hx key, nr_value = v\<rparr> \<in> set rs"
proof
  assume "\<lparr>rp_kind = kind, rp_durable_key = key, rp_value = v\<rparr> \<in> set (map (decoded hx kind) rs)"
  then obtain r where r: "r \<in> set rs" "decoded hx kind r = \<lparr>rp_kind = kind, rp_durable_key = key, rp_value = v\<rparr>"
    by auto
  then have "nr_key r = hex_encode hx key" "nr_value r = v"
    using decoded_key [OF assms(1), of r kind] assms(2) by (auto simp: decoded_def)
  then have "r = \<lparr>nr_key = hex_encode hx key, nr_value = v\<rparr>" by simp
  with r(1) show "\<lparr>nr_key = hex_encode hx key, nr_value = v\<rparr> \<in> set rs" by simp
next
  assume "\<lparr>nr_key = hex_encode hx key, nr_value = v\<rparr> \<in> set rs"
  then have "decoded hx kind \<lparr>nr_key = hex_encode hx key, nr_value = v\<rparr> \<in> set (map (decoded hx kind) rs)"
    by simp
  with assms(1) show "\<lparr>rp_kind = kind, rp_durable_key = key, rp_value = v\<rparr> \<in> set (map (decoded hx kind) rs)"
    by (simp add: decoded_def hex_ok_def)
qed

lemma decoded_distinct:
  assumes "hex_ok hx" "\<forall>r \<in> set rs. canonical_key hx r" "sorted_wrt (<) (map nr_key rs)"
  shows "distinct (map rp_durable_key (map (decoded hx kind) rs))"
proof -
  have "map (hex_encode hx) (map rp_durable_key (map (decoded hx kind) rs)) = map nr_key rs"
    using decoded_key [OF assms(1)] assms(2) by simp
  moreover have "distinct (map nr_key rs)"
    using assms(3) by (simp add: sorted_wrt_less_distinct)
  ultimately show ?thesis by (metis distinct_map)
qed

text \<open>
  C24: what recovery returns. A successful recovery of one category lists every record of it exactly
  once, with its original key and bytes, and nothing else; its totals are the exact byte counts.
\<close>

theorem recover_kind_exact:
  assumes "hex_ok hx" "mem_live st" "recover_kind hx memory_ops st kind limits = Inr recovery"
  shows "(\<forall>key v. \<lparr>rp_kind = kind, rp_durable_key = key, rp_value = v\<rparr> \<in> set (pr_records recovery) \<longleftrightarrow>
      journal_load hx memory_ops st kind key = Inr (Some v)) \<and>
    (\<forall>r \<in> set (pr_records recovery). rp_kind r = kind) \<and>
    distinct (map rp_durable_key (pr_records recovery)) \<and>
    unat (pr_total_value_bytes recovery) = sum_list (map (length \<circ> rp_value) (pr_records recovery)) \<and>
    unat (pr_total_scan_bytes recovery) = sum_list (map (\<lambda>r.
      length (hex_encode hx (rp_durable_key r)) + length (rp_value r)) (pr_records recovery))"
proof -
  let ?rs = "namespace_records st (kind_namespace kind)"
  have dec: "decode_protocol_records hx kind ?rs = Inr recovery"
    using assms(3) scan_namespace_Inr by (auto simp: recover_kind_def memory_ops_def res_simps)
  note d = decode_records_Inr [OF dec]
  have "map nr_key ?rs = map (\<lambda>r. hex_encode hx (rp_durable_key (decoded hx kind r))) ?rs"
    using decoded_key [OF assms(1)] d(2) by simp
  then have "scan_bytes ?rs = sum_list (map (\<lambda>r.
      length (hex_encode hx (rp_durable_key r)) + length (rp_value r)) (pr_records recovery))"
    using d(2,3) decoded_key [OF assms(1)]
    by (auto simp: scan_bytes_def comp_def decoded_def intro!: arg_cong [where f = sum_list])
  moreover have "value_bytes ?rs = sum_list (map (length \<circ> rp_value) (pr_records recovery))"
    by (simp add: d(3) value_bytes_def comp_def decoded_def)
  moreover have "distinct (map rp_durable_key (pr_records recovery))"
    using decoded_distinct [OF assms(1) d(2)] d(1) by (simp add: d(3) fresh_run_def)
  moreover have "\<forall>r \<in> set (pr_records recovery). rp_kind r = kind" by (auto simp: d(3) decoded_def)
  ultimately show ?thesis
    using decoded_mem [OF assms(1) d(2)] namespace_records_load [OF assms(1,2)] d(4,5)
    by (simp only: d(3)) simp
qed

section \<open>Pages\<close>

lemma append_page_record_bytes:
  assumes "append_page_record rs t key v limits = Inr (Some (rs', t'))"
  shows "unat t' = unat t + (length key + length v)"
    "unat t' \<le> unat (sl_maximum_total_bytes limits)"
  using assms
  by (auto simp: append_page_record_def res_simps u64_try_from_iff bind_Some_iff checked_add_Some
      word_less_nat_alt split: if_splits)

lemma scan_page_bytes:
  assumes "\<forall>e \<in> set es. in_namespace ns e"
    and "scan_page (ns @ [NUL]) limits rs t es = Inr page"
    and "unat t = scan_bytes rs" "unat t \<le> unat (sl_maximum_total_bytes limits)"
  shows "scan_bytes (np_records page) \<le> unat (sl_maximum_total_bytes limits)"
  using assms
proof (induction es arbitrary: rs t)
  case (Cons e es)
  obtain k v where e: "e = (k, v)" by force
  let ?key = "drop (Suc (length ns)) k"
  from Cons.prems(1,2) e obtain ap where ap: "append_page_record rs t ?key v limits = Inr ap"
    by (auto simp: res_bind_Inr_iff strip_prefix_namespace)
  show ?case
  proof (cases ap)
    case None
    then show ?thesis using Cons.prems e ap
      by (auto simp: strip_prefix_namespace split: if_splits)
  next
    case (Some q)
    obtain rs1 t1 where q: "q = (rs1, t1)" by force
    note b = append_page_record_bytes [OF ap [unfolded Some q]]
    have "rs1 = rs @ [\<lparr>nr_key = ?key, nr_value = v\<rparr>]"
      using append_page_record_Some [OF ap [unfolded Some q]] .
    then have "unat t1 = scan_bytes rs1" using b(1) Cons.prems(3) by (simp add: scan_bytes_def)
    with Cons.IH [of rs1 t1] Cons.prems e ap Some q b(2) show ?thesis
      by (auto simp: strip_prefix_namespace)
  qed
qed auto

lemma records_after_next:
  assumes "sorted_wrt (<) (map nr_key rs)" "records_after cursor rs = xs @ rest" "xs \<noteq> []"
  shows "records_after (Some (nr_key (last xs))) rs = rest"
proof -
  let ?c = "nr_key (last xs)"
  have "sorted_wrt (<) (map nr_key (xs @ rest))"
    using assms(1) unfolding assms(2) [symmetric] records_after_def sorted_wrt_map
    by (rule sorted_wrt_filter)
  then have srt: "sorted_wrt (\<lambda>a b. nr_key a < nr_key b) (xs @ rest)"
    by (simp only: sorted_wrt_map)
  have last: "last xs \<in> set (records_after cursor rs)" by (simp add: assms(2,3))
  have "records_after (Some ?c) rs = filter (\<lambda>r. ?c < nr_key r) (records_after cursor rs)"
    using last by (auto simp: records_after_def intro!: filter_cong split: option.splits)
  also have "\<dots> = filter (\<lambda>r. ?c < nr_key r) xs @ filter (\<lambda>r. ?c < nr_key r) rest"
    by (simp add: assms(2))
  also have "filter (\<lambda>r. ?c < nr_key r) xs = []"
  proof -
    obtain ys y where xs: "xs = ys @ [y]" using assms(3) rev_exhaust by blast
    have "nr_key a < nr_key y" if "a \<in> set ys" for a
      using srt that by (auto simp: xs sorted_wrt_append)
    then show ?thesis by (auto simp: xs filter_empty_conv dest: order.asym)
  qed
  also have "filter (\<lambda>r. ?c < nr_key r) rest = rest"
    using srt assms(3) by (auto simp: sorted_wrt_append)
  finally show ?thesis by simp
qed

text \<open>A category whose records all fit a page of their own.\<close>

definition pageable :: "Hex \<Rightarrow> MemoryStore \<Rightarrow> ProtocolRecordKind \<Rightarrow> ScanLimits \<Rightarrow> bool" where
  "pageable hx st kind limits \<longleftrightarrow> sl_maximum_records limits > 0 \<and>
     (\<forall>r \<in> set (namespace_records st (kind_namespace kind)).
        canonical_key hx r \<and> admissible_record limits r)"

lemma recover_page:
  assumes "hex_ok hx" "mem_live st" "pageable hx st kind limits"
  shows "\<exists>page xs rest. recover_kind_page hx memory_ops st kind cursor limits = Inr page \<and>
    records_after (map_option (hex_encode hx) cursor) (namespace_records st (kind_namespace kind)) = xs @ rest \<and>
    pr_records (pp_recovery page) = map (decoded hx kind) xs \<and> (rest \<noteq> [] \<longrightarrow> xs \<noteq> []) \<and>
    pp_next_cursor page = (if rest = [] then None else Some (rp_durable_key (decoded hx kind (last xs))))"
proof -
  let ?ns = "kind_namespace kind" and ?c = "map_option (hex_encode hx) cursor"
  let ?N = "namespace_records st ?ns"
  have nul: "NUL \<notin> set ?ns" "case ?c of None \<Rightarrow> True | Some c \<Rightarrow> NUL \<notin> set c" "\<not> ms_poisoned st"
    using assms(1,2) kind_namespace_no_NUL by (auto simp: hex_ok_def mem_live_def split: option.splits)
  obtain page where page: "MemoryStore_scan_namespace_after st ?ns ?c limits = Inr page"
    using scan_after_total [OF nul, of limits] assms(3) by (auto simp: pageable_def)
  obtain rest where rest: "records_after ?c ?N = np_records page @ rest"
      "np_has_more page \<longleftrightarrow> rest \<noteq> []" "np_has_more page \<longrightarrow> np_records page \<noteq> []"
    using scan_after_Inr [OF page] by blast
  obtain es where es: "\<forall>e \<in> set es. in_namespace ?ns e"
      "scan_page (?ns @ [NUL]) limits [] 0 es = Inr page"
    using scan_after_eq [OF nul, of limits] page by auto
  let ?xs = "np_records page"
  have sub: "set ?xs \<subseteq> set ?N" using rest(1) by (metis filter_is_subset le_sup_iff records_after_def set_append)
  have can: "\<forall>r \<in> set ?xs. canonical_key hx r" using sub assms(3) by (auto simp: pageable_def)
  have srt: "sorted_wrt (<) (map nr_key ?N)"
    using namespace_records_sorted assms(2) by (simp add: mem_live_def)
  then have "sorted_wrt (<) (map nr_key (?xs @ rest))"
    unfolding rest(1) [symmetric] records_after_def sorted_wrt_map by (rule sorted_wrt_filter)
  then have fresh: "fresh_run None ?xs" by (simp add: fresh_run_def sorted_wrt_append)
  have "scan_bytes ?xs \<le> unat (sl_maximum_total_bytes limits)"
    using scan_page_bytes [OF es] by (simp add: scan_bytes_def)
  also have "\<dots> < 2 ^ 64" using unsigned_less [of "sl_maximum_total_bytes limits"] by simp
  finally obtain recovery where rec: "decode_protocol_records hx kind ?xs = Inr recovery"
    using decode_records_total [OF assms(1) can fresh] by blast
  note d = decode_records_Inr(3) [OF rec]
  have first: "\<not> (case ?c of None \<Rightarrow> False | Some c \<Rightarrow> ?xs \<noteq> [] \<and> nr_key (hd ?xs) \<le> c)"
  proof -
    have "?xs \<noteq> [] \<longrightarrow> hd ?xs \<in> set (records_after ?c ?N)" using rest(1) by simp
    then show ?thesis
      by (cases "?xs = []") (auto simp: records_after_def not_le split: option.splits)
  qed
  have "recover_kind_page hx memory_ops st kind cursor limits =
      Inr \<lparr>pp_recovery = recovery, pp_next_cursor =
        (if rest = [] then None else Some (rp_durable_key (decoded hx kind (last ?xs))))\<rparr>"
    using page rest(2,3) first
    by (auto simp: recover_kind_page_def memory_ops_def rec d last_map simp del: not_None_eq)
  with rest d show ?thesis by auto
qed

lemma recover_pages_after:
  assumes "hex_ok hx" "mem_live st" "pageable hx st kind limits"
    and "length (records_after (map_option (hex_encode hx) cursor)
      (namespace_records st (kind_namespace kind))) < pages"
  shows "recover_pages hx memory_ops st kind limits pages cursor =
    Some (Inr (map (decoded hx kind) (records_after (map_option (hex_encode hx) cursor)
      (namespace_records st (kind_namespace kind)))))"
  using assms(4)
proof (induction pages arbitrary: cursor)
  case (Suc pages)
  let ?N = "namespace_records st (kind_namespace kind)"
  obtain page xs rest where p: "recover_kind_page hx memory_ops st kind cursor limits = Inr page"
      "records_after (map_option (hex_encode hx) cursor) ?N = xs @ rest"
      "pr_records (pp_recovery page) = map (decoded hx kind) xs" "rest \<noteq> [] \<longrightarrow> xs \<noteq> []"
      "pp_next_cursor page =
        (if rest = [] then None else Some (rp_durable_key (decoded hx kind (last xs))))"
    using recover_page [OF assms(1-3)] by blast
  show ?case
  proof (cases "rest = []")
    case True
    with p show ?thesis by simp
  next
    case False
    have "last xs \<in> set ?N"
      using p(2,4) False by (metis Un_iff filter_is_subset last_in_set records_after_def set_append subsetD)
    then have "canonical_key hx (last xs)" using assms(3) by (simp add: pageable_def)
    then have "map_option (hex_encode hx) (Some (rp_durable_key (decoded hx kind (last xs)))) =
        Some (nr_key (last xs))"
      by (simp add: decoded_key [OF assms(1)])
    moreover have "records_after (Some (nr_key (last xs))) ?N = rest"
      using records_after_next [OF _ p(2)] p(4) False namespace_records_sorted assms(2)
      by (simp add: mem_live_def)
    ultimately show ?thesis
      using Suc.IH [of "Some (rp_durable_key (decoded hx kind (last xs)))"] Suc.prems p False
      by (cases xs) auto
  qed
qed simp

text \<open>
  C23: reading a category page by page ends and misses nothing, on a store that does not change between
  the pages (the source asks callers to quiesce writers). If every record of the category has a canonical
  key and is within the limits of a page, and a page may hold at least one record, then following the
  cursor from the start ends after at most one page more than there are records, and the pages together
  list every record of the category exactly once.
\<close>

theorem recover_pages_complete:
  assumes "hex_ok hx" "mem_live st" "pageable hx st kind limits"
    and "length (namespace_records st (kind_namespace kind)) < pages"
  shows "\<exists>records. recover_pages hx memory_ops st kind limits pages None = Some (Inr records) \<and>
    distinct (map rp_durable_key records) \<and>
    (\<forall>key v. \<lparr>rp_kind = kind, rp_durable_key = key, rp_value = v\<rparr> \<in> set records \<longleftrightarrow>
      journal_load hx memory_ops st kind key = Inr (Some v))"
proof -
  let ?N = "namespace_records st (kind_namespace kind)"
  have N: "records_after (map_option (hex_encode hx) None) ?N = ?N"
    by (simp add: records_after_def)
  have can: "\<forall>r \<in> set ?N. canonical_key hx r" using assms(3) by (simp add: pageable_def)
  have "recover_pages hx memory_ops st kind limits pages None = Some (Inr (map (decoded hx kind) ?N))"
    using recover_pages_after [OF assms(1-3), of None pages] assms(4) N by simp
  moreover have "distinct (map rp_durable_key (map (decoded hx kind) ?N))"
    by (rule decoded_distinct [OF assms(1) can])
      (use namespace_records_sorted assms(2) in \<open>simp add: mem_live_def\<close>)
  ultimately show ?thesis
    using decoded_mem [OF assms(1) can] namespace_records_load [OF assms(1,2)] by blast
qed

definition example_limits :: ScanLimits where
  "example_limits = \<lparr>sl_maximum_records = 1, sl_maximum_value_bytes = 16, sl_maximum_total_bytes = 32\<rparr>"

definition example_journal :: MemoryStore where
  "example_journal = \<lparr>ms_records =
     [(''index'' @ [NUL] @ ''tip'', [8]),
      (''journal/payout-plan/v2'' @ [NUL] @ ''01'', [2, 3]),
      (''journal/payout-plan/v2'' @ [NUL] @ ''0a'', [5])], ms_poisoned = False\<rparr>"

lemma example_journal_live: "mem_live example_journal"
  unfolding mem_live_def ms_inv_def bt_wf_def by code_simp

lemma example_journal_records: "namespace_records example_journal (kind_namespace PayoutPlan) =
  [\<lparr>nr_key = ''01'', nr_value = [2, 3]\<rparr>, \<lparr>nr_key = ''0a'', nr_value = [5]\<rparr>]"
  by code_simp

lemma example_pageable: "pageable lower_hex example_journal PayoutPlan example_limits"
proof -
  have "''01'' = hex_encode lower_hex [1]" "''0a'' = hex_encode lower_hex [10]" by code_simp+
  then have "''01'' \<in> range (hex_encode lower_hex)" "''0a'' \<in> range (hex_encode lower_hex)"
    by (metis rangeI)+
  then show ?thesis
    by (simp add: pageable_def example_journal_records canonical_key_def admissible_record_def
        example_limits_def del: kind_namespace.simps)
qed

theorem recover_pages_complete_witness:
  "\<exists>records. recover_pages lower_hex memory_ops example_journal PayoutPlan example_limits 3 None =
      Some (Inr records) \<and> distinct (map rp_durable_key records)"
  using recover_pages_complete [OF hex_ok_lower_hex example_journal_live example_pageable, of 3]
  unfolding example_journal_records by auto

lemma example_recovery: "recover_kind lower_hex memory_ops example_journal PayoutPlan
    \<lparr>sl_maximum_records = 2, sl_maximum_value_bytes = 16, sl_maximum_total_bytes = 32\<rparr> =
  Inr \<lparr>pr_records = [\<lparr>rp_kind = PayoutPlan, rp_durable_key = [1], rp_value = [2, 3]\<rparr>,
      \<lparr>rp_kind = PayoutPlan, rp_durable_key = [10], rp_value = [5]\<rparr>],
    pr_total_value_bytes = 3, pr_total_scan_bytes = 7\<rparr>"
  by code_simp

theorem recover_kind_exact_witness:
  "journal_load lower_hex memory_ops example_journal PayoutPlan [10] = Inr (Some [5])"
  using recover_kind_exact [OF hex_ok_lower_hex example_journal_live example_recovery,
      THEN conjunct1, rule_format, of "[10]" "[5]"] by simp

section \<open>The signing guard\<close>

definition guard_le :: "kv_view \<Rightarrow> kv_view \<Rightarrow> bool" where
  "guard_le m m' \<longleftrightarrow> (\<forall>key v. m ''sign-guard/v2'' key = Some v \<longrightarrow> m' ''sign-guard/v2'' key = Some v)"

definition env_guarded :: "('st \<Rightarrow> bool) \<Rightarrow> ('st \<Rightarrow> kv_view) \<Rightarrow> 'st env \<Rightarrow> bool" where
  "env_guarded I view env \<longleftrightarrow>
     (\<forall>n st. I st \<longrightarrow> I (env n st) \<and> guard_le (view st) (view (env n st)))"

lemma env_only_guarded:
  assumes "env_guarded I view env" "I (fst w)" "env_only env w w'"
  shows "I (fst w') \<and> guard_le (view (fst w)) (view (fst w'))"
proof -
  have "I (fold env ns st) \<and> guard_le (view st) (view (fold env ns st))" if "I st" for ns st
    using that
  proof (induction ns arbitrary: st)
    case (Cons n ns)
    then show ?case using assms(1) by (auto simp: env_guarded_def guard_le_def)
  qed (simp add: guard_le_def)
  with assms(2,3) show ?thesis by (simp add: env_only_def)
qed

context durable_store
begin

text \<open>A successful authorisation leaves the reservation in the store.\<close>

lemma authorize_reserves:
  assumes "env_guarded inv view env" "inv (fst w)"
    and "authorize hx ops env role scope sequence object_id w = (Inr (), w')"
  shows "inv (fst w') \<and> guard_le (view (fst w)) (view (fst w')) \<and>
    view (fst w') ''sign-guard/v2'' (sign_guard_key hx role scope sequence) = Some object_id"
proof -
  let ?key = "sign_guard_key hx role scope sequence"
  obtain st n where w: "w = (st, n)" by force
  let ?s = "env n st"
  have s: "inv ?s" "guard_le (view st) (view ?s)"
    using assms(1,2) by (auto simp: w env_guarded_def)
  obtain ok st1 where put: "put_if_absent ops ?s ''sign-guard/v2'' ?key object_id = Inr (ok, st1)"
    using assms(3) by (auto simp: w authorize_def act_err_def Let_def split: if_splits sum.splits)
  note law = put_if_absent_law [OF s(1) put]
  show ?thesis
  proof (cases ok)
    case True
    then have "w' = (st1, Suc n)"
      using assms(3) put by (auto simp: w authorize_def act_err_def act_return_def Let_def split: if_splits)
    with True law s show ?thesis by (auto simp: w guard_le_def view_set_def)
  next
    case False
    then have st1: "st1 = ?s" using law(3) by simp
    let ?t = "env (Suc n) ?s"
    have t: "inv ?t" "guard_le (view ?s) (view ?t)"
      using assms(1) s(1) by (auto simp: env_guarded_def)
    have "so_get ops ?t ''sign-guard/v2'' ?key = Inr (Some object_id) \<and> w' = (?t, Suc (Suc n))"
      using assms(3) put False st1
      by (auto simp: w authorize_def act_err_def act_return_def Let_def
          split: if_splits sum.splits option.splits)
    then show ?thesis using get_law [OF t(1)] t s by (auto simp: w guard_le_def)
  qed
qed

end

text \<open>
  One signature per role, scope and sequence. Among any other writers that never change a
  reservation, if the guard authorises an object for a role, scope and sequence, and later
  authorises an object for the same role, scope and sequence again, then it is the same object.
\<close>

theorem one_object_per_sequence:
  assumes "env_guarded mem_live ms_view env" "mem_live st"
    and "authorize hx memory_ops env role scope sequence object_id (st, n) = (Inr (), w1)"
    and "env_only env w1 w2"
    and "authorize hx memory_ops env role scope sequence object_id' w2 = (Inr (), w3)"
  shows "object_id' = object_id"
proof -
  note r1 = live.authorize_reserves [OF assms(1) _ assms(3)]
  note e2 = env_only_guarded [OF assms(1) _ assms(4)]
  note r3 = live.authorize_reserves [OF assms(1) _ assms(5)]
  show ?thesis using r1 e2 r3 assms(2) by (auto simp: guard_le_def)
qed

definition sequential :: "'st env" where
  "sequential n st = st"

lemma sequential_guarded: "env_guarded I view sequential"
  by (simp add: env_guarded_def sequential_def guard_le_def)

definition empty_store :: MemoryStore where
  "empty_store = \<lparr>ms_records = [], ms_poisoned = False\<rparr>"

lemma empty_store_live: "mem_live empty_store"
  by (simp add: mem_live_def ms_inv_def empty_store_def)

definition example_authorize :: "hash256 \<Rightarrow> (DurableInvariantError + unit) \<times> (MemoryStore \<times> nat)" where
  "example_authorize object_id =
     authorize lower_hex memory_ops sequential ''receipt'' [7] 12 object_id (empty_store, 0)"

lemma example_authorize_eval:
  "example_authorize [1] = (Inr (), snd (example_authorize [1]))"
  "authorize lower_hex memory_ops sequential ''receipt'' [7] 12 [1] (snd (example_authorize [1])) =
    (Inr (), snd (authorize lower_hex memory_ops sequential ''receipt'' [7] 12 [1]
      (snd (example_authorize [1]))))"
  "fst (authorize lower_hex memory_ops sequential ''receipt'' [7] 12 [2]
      (snd (example_authorize [1]))) = Inl ConflictingSignature"
  by code_simp+

theorem one_object_per_sequence_witness:
  "fst (example_authorize [1]) = Inr () \<and>
   {object_id. fst (authorize lower_hex memory_ops sequential ''receipt'' [7] 12 object_id
     (snd (example_authorize [1]))) = Inr ()} = {[1]}"
proof -
  have "object_id = [1]" if "fst (authorize lower_hex memory_ops sequential ''receipt'' [7] 12 object_id
     (snd (example_authorize [1]))) = Inr ()" for object_id
    by (rule one_object_per_sequence [OF sequential_guarded empty_store_live
        example_authorize_eval(1) [unfolded example_authorize_def] env_only_refl])
      (use that in \<open>simp add: prod_eq_iff example_authorize_def\<close>)
  moreover have "fst (example_authorize [1]) = Inr ()"
    by (subst example_authorize_eval(1)) simp
  moreover have "fst (authorize lower_hex memory_ops sequential ''receipt'' [7] 12 [1] (snd (example_authorize [1]))) = Inr ()"
    by (subst example_authorize_eval(2)) simp
  ultimately show ?thesis by blast
qed

section \<open>Reservations are independent\<close>

lemma slash_split_inject:
  assumes "CHR ''/'' \<notin> set b" "CHR ''/'' \<notin> set d"
  shows "a @ ''/'' @ b = c @ ''/'' @ d \<longleftrightarrow> a = c \<and> b = d"
proof
  assume "a @ ''/'' @ b = c @ ''/'' @ d"
  then have "rev b @ CHR ''/'' # rev a = rev d @ CHR ''/'' # rev c"
    by (metis append.assoc append_Cons append_Nil rev.simps(2) rev_append rev_rev_ident)
  moreover have "x = y \<and> u = v" if "x @ CHR ''/'' # u = y @ CHR ''/'' # v"
      "CHR ''/'' \<notin> set x" "CHR ''/'' \<notin> set y" for x y u v
    using that
  proof (induction x arbitrary: y)
    case Nil
    then show ?case by (cases y) auto
  next
    case (Cons z x)
    then show ?case by (cases y) auto
  qed
  ultimately show "a = c \<and> b = d" using assms by (metis rev_is_rev_conv set_rev)
qed simp

definition decimal_value :: "string \<Rightarrow> nat" where
  "decimal_value s = foldl (\<lambda>v c. 10 * v + (of_char c - 48)) 0 s"

lemma decimal_value_decimal: "decimal_value (decimal n) = n"
proof (induction n rule: decimal.induct)
  case (1 n)
  have d: "of_char (char_of (48 + n mod 10) :: char) = (48 + n mod 10 :: nat)"
    by (simp add: of_char_of)
  show ?case
  proof (cases "n < 10")
    case True
    then show ?thesis using d by (subst decimal.simps) (simp add: decimal_value_def)
  next
    case False
    then show ?thesis using 1 d
      by (subst decimal.simps) (simp add: decimal_value_def foldl_append)
  qed
qed

lemma decimal_chars: "c \<in> set (decimal n) \<Longrightarrow> c \<noteq> CHR ''/'' \<and> c \<noteq> NUL"
proof (induction n rule: decimal.induct)
  case (1 n)
  have d: "char_of (48 + m) \<noteq> CHR ''/'' \<and> char_of (48 + m) \<noteq> NUL" if "m < 10" for m :: nat
  proof -
    have "of_char (char_of (48 + m) :: char) = (48 + m :: nat)" using that by (simp add: of_char_of)
    then have "of_char (char_of (48 + m) :: char) \<noteq> (of_char (CHR ''/'') :: nat)"
      "of_char (char_of (48 + m) :: char) \<noteq> (of_char NUL :: nat)"
      by (simp_all only:) (simp_all add: NUL_def)
    then show ?thesis by metis
  qed
  show ?case
    using 1 d [of n] d [of "n mod 10"] by (cases "n < 10") (auto simp: decimal.simps [of n])
qed

lemma sign_guard_key_inject:
  assumes "hex_ok hx"
  shows "sign_guard_key hx role scope sequence = sign_guard_key hx role' scope' sequence' \<longleftrightarrow>
    role = role' \<and> scope = scope' \<and> sequence = sequence'"
proof -
  have h: "CHR ''/'' \<notin> set (hex_encode hx b)" for b using assms by (simp add: hex_ok_def)
  have dn: "CHR ''/'' \<notin> set (decimal n)" for n using decimal_chars by blast
  have "decimal m = decimal n \<longleftrightarrow> m = n" for m n by (metis decimal_value_decimal)
  then show ?thesis
    using slash_split_inject [OF dn dn, of "role @ ''/'' @ hex_encode hx scope" "unat sequence"
        "role' @ ''/'' @ hex_encode hx scope'" "unat sequence'"]
      slash_split_inject [OF h h, of role scope role' scope'] hex_ok_inject [OF assms]
    by (auto simp: sign_guard_key_def word_unat_eq_iff)
qed

lemma sign_guard_key_ok:
  "hex_ok hx \<Longrightarrow> NUL \<notin> set role \<Longrightarrow> key_ok (''sign-guard/v2'', sign_guard_key hx role scope sequence)"
  using decimal_chars by (auto simp: key_ok_def sign_guard_key_def hex_ok_def NUL_def)

text \<open>
  What the guard answers. With nobody else writing, an authorisation for a role without NUL
  succeeds exactly if the role, scope and sequence are unreserved or reserved for this very object,
  and afterwards it changes no reservation but its own.
\<close>

theorem authorize_functional:
  assumes "hex_ok hx" "mem_live st" "NUL \<notin> set role"
  shows "\<exists>st' n'. authorize hx memory_ops sequential role scope sequence object_id (st, n) =
      (if ms_view st ''sign-guard/v2'' (sign_guard_key hx role scope sequence) \<in> {None, Some object_id}
       then Inr () else Inl ConflictingSignature, (st', n')) \<and> mem_live st' \<and>
    (\<forall>role' scope' sequence'. (role', scope', sequence') \<noteq> (role, scope, sequence) \<longrightarrow>
      ms_view st' ''sign-guard/v2'' (sign_guard_key hx role' scope' sequence') =
      ms_view st ''sign-guard/v2'' (sign_guard_key hx role' scope' sequence'))"
proof -
  let ?key = "sign_guard_key hx role scope sequence"
  have key: "key_ok (''sign-guard/v2'', ?key)" by (rule sign_guard_key_ok [OF assms(1,3)])
  obtain ok st1 where put: "put_if_absent memory_ops st ''sign-guard/v2'' ?key object_id = Inr (ok, st1)"
    using live_put_if_absent [OF assms(2) key] by blast
  note law = live.put_if_absent_law [OF assms(2) put]
  have get: "so_get memory_ops st ''sign-guard/v2'' ?key = Inr (ms_view st ''sign-guard/v2'' ?key)"
    by (rule live_get [OF assms(2) key])
  show ?thesis
  proof (cases ok)
    case True
    then have "ms_view st ''sign-guard/v2'' ?key = None" using law(2) by simp
    moreover have "authorize hx memory_ops sequential role scope sequence object_id (st, n) =
        (Inr (), (st1, Suc n))"
      using put True assms(3) by (simp add: authorize_def sequential_def act_return_def Let_def)
    ultimately show ?thesis
      using law(1,3) True by (auto simp: view_set_def sign_guard_key_inject [OF assms(1)])
  next
    case False
    then have "st1 = st" "ms_view st ''sign-guard/v2'' ?key \<noteq> None" using law(2,3) by simp_all
    then show ?thesis
      using put False assms(2,3) get
      by (auto simp: authorize_def sequential_def act_return_def act_err_def Let_def)
  qed
qed

theorem authorize_functional_witness:
  "\<exists>st' n'. authorize lower_hex memory_ops sequential ''receipt'' [7] 12 [1] (empty_store, 0) =
     (Inr (), (st', n')) \<and> mem_live st'"
proof -
  have "ms_view empty_store ''sign-guard/v2'' (sign_guard_key lower_hex ''receipt'' [7] 12) = None"
    by (simp add: ms_view_def empty_store_def split: sum.splits)
  with authorize_functional [OF hex_ok_lower_hex empty_store_live, of "''receipt''" "[7]" 12 "[1]" 0]
  show ?thesis by (auto simp: NUL_def)
qed

end
