(* ===== verification/Settlement_Trackers.thy ===== *)
theory Settlement_Trackers
  imports Object_Ids Ordered_Map Protocol_Journal
begin

text \<open>
  Chain tracking of the settlement crate, \<^verbatim>\<open>crates/meshmine-settlement/src/lib.rs\<close>: which plans are
  payable, which entropy plans are still canonical, and which parent certificates and sessions a
  reorganisation closes (\<^verbatim>\<open>PlanPaymentTracker\<close>, \<^verbatim>\<open>EntropyPlanTracker\<close>, \<^verbatim>\<open>CanonicalOverlayView\<close>). A
  \<^verbatim>\<open>BTreeSet\<close> of numbers is a finite set whose first element is its minimum. Every operation checks
  before it changes anything, so that a failing one leaves its state as it was: it returns an error
  or the new state.
\<close>

datatype SettlementError =
  ZeroSnapshotThreshold | ZeroAccumulatorLimit | RetainedSessionLimit | RetainedBucketCreditLimit |
  RetainedPayloadByteLimit | InvalidAccumulatorCheckpoint | EmptySessionWork |
  ConflictingBucketMetadata | EmptyTicketClass | ZeroTicketWeight | EntropyCountOverflow |
  EntropyNotDelayed | InvalidServiceFraction | MissingTickets | TicketCountMismatch |
  PlanSnapshotMismatch | PlanVerificationMismatch | ArithmeticOverflow | DisconnectMismatch |
  CanonicalHeightConflict | NoncanonicalParentCertificate | NoncanonicalSessionParent |
  MissingServiceCreditCap | ServiceEventCap | ServiceRoleCap | DuplicateServiceEvent |
  ZeroServiceCredit | UneconomicTicket | CoinbaseOutputPolicy | InvalidBootstrapTransition |
  NormalSnapshotUnavailable | Durable DurableInvariantError

section \<open>Payments of plans\<close>

record PlanPaymentTracker =
  pt_eligible_sequences :: "u64 set"
  pt_canonical_payments :: "(hash256 \<times> u64 option) list"
  pt_paid_sequences :: "u64 set"
  pt_payable_sequences :: "u64 set"

definition PlanPaymentTracker_default :: PlanPaymentTracker where
  "PlanPaymentTracker_default = \<lparr>pt_eligible_sequences = {}, pt_canonical_payments = [],
     pt_paid_sequences = {}, pt_payable_sequences = {}\<rparr>"

definition set_first :: "'a::linorder set \<Rightarrow> 'a option" where
  "set_first s = (if s = {} then None else Some (Min s))"

definition current_payable :: "PlanPaymentTracker \<Rightarrow> u64 option" where
  "current_payable t = set_first (pt_payable_sequences t)"

definition add_eligible :: "u64 \<Rightarrow> PlanPaymentTracker \<Rightarrow> PlanPaymentTracker" where
  "add_eligible sequence t =
     (if sequence \<notin> pt_eligible_sequences t \<and> sequence \<notin> pt_paid_sequences t
      then t\<lparr>pt_eligible_sequences := insert sequence (pt_eligible_sequences t),
             pt_payable_sequences := insert sequence (pt_payable_sequences t)\<rparr>
      else t\<lparr>pt_eligible_sequences := insert sequence (pt_eligible_sequences t)\<rparr>)"

definition invalidate_eligible :: "u64 \<Rightarrow> PlanPaymentTracker \<Rightarrow> PlanPaymentTracker" where
  "invalidate_eligible sequence t =
     t\<lparr>pt_eligible_sequences := pt_eligible_sequences t - {sequence},
       pt_payable_sequences := pt_payable_sequences t - {sequence}\<rparr>"

definition PlanPaymentTracker_connect_block ::
  "hash256 \<Rightarrow> u64 option \<Rightarrow> PlanPaymentTracker \<Rightarrow> SettlementError + PlanPaymentTracker" where
  "PlanPaymentTracker_connect_block block_hash paid_plan t =
     (if (case paid_plan of None \<Rightarrow> False | Some sequence \<Rightarrow> Some sequence \<noteq> current_payable t)
      then Inl TicketCountMismatch
      else
        let t1 = t\<lparr>pt_canonical_payments := pt_canonical_payments t @ [(block_hash, paid_plan)]\<rparr>
        in Inr (case paid_plan of
             None \<Rightarrow> t1
           | Some sequence \<Rightarrow>
               t1\<lparr>pt_paid_sequences := insert sequence (pt_paid_sequences t1),
                  pt_payable_sequences := pt_payable_sequences t1 - {sequence}\<rparr>))"

definition PlanPaymentTracker_disconnect_tip ::
  "hash256 \<Rightarrow> PlanPaymentTracker \<Rightarrow> SettlementError + PlanPaymentTracker" where
  "PlanPaymentTracker_disconnect_tip block_hash t =
     (if pt_canonical_payments t = [] then Inl DisconnectMismatch
      else
        let (tip_hash, paid_plan) = last (pt_canonical_payments t)
        in if tip_hash \<noteq> block_hash then Inl DisconnectMismatch
           else
             let t1 = t\<lparr>pt_canonical_payments := butlast (pt_canonical_payments t)\<rparr>
             in Inr (case paid_plan of
                  None \<Rightarrow> t1
                | Some sequence \<Rightarrow>
                    let t2 = t1\<lparr>pt_paid_sequences := pt_paid_sequences t1 - {sequence}\<rparr>
                    in if sequence \<in> pt_eligible_sequences t2
                       then t2\<lparr>pt_payable_sequences := insert sequence (pt_payable_sequences t2)\<rparr>
                       else t2))"

section \<open>Plans and their entropy\<close>

record TrackedEntropyPlan =
  te_sequence :: u64
  te_entropy_blocks :: "(u32 \<times> hash256) list"
  te_canonical :: bool

type_synonym EntropyPlanTracker = "(hash256, TrackedEntropyPlan) btmap"

definition u32_try_from :: "nat \<Rightarrow> u32 option" where
  "u32_try_from n = (let w = of_nat n in if unat w = n then Some w else None)"

fun entropy_blocks_from ::
  "u32 \<Rightarrow> nat \<Rightarrow> hash256 list \<Rightarrow> SettlementError + (u32 \<times> hash256) list" where
  "entropy_blocks_from start offset [] = Inr []"
| "entropy_blocks_from start offset (hash # hashes) =
     res_bind (ok_or ArithmeticOverflow (u32_try_from offset)) (\<lambda>offset'.
     res_bind (ok_or ArithmeticOverflow (checked_add start offset')) (\<lambda>height.
     res_bind (entropy_blocks_from start (Suc offset) hashes) (\<lambda>rest.
     Inr ((height, hash) # rest))))"

definition EntropyPlanTracker_register ::
  "(bytes \<Rightarrow> hash256) \<Rightarrow> PayoutPlanV2 \<Rightarrow> EntropyPlanTracker \<Rightarrow> SettlementError + EntropyPlanTracker" where
  "EntropyPlanTracker_register H plan plans =
     (if unat (pp_entropy_anchor_count plan) \<noteq> length (pp_entropy_hashes plan)
         \<or> pp_entropy_hashes plan = []
      then Inl EntropyNotDelayed
      else
      res_bind (entropy_blocks_from (pp_entropy_anchor_start plan) 0 (pp_entropy_hashes plan))
        (\<lambda>entropy_blocks.
      let tracked = \<lparr>te_sequence = pp_plan_sequence plan, te_entropy_blocks = entropy_blocks,
            te_canonical = True\<rparr>;
          plan_id = object_id_PayoutPlanV2 H plan
      in case bt_get plans plan_id of
           Some existing \<Rightarrow>
             if te_sequence existing \<noteq> te_sequence tracked
                \<or> te_entropy_blocks existing \<noteq> te_entropy_blocks tracked
             then Inl PlanVerificationMismatch
             else Inr (bt_insert plan_id (existing\<lparr>te_canonical := True\<rparr>) plans)
         | None \<Rightarrow> Inr (bt_insert plan_id tracked plans)))"

definition uses_entropy_block :: "u32 \<Rightarrow> hash256 \<Rightarrow> TrackedEntropyPlan \<Rightarrow> bool" where
  "uses_entropy_block height hash plan \<longleftrightarrow>
     te_canonical plan \<and> (height, hash) \<in> set (te_entropy_blocks plan)"

definition disconnect_entropy_block ::
  "u32 \<Rightarrow> hash256 \<Rightarrow> EntropyPlanTracker \<Rightarrow> u64 set \<times> EntropyPlanTracker" where
  "disconnect_entropy_block height hash plans =
     (set (map te_sequence (filter (uses_entropy_block height hash) (bt_values plans))),
      bt_map_values (\<lambda>_ plan. if uses_entropy_block height hash plan
        then plan\<lparr>te_canonical := False\<rparr> else plan) plans)"

definition EntropyPlanTracker_is_canonical :: "hash256 \<Rightarrow> EntropyPlanTracker \<Rightarrow> bool" where
  "EntropyPlanTracker_is_canonical plan_id plans =
     (case bt_get plans plan_id of None \<Rightarrow> False | Some plan \<Rightarrow> te_canonical plan)"

section \<open>The overlay\<close>

record TrackedParentCertificate =
  tc_parent_height :: u32
  tc_parent_hash :: hash256
  tc_canonical :: bool

record TrackedOverlaySession =
  ts_parent_certificate_id :: hash256
  ts_closed_for_reorg :: bool

record CanonicalOverlayView =
  ov_canonical_headers :: "(u32, hash256) btmap"
  ov_parent_certificates :: "(hash256, TrackedParentCertificate) btmap"
  ov_sessions :: "(hash256, TrackedOverlaySession) btmap"

record ReorgEffects =
  re_invalidated_parent_certificates :: "hash256 set"
  re_closed_sessions :: "hash256 set"
  re_invalidated_plan_sequences :: "u64 set"
  re_retain_share_and_body_evidence :: bool
  re_recompute_current_payable_plan :: bool

definition CanonicalOverlayView_default :: CanonicalOverlayView where
  "CanonicalOverlayView_default =
     \<lparr>ov_canonical_headers = [], ov_parent_certificates = [], ov_sessions = []\<rparr>"

definition CanonicalOverlayView_connect_block ::
  "u32 \<Rightarrow> hash256 \<Rightarrow> u64 option \<Rightarrow> CanonicalOverlayView \<Rightarrow> PlanPaymentTracker \<Rightarrow>
   SettlementError + CanonicalOverlayView \<times> PlanPaymentTracker" where
  "CanonicalOverlayView_connect_block height block_hash paid_plan v payments =
     (if (case bt_last (ov_canonical_headers v) of
            None \<Rightarrow> False | Some (tip_height, _) \<Rightarrow> height \<noteq> saturating_add tip_height 1)
      then Inl CanonicalHeightConflict
      else if (case bt_get (ov_canonical_headers v) height of
            None \<Rightarrow> False | Some existing \<Rightarrow> existing \<noteq> block_hash)
      then Inl CanonicalHeightConflict
      else
      res_bind (PlanPaymentTracker_connect_block block_hash paid_plan payments) (\<lambda>payments'.
      Inr (v\<lparr>ov_canonical_headers := bt_insert height block_hash (ov_canonical_headers v)\<rparr>,
           payments')))"

definition register_parent_certificate ::
  "(bytes \<Rightarrow> hash256) \<Rightarrow> SessionParentCertificateV2 \<Rightarrow> CanonicalOverlayView \<Rightarrow>
   SettlementError + CanonicalOverlayView" where
  "register_parent_certificate H certificate v =
     (if bt_get (ov_canonical_headers v) (pc_parent_height certificate) \<noteq>
         Some (pc_parent_hash certificate)
      then Inl NoncanonicalParentCertificate
      else
        let certificate_id = object_id_SessionParentCertificateV2 H certificate;
            tracked = \<lparr>tc_parent_height = pc_parent_height certificate,
              tc_parent_hash = pc_parent_hash certificate, tc_canonical = True\<rparr>
        in case bt_get (ov_parent_certificates v) certificate_id of
             Some existing \<Rightarrow>
               if existing \<noteq> tracked then Inl NoncanonicalParentCertificate else Inr v
           | None \<Rightarrow> Inr (v\<lparr>ov_parent_certificates :=
               bt_insert certificate_id tracked (ov_parent_certificates v)\<rparr>))"

definition register_session ::
  "(bytes \<Rightarrow> hash256) \<Rightarrow> MaskSessionV2 \<Rightarrow> CanonicalOverlayView \<Rightarrow>
   SettlementError + CanonicalOverlayView" where
  "register_session H session v =
     res_bind (ok_or NoncanonicalSessionParent
       (case bt_get (ov_parent_certificates v) (ms_parent_certificate_id session) of
          None \<Rightarrow> None
        | Some parent \<Rightarrow>
            if tc_canonical parent \<and> tc_parent_hash parent = ms_parent_hash session
            then Some parent else None)) (\<lambda>parent.
     if bt_get (ov_canonical_headers v) (tc_parent_height parent) \<noteq> Some (tc_parent_hash parent)
     then Inl NoncanonicalSessionParent
     else
       let session_id = object_id_MaskSessionV2 H session;
           tracked = \<lparr>ts_parent_certificate_id = ms_parent_certificate_id session,
             ts_closed_for_reorg = False\<rparr>
       in case bt_get (ov_sessions v) session_id of
            Some existing \<Rightarrow> if existing \<noteq> tracked then Inl NoncanonicalSessionParent else Inr v
          | None \<Rightarrow> Inr (v\<lparr>ov_sessions := bt_insert session_id tracked (ov_sessions v)\<rparr>))"

definition orphaned_by :: "u32 \<Rightarrow> hash256 \<Rightarrow> TrackedParentCertificate \<Rightarrow> bool" where
  "orphaned_by height block_hash parent \<longleftrightarrow>
     tc_canonical parent \<and> tc_parent_height parent = height \<and> tc_parent_hash parent = block_hash"

definition CanonicalOverlayView_disconnect_tip ::
  "u32 \<Rightarrow> hash256 \<Rightarrow> CanonicalOverlayView \<Rightarrow> PlanPaymentTracker \<Rightarrow> EntropyPlanTracker \<Rightarrow>
   SettlementError +
     ReorgEffects \<times> CanonicalOverlayView \<times> PlanPaymentTracker \<times> EntropyPlanTracker" where
  "CanonicalOverlayView_disconnect_tip height block_hash v payments entropy =
     (if bt_last (ov_canonical_headers v) \<noteq> Some (height, block_hash)
      then Inl DisconnectMismatch
      else
      res_bind (PlanPaymentTracker_disconnect_tip block_hash payments) (\<lambda>payments1.
      let headers = bt_remove height (ov_canonical_headers v);
          (invalidated_plan_sequences, entropy') = disconnect_entropy_block height block_hash entropy;
          payments' = fold invalidate_eligible
            (sorted_list_of_set invalidated_plan_sequences) payments1;
          invalidated_parent_certificates =
            set (map fst (filter (\<lambda>(_, parent). orphaned_by height block_hash parent)
              (ov_parent_certificates v)));
          certificates = bt_map_values (\<lambda>_ parent. if orphaned_by height block_hash parent
            then parent\<lparr>tc_canonical := False\<rparr> else parent) (ov_parent_certificates v);
          closed_sessions =
            set (map fst (filter (\<lambda>(_, session).
              ts_parent_certificate_id session \<in> invalidated_parent_certificates) (ov_sessions v)));
          sessions = bt_map_values (\<lambda>_ session.
            if ts_parent_certificate_id session \<in> invalidated_parent_certificates
            then session\<lparr>ts_closed_for_reorg := True\<rparr> else session) (ov_sessions v)
      in Inr (\<lparr>re_invalidated_parent_certificates = invalidated_parent_certificates,
           re_closed_sessions = closed_sessions,
           re_invalidated_plan_sequences = invalidated_plan_sequences,
           re_retain_share_and_body_evidence = True,
           re_recompute_current_payable_plan = True\<rparr>,
         v\<lparr>ov_canonical_headers := headers, ov_parent_certificates := certificates,
           ov_sessions := sessions\<rparr>, payments', entropy')))"

definition is_parent_canonical :: "hash256 \<Rightarrow> CanonicalOverlayView \<Rightarrow> bool" where
  "is_parent_canonical certificate_id v =
     (case bt_get (ov_parent_certificates v) certificate_id of
        None \<Rightarrow> False | Some parent \<Rightarrow> tc_canonical parent)"

definition session_closed_for_reorg :: "hash256 \<Rightarrow> CanonicalOverlayView \<Rightarrow> bool" where
  "session_closed_for_reorg session_id v =
     (case bt_get (ov_sessions v) session_id of
        None \<Rightarrow> False | Some session \<Rightarrow> ts_closed_for_reorg session)"

section \<open>Runs\<close>

type_synonym overlay = "CanonicalOverlayView \<times> PlanPaymentTracker \<times> EntropyPlanTracker"

text \<open>The successful operations on the three trackers, below the last representable height.\<close>

inductive overlay_step :: "(bytes \<Rightarrow> hash256) \<Rightarrow> overlay \<Rightarrow> overlay \<Rightarrow> bool" for H where
  connect: "CanonicalOverlayView_connect_block height block_hash paid v t = Inr (v', t') \<Longrightarrow>
    height < - 1 \<Longrightarrow> overlay_step H (v, t, e) (v', t', e)"
| disconnect: "CanonicalOverlayView_disconnect_tip height block_hash v t e = Inr (fx, v', t', e') \<Longrightarrow>
    overlay_step H (v, t, e) (v', t', e')"
| certificate: "register_parent_certificate H c v = Inr v' \<Longrightarrow> overlay_step H (v, t, e) (v', t, e)"
| session: "register_session H ms v = Inr v' \<Longrightarrow> overlay_step H (v, t, e) (v', t, e)"
| eligible: "overlay_step H (v, t, e) (v, add_eligible sequence t, e)"
| invalidate: "overlay_step H (v, t, e) (v, invalidate_eligible sequence t, e)"
| plan: "EntropyPlanTracker_register H plan e = Inr e' \<Longrightarrow> overlay_step H (v, t, e) (v, t, e')"

inductive overlay_reachable :: "(bytes \<Rightarrow> hash256) \<Rightarrow> overlay \<Rightarrow> bool" for H where
  start: "overlay_reachable H (CanonicalOverlayView_default, PlanPaymentTracker_default, [])"
| step: "overlay_reachable H s \<Longrightarrow> overlay_step H s s' \<Longrightarrow> overlay_reachable H s'"

section \<open>Invariant of the payments\<close>

fun paid_on_chain :: "(hash256 \<times> u64 option) list \<Rightarrow> u64 list" where
  "paid_on_chain [] = []"
| "paid_on_chain ((block, None) # ps) = paid_on_chain ps"
| "paid_on_chain ((block, Some sequence) # ps) = sequence # paid_on_chain ps"

lemma paid_on_chain_append [simp]: "paid_on_chain (ps @ qs) = paid_on_chain ps @ paid_on_chain qs"
  by (induction ps rule: paid_on_chain.induct) auto

definition payments_inv :: "PlanPaymentTracker \<Rightarrow> bool" where
  "payments_inv t \<longleftrightarrow> finite (pt_eligible_sequences t) \<and>
     pt_paid_sequences t = set (paid_on_chain (pt_canonical_payments t)) \<and>
     distinct (paid_on_chain (pt_canonical_payments t)) \<and>
     pt_payable_sequences t = pt_eligible_sequences t - pt_paid_sequences t"

lemma payments_inv_default: "payments_inv PlanPaymentTracker_default"
  by (simp add: payments_inv_def PlanPaymentTracker_default_def)

lemma payments_inv_add: "payments_inv t \<Longrightarrow> payments_inv (add_eligible sequence t)"
  by (auto simp: payments_inv_def add_eligible_def)

lemma payments_inv_invalidate: "payments_inv t \<Longrightarrow> payments_inv (invalidate_eligible sequence t)"
  by (auto simp: payments_inv_def invalidate_eligible_def)

lemma current_payable_mem:
  assumes "payments_inv t" "current_payable t = Some s"
  shows "s \<in> pt_payable_sequences t" "\<forall>r \<in> pt_payable_sequences t. s \<le> r"
proof -
  have "finite (pt_payable_sequences t)" using assms(1) by (simp add: payments_inv_def)
  moreover have "pt_payable_sequences t \<noteq> {}" "s = Min (pt_payable_sequences t)"
    using assms(2) by (auto simp: current_payable_def set_first_def split: if_splits)
  ultimately show "s \<in> pt_payable_sequences t" "\<forall>r \<in> pt_payable_sequences t. s \<le> r"
    using Min_in Min_le by blast+
qed

lemma connect_paid:
  assumes "PlanPaymentTracker_connect_block b (Some s) t = Inr t'"
  shows "current_payable t = Some s"
    "t' = t\<lparr>pt_canonical_payments := pt_canonical_payments t @ [(b, Some s)],
       pt_paid_sequences := insert s (pt_paid_sequences t),
       pt_payable_sequences := pt_payable_sequences t - {s}\<rparr>"
proof -
  show c: "current_payable t = Some s"
    using assms by (cases "current_payable t = Some s")
      (auto simp: PlanPaymentTracker_connect_block_def)
  show "t' = t\<lparr>pt_canonical_payments := pt_canonical_payments t @ [(b, Some s)],
       pt_paid_sequences := insert s (pt_paid_sequences t),
       pt_payable_sequences := pt_payable_sequences t - {s}\<rparr>"
    using assms by (simp add: PlanPaymentTracker_connect_block_def Let_def c)
qed

lemma connect_payments:
  assumes "payments_inv t" "PlanPaymentTracker_connect_block b paid t = Inr t'"
  shows "payments_inv t'" "pt_canonical_payments t' = pt_canonical_payments t @ [(b, paid)]"
proof -
  show "pt_canonical_payments t' = pt_canonical_payments t @ [(b, paid)]"
    using assms(2) by (auto simp: PlanPaymentTracker_connect_block_def Let_def
        split: option.splits if_splits)
  show "payments_inv t'"
  proof (cases paid)
    case None
    with assms show ?thesis
      by (auto simp: PlanPaymentTracker_connect_block_def payments_inv_def)
  next
    case (Some s)
    note c = connect_paid [OF assms(2) [unfolded Some]]
    from current_payable_mem(1) [OF assms(1) c(1)] assms(1) show ?thesis
      by (auto simp: c(2) payments_inv_def)
  qed
qed

lemma disconnect_payments:
  assumes "payments_inv t" "PlanPaymentTracker_disconnect_tip b t = Inr t'"
  shows "payments_inv t' \<and> (\<exists>ps paid. pt_canonical_payments t = ps @ [(b, paid)] \<and>
    pt_canonical_payments t' = ps)"
proof -
  have "pt_canonical_payments t \<noteq> []"
    using assms(2) by (auto simp: PlanPaymentTracker_disconnect_tip_def split: if_splits)
  then obtain ps h paid where ps: "pt_canonical_payments t = ps @ [(h, paid)]"
    by (metis rev_exhaust surj_pair)
  with assms(2) have h: "h = b"
    by (auto simp: PlanPaymentTracker_disconnect_tip_def split: if_splits)
  show ?thesis
  proof (cases paid)
    case None
    with assms ps h show ?thesis
      by (auto simp: PlanPaymentTracker_disconnect_tip_def payments_inv_def)
  next
    case (Some s)
    with assms ps h show ?thesis
      by (auto simp: PlanPaymentTracker_disconnect_tip_def payments_inv_def Let_def split: if_splits)
  qed
qed

lemma invalidate_fold:
  "payments_inv t \<Longrightarrow> payments_inv (fold invalidate_eligible ss t) \<and>
    pt_canonical_payments (fold invalidate_eligible ss t) = pt_canonical_payments t \<and>
    pt_eligible_sequences (fold invalidate_eligible ss t) = pt_eligible_sequences t - set ss"
proof (induction ss arbitrary: t)
  case (Cons s ss)
  from Cons.IH [OF payments_inv_invalidate [OF Cons.prems, of s]] show ?case
    by (auto simp: invalidate_eligible_def)
qed simp

lemma invalidate_fold_eq:
  "fold invalidate_eligible ss t = t\<lparr>pt_eligible_sequences := pt_eligible_sequences t - set ss,
     pt_payable_sequences := pt_payable_sequences t - set ss\<rparr>"
proof (induction ss arbitrary: t)
  case (Cons s ss)
  show ?case unfolding fold_simps comp_def Cons.IH
    by (simp add: invalidate_eligible_def Diff_insert [symmetric] Diff_insert2 [symmetric])
qed simp

section \<open>Invariant of the overlay\<close>

definition contiguous :: "(u32, hash256) btmap \<Rightarrow> bool" where
  "contiguous hs \<longleftrightarrow> (\<exists>n. map (unat \<circ> fst) hs = [n..<n + length hs])"

definition overlay_inv :: "overlay \<Rightarrow> bool" where
  "overlay_inv = (\<lambda>(v, t, e).
     bt_wf (ov_canonical_headers v) \<and> bt_wf (ov_parent_certificates v) \<and> bt_wf (ov_sessions v) \<and>
     payments_inv t \<and> contiguous (ov_canonical_headers v) \<and>
     map snd (ov_canonical_headers v) = map fst (pt_canonical_payments t) \<and>
     (\<forall>i c. bt_get (ov_parent_certificates v) i = Some c \<longrightarrow> tc_canonical c \<longrightarrow>
        bt_get (ov_canonical_headers v) (tc_parent_height c) = Some (tc_parent_hash c)) \<and>
     (\<forall>i s. bt_get (ov_sessions v) i = Some s \<longrightarrow> \<not> ts_closed_for_reorg s \<longrightarrow>
        is_parent_canonical (ts_parent_certificate_id s) v))"

lemma contiguous_sorted: "contiguous hs \<Longrightarrow> bt_wf hs"
proof -
  assume "contiguous hs"
  then obtain n where "map (unat \<circ> fst) hs = [n..<n + length hs]" by (auto simp: contiguous_def)
  then have "sorted_wrt (<) (map unat (map fst hs))" by simp
  then show "bt_wf hs" by (simp add: bt_wf_def sorted_wrt_map word_less_nat_alt)
qed

lemma contiguous_snoc:
  assumes "contiguous hs" "height < - 1"
    and "case bt_last hs of None \<Rightarrow> True | Some (tip, _) \<Rightarrow> height = saturating_add tip 1"
  shows "bt_insert height b hs = hs @ [(height, b)]" "contiguous (hs @ [(height, b)])"
proof -
  obtain n where n: "map (unat \<circ> fst) hs = [n..<n + length hs]"
    using assms(1) by (auto simp: contiguous_def)
  have h: "unat height = n + length hs" if "hs \<noteq> []"
  proof -
    obtain tip x where last: "last hs = (tip, x)" by force
    have "height = saturating_add tip 1" using assms(3) that last by (simp add: bt_last_def)
    with assms(2) have "unat height = unat tip + 1"
      by (auto simp: saturating_add_def unat_word_ariths split: if_splits)
    moreover have "unat tip = n + length hs - 1"
      using arg_cong [OF n, of last] that last by (simp add: last_map)
    ultimately show ?thesis using that by (cases hs) auto
  qed
  show c: "contiguous (hs @ [(height, b)])"
  proof (cases "hs = []")
    case True
    then show ?thesis by (auto simp: contiguous_def)
  next
    case False
    then show ?thesis using n h by (auto simp: contiguous_def intro!: exI [of _ n])
  qed
  have "\<forall>k \<in> set (map fst hs). k < height"
    using contiguous_sorted [OF c] by (simp add: bt_wf_snoc)
  then show "bt_insert height b hs = hs @ [(height, b)]" by (rule bt_insert_last)
qed

lemma contiguous_butlast: "contiguous (hs @ [x]) \<Longrightarrow> contiguous hs"
  by (auto simp: contiguous_def)

lemma bt_get_snoc:
  "bt_wf (hs @ [(k, b)]) \<Longrightarrow> bt_get (hs @ [(k, b)]) = (bt_get hs)(k \<mapsto> b)"
  using bt_get_insert [of hs k b] bt_insert_last [of hs k b] by (simp add: bt_wf_snoc)

lemma is_parent_canonical_headers [simp]:
  "is_parent_canonical i (v\<lparr>ov_canonical_headers := hs\<rparr>) = is_parent_canonical i v"
  "is_parent_canonical i (v\<lparr>ov_sessions := ss\<rparr>) = is_parent_canonical i v"
  by (simp_all add: is_parent_canonical_def)

lemma overlay_inv_connect:
  assumes "overlay_inv (v, t, e)" "height < - 1"
    and "CanonicalOverlayView_connect_block height b paid v t = Inr (v', t')"
  shows "overlay_inv (v', t', e)"
proof -
  let ?hs = "ov_canonical_headers v"
  have I: "contiguous ?hs" "payments_inv t" using assms(1) by (simp_all add: overlay_inv_def)
  have *: "case bt_last ?hs of None \<Rightarrow> True | Some (tip, _) \<Rightarrow> height = saturating_add tip 1"
    "PlanPaymentTracker_connect_block b paid t = Inr t'"
    "v' = v\<lparr>ov_canonical_headers := bt_insert height b ?hs\<rparr>"
    using assms(3) by (auto simp: CanonicalOverlayView_connect_block_def res_bind_Inr_iff
        split: if_splits option.splits)
  note sn = contiguous_snoc [OF I(1) assms(2) *(1), of b]
  note pay = connect_payments [OF I(2) *(2)]
  have get: "bt_get (?hs @ [(height, b)]) = (bt_get ?hs)(height \<mapsto> b)"
    by (rule bt_get_snoc [OF contiguous_sorted [OF sn(2)]])
  have fresh: "bt_get ?hs height = None"
    using contiguous_sorted [OF sn(2)] by (force simp: bt_wf_snoc bt_get_def map_of_eq_None_iff)
  show ?thesis
    using assms(1) pay sn contiguous_sorted [OF sn(2)] fresh
    by (auto simp: overlay_inv_def *(3) sn(1) get)
qed

lemma is_parent_canonical_iff:
  "is_parent_canonical i v \<longleftrightarrow> (\<exists>c. bt_get (ov_parent_certificates v) i = Some c \<and> tc_canonical c)"
  by (auto simp: is_parent_canonical_def split: option.splits)

lemma bt_last_snoc: "bt_last m = Some e \<Longrightarrow> m = butlast m @ [e]"
  by (auto simp: bt_last_def split: if_splits)

text \<open>What a successful disconnect does.\<close>

abbreviation orphaned_certificates :: "u32 \<Rightarrow> hash256 \<Rightarrow> CanonicalOverlayView \<Rightarrow> hash256 set" where
  "orphaned_certificates height b v \<equiv>
     set (map fst (filter (\<lambda>(_, parent). orphaned_by height b parent) (ov_parent_certificates v)))"

lemma disconnect_parts:
  assumes "CanonicalOverlayView_disconnect_tip height b v t e = Inr (fx, v', t', e')"
  shows "bt_last (ov_canonical_headers v) = Some (height, b)"
    and "\<exists>t1. PlanPaymentTracker_disconnect_tip b t = Inr t1 \<and> t' = fold invalidate_eligible
      (sorted_list_of_set (fst (disconnect_entropy_block height b e))) t1"
    and "e' = snd (disconnect_entropy_block height b e)"
    and "ov_canonical_headers v' = bt_remove height (ov_canonical_headers v)"
    and "ov_parent_certificates v' = bt_map_values (\<lambda>_ c. if orphaned_by height b c
       then c\<lparr>tc_canonical := False\<rparr> else c) (ov_parent_certificates v)"
    and "ov_sessions v' = bt_map_values (\<lambda>_ s.
       if ts_parent_certificate_id s \<in> orphaned_certificates height b v
       then s\<lparr>ts_closed_for_reorg := True\<rparr> else s) (ov_sessions v)"
  using assms
  by (cases "PlanPaymentTracker_disconnect_tip b t"; cases "disconnect_entropy_block height b e";
      clarsimp simp: CanonicalOverlayView_disconnect_tip_def Let_def split: if_splits)+

lemma orphaned_certificates_iff:
  assumes "bt_wf (ov_parent_certificates v)"
  shows "k \<in> orphaned_certificates height b v \<longleftrightarrow>
    (\<exists>c. bt_get (ov_parent_certificates v) k = Some c \<and> orphaned_by height b c)"
  using bt_get_iff [OF assms] by force

lemma disconnect_Inr:
  assumes "overlay_inv (v, t, e)"
    and "CanonicalOverlayView_disconnect_tip height b v t e = Inr (fx, v', t', e')"
  shows "\<exists>hs. ov_canonical_headers v = hs @ [(height, b)] \<and> ov_canonical_headers v' = hs"
    "payments_inv t'" "map fst (pt_canonical_payments t) = map fst (pt_canonical_payments t') @ [b]"
    "bt_get (ov_parent_certificates v') i = map_option (\<lambda>c. if orphaned_by height b c
       then c\<lparr>tc_canonical := False\<rparr> else c) (bt_get (ov_parent_certificates v) i)"
    "bt_get (ov_sessions v') i = map_option (\<lambda>s.
       if (\<exists>c. bt_get (ov_parent_certificates v) (ts_parent_certificate_id s) = Some c \<and> orphaned_by height b c)
       then s\<lparr>ts_closed_for_reorg := True\<rparr> else s) (bt_get (ov_sessions v) i)"
    "bt_wf (ov_parent_certificates v') \<and> bt_wf (ov_sessions v')"
proof -
  note p = disconnect_parts [OF assms(2)]
  have I: "bt_wf (ov_canonical_headers v)" "payments_inv t" "bt_wf (ov_parent_certificates v)"
    "bt_wf (ov_sessions v)"
    using assms(1) by (simp_all add: overlay_inv_def)
  show "\<exists>hs. ov_canonical_headers v = hs @ [(height, b)] \<and> ov_canonical_headers v' = hs"
    using bt_last_snoc [OF p(1)] I(1) p(4) by (metis bt_remove_last)
  obtain t1 where t1: "PlanPaymentTracker_disconnect_tip b t = Inr t1" "t' = fold invalidate_eligible
      (sorted_list_of_set (fst (disconnect_entropy_block height b e))) t1" using p(2) by blast
  note d = disconnect_payments [OF I(2) t1(1)]
  show "payments_inv t'" "map fst (pt_canonical_payments t) = map fst (pt_canonical_payments t') @ [b]"
    using invalidate_fold [OF conjunct1 [OF d]] d by (auto simp: t1(2))
  show "bt_get (ov_parent_certificates v') i = map_option (\<lambda>c. if orphaned_by height b c
       then c\<lparr>tc_canonical := False\<rparr> else c) (bt_get (ov_parent_certificates v) i)"
    by (simp add: p(5))
  show "bt_get (ov_sessions v') i = map_option (\<lambda>s.
       if (\<exists>c. bt_get (ov_parent_certificates v) (ts_parent_certificate_id s) = Some c \<and> orphaned_by height b c)
       then s\<lparr>ts_closed_for_reorg := True\<rparr> else s) (bt_get (ov_sessions v) i)"
    unfolding p(6) bt_get_map_values orphaned_certificates_iff [OF I(3)] ..
  show "bt_wf (ov_parent_certificates v') \<and> bt_wf (ov_sessions v')"
    using I(3,4) unfolding p(5,6) by simp
qed

lemma overlay_inv_disconnect:
  assumes "overlay_inv (v, t, e)"
    and "CanonicalOverlayView_disconnect_tip height b v t e = Inr (fx, v', t', e')"
  shows "overlay_inv (v', t', e')"
proof -
  note d = disconnect_Inr [OF assms]
  obtain hs where hs: "ov_canonical_headers v = hs @ [(height, b)]" "ov_canonical_headers v' = hs"
    using d(1) by blast
  have wf: "bt_wf (hs @ [(height, b)])" using assms(1) hs by (simp add: overlay_inv_def)
  note get = bt_get_snoc [OF wf]
  have certs: "bt_get hs (tc_parent_height c') = Some (tc_parent_hash c')"
    if "bt_get (ov_parent_certificates v') i = Some c'" "tc_canonical c'" for i c'
  proof -
    from that(1) d(4) [of i] obtain c0 where c0: "bt_get (ov_parent_certificates v) i = Some c0"
        "c' = (if orphaned_by height b c0 then c0\<lparr>tc_canonical := False\<rparr> else c0)"
      by auto
    with that(2) have "\<not> orphaned_by height b c0" by (cases "orphaned_by height b c0") auto
    with c0 that(2) obtain c where c: "bt_get (ov_parent_certificates v) i = Some c"
        "c' = c" "\<not> orphaned_by height b c" "tc_canonical c" by auto
    then have "bt_get (ov_canonical_headers v) (tc_parent_height c) = Some (tc_parent_hash c)"
      using assms(1) by (auto simp: overlay_inv_def)
    with c show ?thesis by (auto simp: hs get orphaned_by_def split: if_splits)
  qed
  have sess: "is_parent_canonical (ts_parent_certificate_id s') v'"
    if "bt_get (ov_sessions v') i = Some s'" "\<not> ts_closed_for_reorg s'" for i s'
  proof -
    let ?orph = "\<lambda>s. \<exists>c. bt_get (ov_parent_certificates v) (ts_parent_certificate_id s) = Some c \<and>
        orphaned_by height b c"
    from that(1) d(5) [of i] obtain s0 where s0: "bt_get (ov_sessions v) i = Some s0"
        "s' = (if ?orph s0 then s0\<lparr>ts_closed_for_reorg := True\<rparr> else s0)" by auto
    with that(2) have "\<not> ?orph s0" by (cases "?orph s0") auto
    with s0 obtain s where s: "bt_get (ov_sessions v) i = Some s" "s' = s" "\<not> ?orph s" by auto
    moreover have "is_parent_canonical (ts_parent_certificate_id s) v"
      using assms(1) s that(2) by (auto simp: overlay_inv_def)
    ultimately show ?thesis
      using d(4) [of "ts_parent_certificate_id s"] by (auto simp: is_parent_canonical_iff)
  qed
  have "map snd hs = map fst (pt_canonical_payments t')"
    using assms(1) d(3) hs(1) by (auto simp: overlay_inv_def)
  moreover have "contiguous hs" using assms(1) hs(1) contiguous_butlast by (auto simp: overlay_inv_def)
  moreover have "bt_wf hs" using wf by (simp add: bt_wf_snoc)
  ultimately show ?thesis using d(2,6) certs sess by (simp add: overlay_inv_def hs(2))
qed

lemma overlay_inv_certificate:
  assumes "overlay_inv (v, t, e)" "register_parent_certificate H c v = Inr v'"
  shows "overlay_inv (v', t, e)"
proof (cases "v' = v")
  case False
  let ?id = "object_id_SessionParentCertificateV2 H c"
  let ?new = "\<lparr>tc_parent_height = pc_parent_height c, tc_parent_hash = pc_parent_hash c,
    tc_canonical = True\<rparr>"
  have *: "v' = v\<lparr>ov_parent_certificates := bt_insert ?id ?new (ov_parent_certificates v)\<rparr>"
    "bt_get (ov_parent_certificates v) ?id = None"
    "bt_get (ov_canonical_headers v) (pc_parent_height c) = Some (pc_parent_hash c)"
    using assms(2) False
    by (auto simp: register_parent_certificate_def Let_def split: if_splits option.splits)
  have wf: "bt_wf (ov_parent_certificates v)" using assms(1) by (simp add: overlay_inv_def)
  show ?thesis
    using assms(1) *(2,3)
    by (auto simp: overlay_inv_def *(1) bt_wf_insert bt_get_insert [OF wf] is_parent_canonical_iff)
qed (use assms in simp)

lemma overlay_inv_session:
  assumes "overlay_inv (v, t, e)" "register_session H ms v = Inr v'"
  shows "overlay_inv (v', t, e)"
proof (cases "v' = v")
  case False
  let ?id = "object_id_MaskSessionV2 H ms"
  let ?new = "\<lparr>ts_parent_certificate_id = ms_parent_certificate_id ms, ts_closed_for_reorg = False\<rparr>"
  have *: "v' = v\<lparr>ov_sessions := bt_insert ?id ?new (ov_sessions v)\<rparr>"
    "is_parent_canonical (ms_parent_certificate_id ms) v"
    using assms(2) False
    by (auto simp: register_session_def Let_def res_simps is_parent_canonical_iff
        split: if_splits option.splits)
  have wf: "bt_wf (ov_sessions v)" using assms(1) by (simp add: overlay_inv_def)
  show ?thesis
    using assms(1) *(2)
    by (auto simp: overlay_inv_def *(1) bt_wf_insert bt_get_insert [OF wf])
qed (use assms in simp)

lemma overlay_inv_step: "overlay_step H s s' \<Longrightarrow> overlay_inv s \<Longrightarrow> overlay_inv s'"
proof (induction rule: overlay_step.induct)
  case (eligible v t e sequence)
  then show ?case
    by (auto simp: overlay_inv_def payments_inv_add) (simp_all add: add_eligible_def)
next
  case (invalidate v t e sequence)
  then show ?case
    by (auto simp: overlay_inv_def payments_inv_invalidate) (simp_all add: invalidate_eligible_def)
next
  case (plan plan e e' v t)
  then show ?case by (simp add: overlay_inv_def)
qed (blast intro: overlay_inv_connect overlay_inv_disconnect overlay_inv_certificate overlay_inv_session)+

lemma overlay_reachable_inv: "overlay_reachable H s \<Longrightarrow> overlay_inv s"
proof (induction rule: overlay_reachable.induct)
  case start
  show ?case
    by (simp add: overlay_inv_def CanonicalOverlayView_default_def payments_inv_default contiguous_def)
      (simp add: PlanPaymentTracker_default_def)
qed (rule overlay_inv_step)

text \<open>
  C25: no open session on an orphaned block. In every state that the chain and overlay operations
  reach, a session that is not closed for a reorganisation has a tracked, canonical parent
  certificate, and the block this certificate names is the block of its height on the current
  canonical chain.
\<close>

theorem open_sessions_on_canonical_parents:
  assumes "overlay_reachable H (v, t, e)" "bt_get (ov_sessions v) session_id = Some s"
    and "\<not> session_closed_for_reorg session_id v"
  shows "\<exists>c. bt_get (ov_parent_certificates v) (ts_parent_certificate_id s) = Some c \<and> tc_canonical c \<and>
    bt_get (ov_canonical_headers v) (tc_parent_height c) = Some (tc_parent_hash c)"
  using overlay_reachable_inv [OF assms(1)] assms(2,3)
  by (fastforce simp: overlay_inv_def session_closed_for_reorg_def is_parent_canonical_iff)

text \<open>
  C26: each plan is paid at most once and in order. In every reachable state the recorded payments
  follow the canonical chain block by block, no plan is paid twice on it, and the plan payable next
  is the least eligible plan that no block of the canonical chain has paid. The incrementally kept
  indexes therefore agree with this definition.
\<close>

theorem payable_plan_refines_chain:
  assumes "overlay_reachable H (v, t, e)"
  shows "map fst (pt_canonical_payments t) = map snd (ov_canonical_headers v) \<and>
    distinct (paid_on_chain (pt_canonical_payments t)) \<and>
    current_payable t =
      set_first (pt_eligible_sequences t - set (paid_on_chain (pt_canonical_payments t)))"
  using overlay_reachable_inv [OF assms]
  by (simp_all add: overlay_inv_def payments_inv_def current_payable_def)

section \<open>A disconnect undoes a connect\<close>

lemma bt_map_values_id: "(\<And>k x. (k, x) \<in> set m \<Longrightarrow> f k x = x) \<Longrightarrow> bt_map_values f m = m"
  unfolding bt_map_values_def by (rule map_idI) auto

lemma disconnect_connect_payments:
  assumes "payments_inv t" "PlanPaymentTracker_connect_block b paid t = Inr t'"
  shows "PlanPaymentTracker_disconnect_tip b t' = Inr t"
proof (cases paid)
  case None
  with assms(2) have "t' = t\<lparr>pt_canonical_payments := pt_canonical_payments t @ [(b, None)]\<rparr>"
    by (simp add: PlanPaymentTracker_connect_block_def)
  then show ?thesis by (simp add: PlanPaymentTracker_disconnect_tip_def)
next
  case (Some s)
  note c = connect_paid [OF assms(2) [unfolded Some]]
  have "s \<in> pt_payable_sequences t" by (rule current_payable_mem(1) [OF assms(1) c(1)])
  with assms(1) have "s \<in> pt_eligible_sequences t" "s \<notin> pt_paid_sequences t"
    "insert s (pt_payable_sequences t - {s}) = pt_payable_sequences t"
    by (auto simp: payments_inv_def)
  then show ?thesis by (simp add: c(2) PlanPaymentTracker_disconnect_tip_def Let_def)
qed

lemma no_orphans_at_new_tip:
  assumes "overlay_inv (v, t, e)" "height < - 1"
    and "CanonicalOverlayView_connect_block height b paid v t = Inr (v', t')"
  shows "bt_get (ov_canonical_headers v) height = None"
    "(i, c) \<in> set (ov_parent_certificates v) \<Longrightarrow> \<not> orphaned_by height b c"
proof -
  have c: "contiguous (ov_canonical_headers v)" using assms(1) by (simp add: overlay_inv_def)
  have *: "case bt_last (ov_canonical_headers v) of None \<Rightarrow> True | Some (tip, _) \<Rightarrow> height = saturating_add tip 1"
    using assms(3) by (auto simp: CanonicalOverlayView_connect_block_def split: if_splits option.splits)
  note sn = contiguous_sorted [OF contiguous_snoc(2) [OF c assms(2) *, of b]]
  show n: "bt_get (ov_canonical_headers v) height = None"
    using sn by (force simp: bt_wf_snoc bt_get_def map_of_eq_None_iff)
  assume "(i, c) \<in> set (ov_parent_certificates v)"
  then have "bt_get (ov_parent_certificates v) i = Some c"
    using bt_get_iff [of "ov_parent_certificates v"] assms(1) by (simp add: overlay_inv_def)
  then show "\<not> orphaned_by height b c"
    using assms(1) n by (auto simp: overlay_inv_def orphaned_by_def)
qed

lemma entropy_disconnected:
  obtains e' where "disconnect_entropy_block height b e =
      (te_sequence ` {plan \<in> set (bt_values e). te_canonical plan \<and> (height, b) \<in> set (te_entropy_blocks plan)}, e')"
    "\<And>i. bt_get e' i = map_option (\<lambda>plan. if (height, b) \<in> set (te_entropy_blocks plan)
      then plan\<lparr>te_canonical := False\<rparr> else plan) (bt_get e i)"
proof -
  let ?e = "bt_map_values (\<lambda>_ plan. if uses_entropy_block height b plan
      then plan\<lparr>te_canonical := False\<rparr> else plan) e"
  have "(if uses_entropy_block height b plan then plan\<lparr>te_canonical := False\<rparr> else plan) =
      (if (height, b) \<in> set (te_entropy_blocks plan) then plan\<lparr>te_canonical := False\<rparr> else plan)" for plan
    by (cases plan) (simp add: uses_entropy_block_def)
  then have "bt_get ?e i = map_option (\<lambda>plan. if (height, b) \<in> set (te_entropy_blocks plan)
      then plan\<lparr>te_canonical := False\<rparr> else plan) (bt_get e i)" for i by simp
  moreover have "disconnect_entropy_block height b e = (te_sequence ` {plan \<in> set (bt_values e).
      te_canonical plan \<and> (height, b) \<in> set (te_entropy_blocks plan)}, ?e)"
    by (auto simp: disconnect_entropy_block_def uses_entropy_block_def)
  ultimately show ?thesis using that by blast
qed

text \<open>
  C27: a disconnect undoes a connect. In a reachable state, connecting a block and disconnecting it
  again succeeds, restores chain, certificates and sessions exactly and closes nothing. The plans
  reported as invalidated are exactly those the tracker held as canonical with that block among their
  entropy blocks. Their sequences, and no others, leave the eligible and payable ones; the payments are
  otherwise restored exactly. In the tracker these plans become non-canonical and nothing else changes.
\<close>

theorem disconnect_undoes_connect:
  assumes "overlay_reachable H (v, t, e)" "height < - 1"
    and "CanonicalOverlayView_connect_block height b paid v t = Inr (v', t')"
    and "lost = te_sequence ` {plan \<in> set (bt_values e). te_canonical plan \<and> (height, b) \<in> set (te_entropy_blocks plan)}"
  shows "\<exists>fx e'. CanonicalOverlayView_disconnect_tip height b v' t' e =
      Inr (fx, v, t\<lparr>pt_eligible_sequences := pt_eligible_sequences t - lost,
        pt_payable_sequences := pt_payable_sequences t - lost\<rparr>, e') \<and>
    re_invalidated_parent_certificates fx = {} \<and> re_closed_sessions fx = {} \<and>
    re_invalidated_plan_sequences fx = lost \<and>
    (\<forall>i. bt_get e' i = map_option (\<lambda>plan. if (height, b) \<in> set (te_entropy_blocks plan)
      then plan\<lparr>te_canonical := False\<rparr> else plan) (bt_get e i))"
proof -
  have I: "overlay_inv (v, t, e)" by (rule overlay_reachable_inv [OF assms(1)])
  note no = no_orphans_at_new_tip [OF I assms(2,3)]
  have c: "contiguous (ov_canonical_headers v)" "payments_inv t" using I by (simp_all add: overlay_inv_def)
  have *: "case bt_last (ov_canonical_headers v) of None \<Rightarrow> True | Some (tip, _) \<Rightarrow> height = saturating_add tip 1"
    "PlanPaymentTracker_connect_block b paid t = Inr t'"
    "v' = v\<lparr>ov_canonical_headers := bt_insert height b (ov_canonical_headers v)\<rparr>"
    using assms(3) by (auto simp: CanonicalOverlayView_connect_block_def res_bind_Inr_iff
        split: if_splits option.splits)
  note sn = contiguous_snoc [OF c(1) assms(2) *(1), of b]
  obtain e' where d: "disconnect_entropy_block height b e = (lost, e')"
    and e': "bt_get e' i = map_option (\<lambda>plan. if (height, b) \<in> set (te_entropy_blocks plan)
      then plan\<lparr>te_canonical := False\<rparr> else plan) (bt_get e i)" for i
    by (rule entropy_disconnected [of height b e]) (simp add: assms(4))
  have fin: "finite lost" using arg_cong [OF d, of fst] by (auto simp: disconnect_entropy_block_def)
  have certs: "filter (\<lambda>(_, parent). orphaned_by height b parent) (ov_parent_certificates v) = []"
    "bt_map_values (\<lambda>_ parent. if orphaned_by height b parent
       then parent\<lparr>tc_canonical := False\<rparr> else parent) (ov_parent_certificates v) = ov_parent_certificates v"
    using no(2) by (auto simp: filter_empty_conv intro: bt_map_values_id)
  have "CanonicalOverlayView_disconnect_tip height b v' t' e =
      Inr (\<lparr>re_invalidated_parent_certificates = {}, re_closed_sessions = {},
        re_invalidated_plan_sequences = lost, re_retain_share_and_body_evidence = True,
        re_recompute_current_payable_plan = True\<rparr>, v,
        fold invalidate_eligible (sorted_list_of_set lost) t, e')"
    using disconnect_connect_payments [OF c(2) *(2)] bt_remove_last [OF contiguous_sorted [OF sn(2)]]
    by (simp add: CanonicalOverlayView_disconnect_tip_def *(3) sn(1) bt_last_def d certs
        bt_map_values_id)
  then show ?thesis using e' by (simp add: invalidate_fold_eq fin)
qed

section \<open>An example run\<close>

definition example_hash :: "bytes \<Rightarrow> hash256" where
  "example_hash bs = take 32 (rev bs @ replicate 32 0)"

definition example_certificate :: SessionParentCertificateV2 where
  "example_certificate = \<lparr>pc_protocol_version = 2, pc_network_id = 1,
     pc_parent_hash = replicate 32 5, pc_parent_height = 5, pc_parent_chainwork = replicate 32 0,
     pc_observed_ntime = 0, pc_certificate_sequence = 1,
     pc_previous_parent_certificate_id = replicate 32 0, pc_signer_set = empty_ed25519\<rparr>"

definition example_session :: MaskSessionV2 where
  "example_session = \<lparr>ms_protocol_version = 2, ms_network_id = 1, ms_lane_id = 0,
     ms_session_sequence = 1,
     ms_parent_certificate_id = object_id_SessionParentCertificateV2 example_hash example_certificate,
     ms_parent_hash = replicate 32 5, ms_hns_network_target = replicate 32 0,
     ms_capture_target = replicate 32 0, ms_accounting_target = replicate 32 0,
     ms_leading_zero_prefix_q = 0, ms_blind_band_bits_d = 0, ms_mask_hash = replicate 32 0,
     ms_mask_commitment_root = replicate 32 0, ms_mask_committee_id = replicate 32 0,
     ms_fast_eval_policy = 0, ms_assignment_start_ms = 0, ms_assignment_end_ms = 0,
     ms_submission_end_ms = 0, ms_timed_open_after_ms = 0, ms_previous_session_id = replicate 32 0,
     ms_signer_set = empty_ed25519\<rparr>"

definition the_Inr :: "'e + 'a \<Rightarrow> 'a" where
  "the_Inr r = (case r of Inr a \<Rightarrow> a | Inl e \<Rightarrow> undefined)"

definition example_v1 where
  "example_v1 = fst (the_Inr (CanonicalOverlayView_connect_block 5 (replicate 32 5) None
     CanonicalOverlayView_default PlanPaymentTracker_default))"

definition example_t1 where
  "example_t1 = snd (the_Inr (CanonicalOverlayView_connect_block 5 (replicate 32 5) None
     CanonicalOverlayView_default PlanPaymentTracker_default))"

definition example_v3 where
  "example_v3 = the_Inr (register_session example_hash example_session
     (the_Inr (register_parent_certificate example_hash example_certificate example_v1)))"

text \<open>Two plans: the first draws its entropy from the block at height 5, the second from the one at height 6.\<close>

definition example_entropy_plan :: "u64 \<Rightarrow> u32 \<Rightarrow> u8 \<Rightarrow> PayoutPlanV2" where
  "example_entropy_plan sequence height x = \<lparr>pp_protocol_version = 2, pp_network_id = 1, pp_plan_sequence = sequence,
     pp_snapshot_id = replicate 32 0, pp_entropy_anchor_start = height, pp_entropy_anchor_count = 1,
     pp_entropy_hashes = [replicate 32 x], pp_prior_beacon = replicate 32 0, pp_plan_seed = replicate 32 0,
     pp_work_ticket_count = 0, pp_service_ticket_count = 0, pp_work_winners = [], pp_service_winners = [],
     pp_selection_transcript_hash = replicate 32 x, pp_signer_set = empty_ed25519\<rparr>"

definition example_e1 where
  "example_e1 = the_Inr (EntropyPlanTracker_register example_hash (example_entropy_plan 1 5 5) [])"

definition example_e2 where
  "example_e2 = the_Inr (EntropyPlanTracker_register example_hash (example_entropy_plan 2 6 6) example_e1)"

definition example_t2 where
  "example_t2 = add_eligible 2 (add_eligible 1 example_t1)"

definition example_connect where
  "example_connect = CanonicalOverlayView_connect_block 6 (replicate 32 6) (Some 1) example_v3 example_t2"

lemma the_Inr_eq: "isl r = False \<Longrightarrow> r = Inr (the_Inr r)"
  by (cases r) (simp_all add: the_Inr_def)

lemma example_reachable:
  "overlay_reachable example_hash (example_v3, add_eligible 1 example_t1, [])"
proof -
  let ?c = "register_parent_certificate example_hash example_certificate example_v1"
  have "isl ?c = False" "isl (register_session example_hash example_session (the_Inr ?c)) = False"
    "isl (CanonicalOverlayView_connect_block 5 (replicate 32 5) None
       CanonicalOverlayView_default PlanPaymentTracker_default) = False"
    by code_simp+
  note ok = this [THEN the_Inr_eq]
  have "overlay_step example_hash (CanonicalOverlayView_default, PlanPaymentTracker_default, [])
      (example_v1, example_t1, [])"
    by (rule overlay_step.connect [where height = 5 and block_hash = "replicate 32 5" and paid = None])
      (simp_all add: example_v1_def example_t1_def ok(3) [symmetric])
  then have "overlay_reachable example_hash (example_v1, example_t1, [])"
    by (rule overlay_reachable.step [OF overlay_reachable.start])
  then have "overlay_reachable example_hash (the_Inr ?c, example_t1, [])"
    by (rule overlay_reachable.step) (rule overlay_step.certificate [OF ok(1)])
  then have "overlay_reachable example_hash (example_v3, example_t1, [])"
    unfolding example_v3_def by (rule overlay_reachable.step) (rule overlay_step.session [OF ok(2)])
  then show ?thesis by (rule overlay_reachable.step [OF _ overlay_step.eligible])
qed

theorem open_sessions_on_canonical_parents_witness:
  "\<exists>c. bt_get (ov_parent_certificates example_v3)
      (ms_parent_certificate_id example_session) = Some c \<and> tc_canonical c \<and>
    bt_get (ov_canonical_headers example_v3) (tc_parent_height c) = Some (tc_parent_hash c)"
proof -
  have "bt_get (ov_sessions example_v3) (object_id_MaskSessionV2 example_hash example_session) =
      Some \<lparr>ts_parent_certificate_id = ms_parent_certificate_id example_session, ts_closed_for_reorg = False\<rparr>"
    "\<not> session_closed_for_reorg (object_id_MaskSessionV2 example_hash example_session) example_v3"
    by code_simp+
  from open_sessions_on_canonical_parents [OF example_reachable this] show ?thesis by simp
qed

theorem payable_plan_refines_chain_witness:
  "current_payable (add_eligible 1 example_t1) = Some 1"
proof -
  have "current_payable (add_eligible 1 example_t1) =
      set_first (pt_eligible_sequences (add_eligible 1 example_t1) -
        set (paid_on_chain (pt_canonical_payments (add_eligible 1 example_t1))))"
    using payable_plan_refines_chain [OF example_reachable] by blast
  also have "\<dots> = Some 1" by code_simp
  finally show ?thesis .
qed

lemma example_reachable_plans: "overlay_reachable example_hash (example_v3, example_t2, example_e2)"
proof -
  have "isl (EntropyPlanTracker_register example_hash (example_entropy_plan 1 5 5) []) = False"
    "isl (EntropyPlanTracker_register example_hash (example_entropy_plan 2 6 6) example_e1) = False"
    by code_simp+
  note ok = this [THEN the_Inr_eq]
  have "overlay_reachable example_hash (example_v3, example_t2, [])"
    unfolding example_t2_def by (rule overlay_reachable.step [OF example_reachable overlay_step.eligible])
  then have "overlay_reachable example_hash (example_v3, example_t2, example_e1)"
    unfolding example_e1_def by (rule overlay_reachable.step) (rule overlay_step.plan [OF ok(1)])
  then show ?thesis
    unfolding example_e2_def by (rule overlay_reachable.step) (rule overlay_step.plan [OF ok(2)])
qed

theorem disconnect_undoes_connect_witness:
  "\<exists>fx t e'. CanonicalOverlayView_disconnect_tip 6 (replicate 32 6)
     (fst (the_Inr example_connect)) (snd (the_Inr example_connect)) example_e2 = Inr (fx, example_v3, t, e') \<and>
     re_invalidated_plan_sequences fx = {2} \<and> pt_eligible_sequences t = {1} \<and> pt_payable_sequences t = {1}"
proof -
  have "isl example_connect = False" by code_simp
  from the_Inr_eq [OF this] have c: "CanonicalOverlayView_connect_block 6 (replicate 32 6) (Some 1)
      example_v3 example_t2 = Inr (fst (the_Inr example_connect), snd (the_Inr example_connect))"
    by (simp add: example_connect_def)
  have lost: "{2} = te_sequence ` {plan \<in> set (bt_values example_e2). te_canonical plan \<and>
      (6, replicate 32 6) \<in> set (te_entropy_blocks plan)}"
    by code_simp
  have "(6 :: u32) < - 1" by simp
  note undone = disconnect_undoes_connect [OF example_reachable_plans this c lost]
  have "pt_eligible_sequences example_t2 - {2} = {1}" "pt_payable_sequences example_t2 - {2} = {1}" by code_simp+
  with undone show ?thesis by fastforce
qed

text \<open>A certificate once invalidated stays refused, even after the chain has returned to its block.\<close>

lemma stale_certificate_refused:
  assumes "bt_get (ov_parent_certificates view) (object_id_SessionParentCertificateV2 H certificate) = Some tracked"
    and "\<not> tc_canonical tracked"
    and "bt_get (ov_canonical_headers view) (pc_parent_height certificate) = Some (pc_parent_hash certificate)"
  shows "register_parent_certificate H certificate view = Inl NoncanonicalParentCertificate"
  using assms by (auto simp: register_parent_certificate_def Let_def)

end
