(* ===== verification/Settlement_Tickets.thy ===== *)
theory Settlement_Tickets
  imports Settlement_Trackers Body_Package Hns_Header Hns_Merkle
begin

text \<open>
  Payout plans of \<^verbatim>\<open>crates/meshmine-settlement/src/lib.rs\<close>: the draw of weighted winners
  (\<^verbatim>\<open>select_weighted\<close>), building and verifying plans, splitting a pool into tickets and laying out the
  coinbase outputs. \<^verbatim>\<open>BigUint\<close> is a natural number; the two Blake2b functions come with \<^verbatim>\<open>Hashes\<close>.
\<close>

definition PLAN_SEED_DOMAIN :: string where "PLAN_SEED_DOMAIN = ''meshmine/payout-plan/v2''"
definition TICKET_DOMAIN :: string where "TICKET_DOMAIN = ''meshmine/payout-ticket/v2''"
definition TRANSCRIPT_DOMAIN :: string where "TRANSCRIPT_DOMAIN = ''meshmine/payout-transcript/v2''"

record PayoutProfile =
  pf_work_ticket_count :: u16
  pf_service_ticket_count :: u16
  pf_service_basis_points :: u16
  pf_maximum_service_basis_points :: u16
  pf_minimum_ticket_value :: u64
  pf_maximum_coinbase_outputs :: u16

record CoinbasePayoutPlan =
  cp_skeleton :: CoinbaseOutputSkeleton
  cp_work_pool :: u64
  cp_service_pool :: u64
  cp_total_subsidy :: u64
  cp_operator_fees :: u64

section \<open>Drawing winners\<close>

definition ticket_candidate :: "Hashes \<Rightarrow> hash256 \<Rightarrow> u8 \<Rightarrow> u16 \<Rightarrow> u64 \<Rightarrow> nat" where
  "ticket_candidate hs seed class ticket_index counter =
     from_be (blake2b_512 hs [enc_bytes (str_bytes TICKET_DOMAIN) @ enc_fixed seed @ enc_u8 class @
       enc_u16 ticket_index @ enc_u64 counter])"

lemma checked_add_progress:
  assumes "checked_add counter 1 = Some (counter' :: u64)"
  shows "2 ^ 64 - unat counter' < 2 ^ 64 - unat counter"
proof -
  have "unat counter' = unat counter + 1" using assms by (simp add: checked_add_Some)
  moreover have "unat counter' < 2 ^ 64" using unsigned_less [of counter'] by simp
  ultimately show ?thesis by simp
qed

text \<open>The rejection loop of one ticket, from the given counter on.\<close>

function draw_ticket ::
  "Hashes \<Rightarrow> hash256 \<Rightarrow> u8 \<Rightarrow> u16 \<Rightarrow> nat \<Rightarrow> nat \<Rightarrow> u64 \<Rightarrow> SettlementError + nat \<times> u64" where
  "draw_ticket hs seed class ticket_index limit total_weight counter =
     (let candidate = ticket_candidate hs seed class ticket_index counter
      in if candidate < limit then Inr (candidate mod total_weight, counter)
         else case checked_add counter 1 of
           None \<Rightarrow> Inl ArithmeticOverflow
         | Some counter' \<Rightarrow> draw_ticket hs seed class ticket_index limit total_weight counter')"
  by pat_completeness auto
termination
  by (relation "measure (\<lambda>(hs, seed, class, ticket_index, limit, total_weight, counter).
      2 ^ 64 - unat counter)")
    (simp_all only: wf_measure in_measure prod.case checked_add_progress)

declare draw_ticket.simps [simp del]

text \<open>\<^verbatim>\<open>slice::partition_point\<close> on a sequence that first satisfies the predicate and then does not.\<close>

definition partition_point :: "('a \<Rightarrow> bool) \<Rightarrow> 'a list \<Rightarrow> nat" where
  "partition_point f xs = length (takeWhile f xs)"

fun cumulative_from :: "nat \<Rightarrow> (hash256 \<times> nat) list \<Rightarrow> nat list" where
  "cumulative_from running [] = []"
| "cumulative_from running ((_, weight) # buckets) =
     (running + weight) # cumulative_from (running + weight) buckets"

definition draw_winner ::
  "Hashes \<Rightarrow> hash256 \<Rightarrow> u8 \<Rightarrow> (hash256 \<times> nat) list \<Rightarrow> u16 \<Rightarrow> SettlementError + hash256 \<times> u64" where
  "draw_winner hs seed class buckets ticket_index =
     (let total_weight = sum_list (map snd buckets);
          limit = (2 ^ 512 div total_weight) * total_weight
      in res_bind (draw_ticket hs seed class ticket_index limit total_weight 0) (\<lambda>(residue, counter).
         let winner_index =
           partition_point (\<lambda>upper. residue \<ge> upper) (cumulative_from 0 buckets)
         in if winner_index < length buckets then Inr (fst (buckets ! winner_index), counter)
            else Inl ArithmeticOverflow))"

definition select_weighted ::
  "Hashes \<Rightarrow> hash256 \<Rightarrow> u8 \<Rightarrow> u16 \<Rightarrow> (hash256 \<times> nat) list \<Rightarrow>
   SettlementError + hash256 list \<times> u64 list" where
  "select_weighted hs seed class count buckets =
     (if count = 0 then Inr ([], [])
      else if buckets = [] then Inl EmptyTicketClass
      else if sum_list (map snd buckets) = 0 then Inl ZeroTicketWeight
      else res_bind (res_mapM (\<lambda>ticket_index. draw_winner hs seed class buckets (of_nat ticket_index))
             [0..<unat count]) (\<lambda>draws. Inr (map fst draws, map snd draws)))"

definition select_work_winners ::
  "Hashes \<Rightarrow> hash256 \<Rightarrow> u8 \<Rightarrow> u16 \<Rightarrow> WorkBucketLeaf list \<Rightarrow>
   SettlementError + hash256 list \<times> u64 list" where
  "select_work_winners hs seed class count buckets =
     select_weighted hs seed class count
       (map (\<lambda>bucket. (wb_bucket_id bucket, from_be (wb_credited_work bucket))) buckets)"

definition select_service_winners ::
  "Hashes \<Rightarrow> hash256 \<Rightarrow> u8 \<Rightarrow> u16 \<Rightarrow> ServiceBucketLeaf list \<Rightarrow>
   SettlementError + hash256 list \<times> u64 list" where
  "select_service_winners hs seed class count buckets =
     select_weighted hs seed class count
       (map (\<lambda>bucket. (sb_bucket_id bucket, from_be (sb_certified_service_credit bucket))) buckets)"

section \<open>Plans\<close>

definition build_payout_plan_with_snapshot_id ::
  "Hashes \<Rightarrow> PayoutSnapshotV2 \<Rightarrow> hash256 \<Rightarrow> u32 \<Rightarrow> hash256 list \<Rightarrow> hash256 \<Rightarrow> PayoutProfile \<Rightarrow>
   SignatureSet \<Rightarrow> SettlementError + PayoutPlanV2" where
  "build_payout_plan_with_snapshot_id hs snapshot snapshot_id entropy_anchor_start entropy_hashes
       prior_beacon profile signer_set =
     (if entropy_hashes = [] \<or> entropy_anchor_start \<le> ps_close_anchor_height snapshot
      then Inl EntropyNotDelayed
      else if length entropy_hashes > 0xffff then Inl EntropyCountOverflow
      else
        let seed_body = enc_fixed snapshot_id @ concat (map enc_fixed entropy_hashes) @
              enc_fixed prior_beacon;
            plan_seed = domain_hash (hash_blake2b_256 hs) PLAN_SEED_DOMAIN seed_body
        in
        res_bind (select_work_winners hs plan_seed 0 (pf_work_ticket_count profile)
          (ps_work_buckets snapshot)) (\<lambda>(work_winners, work_counters).
        res_bind (if pf_service_ticket_count profile = 0 then Inr ([], [])
          else select_service_winners hs plan_seed 1 (pf_service_ticket_count profile)
            (ps_service_buckets snapshot)) (\<lambda>(service_winners, service_counters).
        let transcript = enc_fixed plan_seed @ enc_varint (of_nat (length work_counters)) @
              concat (map enc_u64 work_counters) @ enc_varint (of_nat (length service_counters)) @
              concat (map enc_u64 service_counters) @ concat (map enc_fixed work_winners) @
              concat (map enc_fixed service_winners)
        in Inr \<lparr>pp_protocol_version = 2, pp_network_id = ps_network_id snapshot,
             pp_plan_sequence = ps_snapshot_sequence snapshot, pp_snapshot_id = snapshot_id,
             pp_entropy_anchor_start = entropy_anchor_start,
             pp_entropy_anchor_count = of_nat (length entropy_hashes),
             pp_entropy_hashes = entropy_hashes, pp_prior_beacon = prior_beacon,
             pp_plan_seed = plan_seed, pp_work_ticket_count = pf_work_ticket_count profile,
             pp_service_ticket_count = pf_service_ticket_count profile,
             pp_work_winners = work_winners, pp_service_winners = service_winners,
             pp_selection_transcript_hash =
               domain_hash (hash_blake2b_256 hs) TRANSCRIPT_DOMAIN transcript,
             pp_signer_set = signer_set\<rparr>)))"

definition build_payout_plan ::
  "Hashes \<Rightarrow> PayoutSnapshotV2 \<Rightarrow> u32 \<Rightarrow> hash256 list \<Rightarrow> hash256 \<Rightarrow> PayoutProfile \<Rightarrow>
   SignatureSet \<Rightarrow> SettlementError + PayoutPlanV2" where
  "build_payout_plan hs snapshot entropy_anchor_start entropy_hashes prior_beacon profile signer_set =
     build_payout_plan_with_snapshot_id hs snapshot
       (object_id_PayoutSnapshotV2 (hash_blake2b_256 hs) snapshot)
       entropy_anchor_start entropy_hashes prior_beacon profile signer_set"

definition verify_payout_plan ::
  "Hashes \<Rightarrow> PayoutSnapshotV2 \<Rightarrow> PayoutPlanV2 \<Rightarrow> PayoutProfile \<Rightarrow> SettlementError + unit" where
  "verify_payout_plan hs snapshot plan profile =
     (let snapshot_id = object_id_PayoutSnapshotV2 (hash_blake2b_256 hs) snapshot
      in if pp_snapshot_id plan \<noteq> snapshot_id
            \<or> pp_plan_sequence plan \<noteq> ps_snapshot_sequence snapshot
            \<or> unat (pp_entropy_anchor_count plan) \<noteq> length (pp_entropy_hashes plan)
            \<or> pp_work_ticket_count plan \<noteq> pf_work_ticket_count profile
            \<or> pp_service_ticket_count plan \<noteq> pf_service_ticket_count profile
         then Inl PlanSnapshotMismatch
         else
         res_bind (build_payout_plan_with_snapshot_id hs snapshot snapshot_id
           (pp_entropy_anchor_start plan) (pp_entropy_hashes plan) (pp_prior_beacon plan) profile
           empty_ed25519) (\<lambda>expected.
         if encode_unsigned_PayoutPlanV2 expected \<noteq> encode_unsigned_PayoutPlanV2 plan
         then Inl PlanVerificationMismatch else Inr ()))"

section \<open>Coinbase outputs\<close>

definition ticket_values :: "u64 \<Rightarrow> u16 \<Rightarrow> u64 list" where
  "ticket_values pool count =
     (if count = 0 then []
      else
        let count_u64 = ucast count;
            base = pool div count_u64;
            remainder = pool mod count_u64
        in map (\<lambda>index. base + (if of_nat index < remainder then 1 else 0)) [0..<unat count_u64])"

definition work_destination_map :: "WorkBucketLeaf list \<Rightarrow> (hash256, PayoutOutput) btmap" where
  "work_destination_map buckets = bt_from_list (map (\<lambda>bucket. (wb_bucket_id bucket,
     \<lparr>po_hns_address_version = wb_hns_address_version bucket,
      po_hns_address_hash = wb_hns_address_hash bucket, po_value = 0\<rparr>)) buckets)"

definition service_destination_map :: "ServiceBucketLeaf list \<Rightarrow> (hash256, PayoutOutput) btmap" where
  "service_destination_map buckets = bt_from_list (map (\<lambda>bucket. (sb_bucket_id bucket,
     \<lparr>po_hns_address_version = sb_hns_address_version bucket,
      po_hns_address_hash = sb_hns_address_hash bucket, po_value = 0\<rparr>)) buckets)"

type_synonym DestinationKey = "u8 \<times> bytes"

definition destination_key :: "PayoutOutput \<Rightarrow> DestinationKey" where
  "destination_key out = (po_hns_address_version out, po_hns_address_hash out)"

definition combine_winner ::
  "(hash256, PayoutOutput) btmap \<Rightarrow> (DestinationKey, PayoutOutput) btmap \<Rightarrow> hash256 \<times> u64 \<Rightarrow>
   SettlementError + (DestinationKey, PayoutOutput) btmap" where
  "combine_winner destinations outputs = (\<lambda>(winner, amount).
     res_bind (ok_or ConflictingBucketMetadata (bt_get destinations winner)) (\<lambda>out.
     let key = destination_key out;
         entry = (case bt_get outputs key of None \<Rightarrow> out | Some existing \<Rightarrow> existing)
     in res_bind (ok_or ArithmeticOverflow (checked_add (po_value entry) amount)) (\<lambda>v.
        Inr (bt_insert key (entry\<lparr>po_value := v\<rparr>) outputs))))"

definition combine_winners ::
  "hash256 list \<Rightarrow> u64 list \<Rightarrow> (hash256, PayoutOutput) btmap \<Rightarrow>
   SettlementError + (DestinationKey, PayoutOutput) btmap" where
  "combine_winners winners amounts destinations =
     res_foldM (combine_winner destinations) [] (zip winners amounts)"

definition build_coinbase_payouts ::
  "Hashes \<Rightarrow> PayoutSnapshotV2 \<Rightarrow> PayoutPlanV2 \<Rightarrow> u64 \<Rightarrow> u64 \<Rightarrow> PayoutOutput list \<Rightarrow>
   (u8 \<times> bytes) option \<Rightarrow> PayoutProfile \<Rightarrow> SettlementError + CoinbasePayoutPlan" where
  "build_coinbase_payouts hs snapshot plan subsidy operator_fees mandatory operator_fee_destination
       profile =
     (if pp_snapshot_id plan \<noteq> object_id_PayoutSnapshotV2 (hash_blake2b_256 hs) snapshot
         \<or> pp_plan_sequence plan \<noteq> ps_snapshot_sequence snapshot
         \<or> pp_work_ticket_count plan \<noteq> pf_work_ticket_count profile
         \<or> pp_service_ticket_count plan \<noteq> pf_service_ticket_count profile
      then Inl PlanSnapshotMismatch
      else if pf_service_basis_points profile > pf_maximum_service_basis_points profile
         \<or> pf_maximum_service_basis_points profile > 10000
         \<or> pf_maximum_coinbase_outputs profile = 0
      then Inl InvalidServiceFraction
      else if length (pp_work_winners plan) \<noteq> unat (pf_work_ticket_count profile)
         \<or> length (pp_service_winners plan) \<noteq> unat (pf_service_ticket_count profile)
      then Inl TicketCountMismatch
      else
        let service_pool = ucast (((ucast subsidy :: 128 word) *
              ucast (pf_service_basis_points profile)) div 10000) :: u64;
            work_pool = subsidy - service_pool
        in
        if work_pool > 0 \<and> pf_work_ticket_count profile = 0 then Inl MissingTickets
        else if service_pool > 0 \<and> pf_service_ticket_count profile = 0 then Inl MissingTickets
        else if (work_pool > 0 \<and> work_pool div ucast (pf_work_ticket_count profile) <
                  pf_minimum_ticket_value profile)
              \<or> (service_pool > 0 \<and> service_pool div ucast (pf_service_ticket_count profile) <
                  pf_minimum_ticket_value profile)
        then Inl UneconomicTicket
        else
        let work_values = ticket_values work_pool (pf_work_ticket_count profile);
            service_values = ticket_values service_pool (pf_service_ticket_count profile);
            work_destinations = work_destination_map (ps_work_buckets snapshot);
            service_destinations = service_destination_map (ps_service_buckets snapshot)
        in
        res_bind (combine_winners (pp_work_winners plan) work_values work_destinations) (\<lambda>work.
        res_bind (combine_winners (pp_service_winners plan) service_values service_destinations)
          (\<lambda>service.
        res_bind (if pp_work_winners plan = [] then Inl MissingTickets
          else Inr (hd (pp_work_winners plan))) (\<lambda>first_winner.
        res_bind (ok_or ConflictingBucketMetadata (bt_get work_destinations first_winner)) (\<lambda>d.
        let first_key = destination_key d
        in
        res_bind (ok_or ConflictingBucketMetadata (bt_get work first_key))
          (\<lambda>first_work_or_fallback.
        let remaining_work_outputs = map snd (filter (\<lambda>(key, _). key \<noteq> first_key) work);
            service_outputs = bt_values service
        in
        res_bind (if operator_fees = 0 then Inr None
          else case operator_fee_destination of
            Some (version, hash) \<Rightarrow> Inr (Some \<lparr>po_hns_address_version = version,
              po_hns_address_hash = hash, po_value = operator_fees\<rparr>)
          | None \<Rightarrow> Inl ConflictingBucketMetadata) (\<lambda>operator_fee_output.
        let skeleton = \<lparr>sk_first_work_or_fallback = first_work_or_fallback,
              sk_mandatory_claim_airdrop_outputs = mandatory,
              sk_remaining_work_outputs = remaining_work_outputs,
              sk_service_outputs = service_outputs, sk_operator_fee_output = operator_fee_output\<rparr>
        in
        res_bind (map_err (\<lambda>_. ConflictingBucketMetadata) (validate_sorted skeleton)) (\<lambda>_.
        res_bind (map_err (\<lambda>_. ConflictingBucketMetadata) (ordered_outputs skeleton)) (\<lambda>outputs.
        if length outputs > unat (pf_maximum_coinbase_outputs profile) then Inl CoinbaseOutputPolicy
        else Inr \<lparr>cp_skeleton = skeleton, cp_work_pool = work_pool, cp_service_pool = service_pool,
               cp_total_subsidy = subsidy, cp_operator_fees = operator_fees\<rparr>)))))))))"

section \<open>The draw\<close>

lemma last_counter:
  assumes "checked_add counter 1 = None" and "counter \<le> (c' :: u64)"
  shows "c' = counter"
proof -
  have "2 ^ 64 \<le> unat counter + 1"
    using assms(1) by (simp add: checked_add_def split: if_splits)
  moreover have "unat c' < 2 ^ 64" using unsigned_less [of c'] by simp
  ultimately have "unat c' \<le> unat counter" by linarith
  with assms(2) show ?thesis by (meson antisym word_le_nat_alt)
qed

lemma next_counter:
  assumes "checked_add counter 1 = Some n"
  shows "counter \<le> (c' :: u64) \<longleftrightarrow> c' = counter \<or> n \<le> c'"
proof -
  have "unat n = unat counter + 1" using assms by (simp add: checked_add_Some)
  then show ?thesis by (auto simp only: word_le_nat_alt word_unat_eq_iff)
qed

text \<open>The loop returns the first accepted candidate, and fails only when every counter is rejected.\<close>

definition first_accepted :: "(u64 \<Rightarrow> nat) \<Rightarrow> nat \<Rightarrow> u64 \<Rightarrow> u64 \<Rightarrow> bool" where
  "first_accepted f limit start c \<longleftrightarrow> start \<le> c \<and> f c < limit \<and> (\<forall>c'. start \<le> c' \<and> c' < c \<longrightarrow> limit \<le> f c')"

lemma first_accepted_step:
  assumes "checked_add counter 1 = Some n" and "\<not> f counter < limit"
  shows "first_accepted f limit counter c \<longleftrightarrow> first_accepted f limit n c"
proof -
  have "counter < n" using assms(1) by (auto simp: word_less_nat_alt checked_add_Some)
  then show ?thesis
    using assms(2) by (auto simp: first_accepted_def next_counter [OF assms(1)])
qed

lemma draw_ticket_spec:
  "case draw_ticket hs seed cls ticket_index limit total_weight counter of
      Inr (residue, c) \<Rightarrow> first_accepted (ticket_candidate hs seed cls ticket_index) limit counter c \<and>
        residue = ticket_candidate hs seed cls ticket_index c mod total_weight
    | Inl e \<Rightarrow> e = ArithmeticOverflow \<and>
        (\<forall>c\<ge>counter. limit \<le> ticket_candidate hs seed cls ticket_index c)"
proof (induction hs seed cls ticket_index limit total_weight counter rule: draw_ticket.induct)
  case (1 hs seed cls ticket_index limit total_weight counter)
  let ?f = "ticket_candidate hs seed cls ticket_index"
  let ?draw = "draw_ticket hs seed cls ticket_index limit total_weight"
  consider "?f counter < limit" | "\<not> ?f counter < limit" "checked_add counter 1 = None"
    | n where "\<not> ?f counter < limit" "checked_add counter 1 = Some n" by fastforce
  then show ?case
  proof cases
    case 1
    then have "?draw counter = Inr (?f counter mod total_weight, counter)"
      by (subst draw_ticket.simps) (simp add: Let_def)
    moreover have "first_accepted ?f limit counter counter"
      using \<open>?f counter < limit\<close> by (auto simp: first_accepted_def)
    ultimately show ?thesis by simp
  next
    case 2
    then have "?draw counter = Inl ArithmeticOverflow"
      by (subst draw_ticket.simps) (simp add: Let_def)
    moreover have "limit \<le> ?f c" if "counter \<le> c" for c
      using last_counter [OF 2(2) that] 2(1) by simp
    ultimately show ?thesis by simp
  next
    case 3
    then have draw: "?draw counter = ?draw n"
      by (subst draw_ticket.simps) (simp add: Let_def)
    have all: "(\<forall>c\<ge>counter. limit \<le> ?f c) \<longleftrightarrow> (\<forall>c\<ge>n. limit \<le> ?f c)"
      using 3(1) by (auto simp only: next_counter [OF 3(2)] not_less)
    show ?thesis
      using "1" [OF refl 3] unfolding draw first_accepted_step [where f = ?f, OF 3(2) 3(1)] all .
  qed
qed

definition prefix_weight :: "(hash256 \<times> nat) list \<Rightarrow> nat \<Rightarrow> nat" where
  "prefix_weight bs i = sum_list (map snd (take i bs))"

lemma prefix_weight_Suc: "i < length bs \<Longrightarrow> prefix_weight bs (Suc i) = prefix_weight bs i + snd (bs ! i)"
  by (simp add: prefix_weight_def take_Suc_conv_app_nth)

lemma prefix_weight_le: "prefix_weight bs i \<le> sum_list (map snd bs)"
proof -
  have "sum_list (map snd bs) = prefix_weight bs i + sum_list (map snd (drop i bs))"
    unfolding prefix_weight_def by (metis append_take_drop_id map_append sum_list_append)
  then show ?thesis by simp
qed

text \<open>The bucket found for a residue is the one whose interval contains it.\<close>

lemma partition_point_cumulative:
  assumes "i < length bs"
  shows "partition_point (\<lambda>upper. r \<ge> upper) (cumulative_from a bs) = i \<longleftrightarrow>
    (i = 0 \<or> a + prefix_weight bs i \<le> r) \<and> r < a + prefix_weight bs (Suc i)"
  using assms
proof (induction bs arbitrary: a i)
  case (Cons b bs)
  obtain k w where b: "b = (k, w)" by force
  show ?case
  proof (cases i)
    case 0
    then show ?thesis by (auto simp: b partition_point_def prefix_weight_def)
  next
    case (Suc m)
    with Cons.prems have m: "m < length bs" by simp
    have "partition_point (\<lambda>upper. r \<ge> upper) (cumulative_from a (b # bs)) = i \<longleftrightarrow>
        a + w \<le> r \<and> partition_point (\<lambda>upper. r \<ge> upper) (cumulative_from (a + w) bs) = m"
      by (auto simp: b Suc partition_point_def)
    also have "\<dots> \<longleftrightarrow> a + w \<le> r \<and> (m = 0 \<or> a + w + prefix_weight bs m \<le> r) \<and>
        r < a + w + prefix_weight bs (Suc m)"
      using Cons.IH [OF m] by simp
    finally show ?thesis
      by (cases m) (auto simp: b Suc prefix_weight_def)
  qed
qed simp

lemma partition_point_total:
  "bs \<noteq> [] \<Longrightarrow> r < a + sum_list (map snd bs) \<Longrightarrow>
    partition_point (\<lambda>upper. r \<ge> upper) (cumulative_from a bs) < length bs"
proof (induction bs arbitrary: a)
  case (Cons b bs)
  then show ?case by (cases b; cases bs) (auto simp: partition_point_def)
qed simp

lemma mod_last_block: "q * t \<le> c \<Longrightarrow> c < q * t + t \<Longrightarrow> c mod t = c - q * (t :: nat)"
proof -
  assume "q * t \<le> c" and "c < q * t + t"
  then have "c = (c - q * t) + q * t" and "c - q * t < t" by simp_all
  then show "c mod t = c - q * t" by (metis mod_less mod_mult_self1)
qed

lemma card_mod_interval:
  assumes "p + w \<le> (t :: nat)"
  shows "card {c. c < q * t \<and> p \<le> c mod t \<and> c mod t < p + w} = q * w"
proof (induction q)
  case (Suc q)
  let ?S = "\<lambda>q. {c. c < q * t \<and> p \<le> c mod t \<and> c mod t < p + w}"
  have "c \<in> ?S (Suc q) \<longleftrightarrow> c \<in> ?S q \<union> {q * t + p..<q * t + p + w}" for c
  proof (cases "q * t \<le> c \<and> c < q * t + t")
    case True
    with mod_last_block [of q t c] assms show ?thesis by (simp; linarith)
  next
    case False
    with assms show ?thesis by (simp; linarith)
  qed
  then have "?S (Suc q) = ?S q \<union> {q * t + p..<q * t + p + w}" by blast
  moreover have "?S q \<inter> {q * t + p..<q * t + p + w} = {}" by auto
  ultimately show ?case using Suc by (simp add: card_Un_disjoint)
qed simp

text \<open>C28: a draw is fair. Of the candidates the loop accepts, exactly weight times one common factor lead
  to each bucket, so over uniform candidates a bucket wins in proportion to its weight; the ticket it
  takes is the one of the first accepted counter, and no bucket of weight zero is ever drawn.\<close>

theorem draw_winner_fair:
  fixes buckets :: "(hash256 \<times> nat) list"
  defines "W \<equiv> sum_list (map snd buckets)"
  defines "limit \<equiv> 2 ^ 512 div W * W"
  assumes "i < length buckets" and "0 < W"
  shows "card {candidate. candidate < limit \<and>
      partition_point (\<lambda>upper. candidate mod W \<ge> upper) (cumulative_from 0 buckets) = i} =
      snd (buckets ! i) * (2 ^ 512 div W) \<and>
    (\<forall>winner counter. draw_winner hs seed class buckets ticket_index = Inr (winner, counter) \<longrightarrow>
      first_accepted (ticket_candidate hs seed class ticket_index) limit 0 counter \<and>
      (\<exists>j < length buckets. winner = fst (buckets ! j) \<and> 0 < snd (buckets ! j) \<and>
         prefix_weight buckets j \<le> ticket_candidate hs seed class ticket_index counter mod W \<and>
         ticket_candidate hs seed class ticket_index counter mod W < prefix_weight buckets (Suc j)))"
proof -
  have point: "partition_point (\<lambda>upper. r \<ge> upper) (cumulative_from 0 buckets) = j \<longleftrightarrow>
      prefix_weight buckets j \<le> r \<and> r < prefix_weight buckets j + snd (buckets ! j)"
    if "j < length buckets" for r j
    using partition_point_cumulative [OF that, of r 0] prefix_weight_Suc [OF that]
    by (cases j) (auto simp: prefix_weight_def)
  have "prefix_weight buckets i + snd (buckets ! i) \<le> W"
    using prefix_weight_le [of buckets "Suc i"] prefix_weight_Suc [OF assms(3)] by (simp add: W_def)
  from card_mod_interval [OF this, of "2 ^ 512 div W"]
  have "card {candidate. candidate < limit \<and>
      partition_point (\<lambda>upper. candidate mod W \<ge> upper) (cumulative_from 0 buckets) = i} =
      snd (buckets ! i) * (2 ^ 512 div W)"
    by (simp only: point [OF assms(3)] limit_def mult.commute)
  moreover have "first_accepted (ticket_candidate hs seed class ticket_index) limit 0 counter \<and>
      (\<exists>j < length buckets. winner = fst (buckets ! j) \<and> 0 < snd (buckets ! j) \<and>
         prefix_weight buckets j \<le> ticket_candidate hs seed class ticket_index counter mod W \<and>
         ticket_candidate hs seed class ticket_index counter mod W < prefix_weight buckets (Suc j))"
    if draw: "draw_winner hs seed class buckets ticket_index = Inr (winner, counter)" for winner counter
  proof -
    note spec = draw_ticket_spec [where hs = hs and seed = seed and cls = "class" and
        ticket_index = ticket_index and limit = limit and total_weight = W and counter = 0]
    let ?r = "ticket_candidate hs seed class ticket_index counter mod W"
    let ?j = "partition_point (\<lambda>upper. ?r \<ge> upper) (cumulative_from 0 buckets)"
    have ticket: "draw_ticket hs seed class ticket_index limit W 0 = Inr (?r, counter) \<and>
        ?j < length buckets \<and> winner = fst (buckets ! ?j)"
      using draw spec
      by (auto simp: draw_winner_def Let_def limit_def W_def res_simps split: sum.splits if_splits)
    then have "first_accepted (ticket_candidate hs seed class ticket_index) limit 0 counter"
      using spec by simp
    moreover have "prefix_weight buckets ?j \<le> ?r" "?r < prefix_weight buckets ?j + snd (buckets ! ?j)"
      using point [of ?j ?r] ticket by simp_all
    ultimately show ?thesis
      using ticket prefix_weight_Suc [of ?j buckets] by (intro conjI exI [of _ ?j]) auto
  qed
  ultimately show ?thesis by blast
qed

definition example_ticket_hashes :: Hashes where
  "example_ticket_hashes = \<lparr>hash_blake2b_256 = example_hash, hash_blake2b_512 = (\<lambda>_. replicate 63 0 @ [2]),
     hash_sha3_256 = example_hash\<rparr>"

abbreviation example_buckets :: "(hash256 \<times> nat) list" where
  "example_buckets \<equiv> [(replicate 32 7, 1), (replicate 32 9, 3)]"

lemma example_draw: "draw_winner example_ticket_hashes seed cls example_buckets i = Inr (replicate 32 9, 0)"
proof -
  have "ticket_candidate example_ticket_hashes seed cls i 0 = 2"
    by (simp add: ticket_candidate_def blake2b_512_def example_ticket_hashes_def)
  then show ?thesis by (simp add: draw_winner_def draw_ticket.simps partition_point_def Let_def)
qed

theorem draw_winner_fair_witness:
  "card {candidate. candidate < 2 ^ 512 div 4 * 4 \<and>
      partition_point (\<lambda>upper. candidate mod 4 \<ge> upper) (cumulative_from 0 example_buckets) = 1} =
      3 * (2 ^ 512 div 4) \<and>
    draw_winner example_ticket_hashes (replicate 32 1) 0 example_buckets 0 = Inr (replicate 32 9, 0) \<and>
    first_accepted (ticket_candidate example_ticket_hashes (replicate 32 1) 0 0) (2 ^ 512 div 4 * 4) 0 0"
proof -
  have draw: "draw_winner example_ticket_hashes (replicate 32 1) 0 example_buckets 0 = Inr (replicate 32 9, 0)"
    by (rule example_draw)
  have "1 < length example_buckets" and pos: "0 < sum_list (map snd example_buckets)"
    and eqs: "sum_list (map snd example_buckets) = 4" "snd (example_buckets ! 1) = 3" by simp_all
  note fair = draw_winner_fair [OF this(1) pos, where hs = example_ticket_hashes and
      seed = "replicate 32 1" and ticket_index = 0, of 0, unfolded eqs]
  show ?thesis
    using conjunct1 [OF fair] draw conjunct1 [OF mp [OF spec [OF spec [OF conjunct2 [OF fair]]] draw]]
    by (intro conjI)
qed

section \<open>Splitting a pool\<close>

lemma unat_u16_to_u64 [simp]: "unat (ucast (c :: u16) :: u64) = unat c"
proof -
  have "unat c < 2 ^ 16" using unsigned_less [of c] by simp
  then show ?thesis by (simp add: unsigned_ucast_eq take_bit_nat_eq_self)
qed

lemma ticket_values_nat:
  assumes "count \<noteq> 0"
  defines "n \<equiv> unat count"
  shows "map unat (ticket_values pool count) =
    replicate (unat pool mod n) (unat pool div n + 1) @
    replicate (n - unat pool mod n) (unat pool div n)"
proof -
  have n: "0 < n" "n < 2 ^ 16" using assms unsigned_less [of count] by (simp_all add: unat_gt_0)
  have pool: "unat pool < 2 ^ 64" using unsigned_less [of pool] by simp
  have v: "unat (pool div ucast count + (if of_nat i < pool mod ucast count then 1 else 0 :: u64)) =
      (if i < unat pool mod n then unat pool div n + 1 else unat pool div n)" if "i < n" for i
  proof -
    have "unat (of_nat i :: u64) = i" using that n by (simp add: unsigned_of_nat take_bit_nat_eq_self)
    then have less: "(of_nat i < pool mod ucast count) = (i < unat pool mod n)"
      by (simp add: word_less_nat_alt unat_mod_distrib n_def)
    have "unat pool div n + 1 < 2 ^ 64" if "i < unat pool mod n"
    proof -
      have "unat pool div n \<le> unat pool div n * n" using n by simp
      moreover have "unat pool div n * n + unat pool mod n = unat pool" by simp
      ultimately show ?thesis using that pool by linarith
    qed
    moreover have "unat (pool div ucast count) = unat pool div n" by (simp add: unat_div_distrib n_def)
    ultimately show ?thesis
      unfolding less by (simp add: unat_word_ariths)
  qed
  have "map unat (ticket_values pool count) =
      map (\<lambda>i. if i < unat pool mod n then unat pool div n + 1 else unat pool div n) [0..<n]"
    using assms(1) v by (simp add: ticket_values_def Let_def n_def)
  also have "\<dots> = replicate (unat pool mod n) (unat pool div n + 1) @
      replicate (n - unat pool mod n) (unat pool div n)"
    by (rule nth_equalityI) (use n in \<open>auto simp: nth_append le_simps mod_less_divisor less_imp_le\<close>)
  finally show ?thesis .
qed

lemma ticket_values_sum:
  assumes "count \<noteq> 0 \<or> pool = 0"
  shows "sum_list (map unat (ticket_values pool count)) = unat pool"
proof (cases "count = 0")
  case False
  then have "unat pool mod unat count \<le> unat count" by (simp add: less_imp_le unat_gt_0)
  then show ?thesis
    by (simp add: ticket_values_nat [OF False] sum_list_replicate algebra_simps)
qed (use assms in \<open>simp add: ticket_values_def\<close>)

lemma length_ticket_values: "length (ticket_values pool count) = unat count"
  by (simp add: ticket_values_def Let_def)

end
