(* ===== verification/Settlement_Snapshot.thy ===== *)
theory Settlement_Snapshot
  imports Settlement_Tickets
begin

text \<open>
  The snapshot accumulator of \<^verbatim>\<open>crates/meshmine-settlement/src/lib.rs\<close>: closed sessions are collected,
  every \<^verbatim>\<open>snapshot_step_work\<close> units of new work a payout snapshot over the last \<^verbatim>\<open>pplns_window_work\<close>
  units is produced, and sessions that no later snapshot can reach are pruned.

  A vector's capacity is its length: every vector whose capacity the code reads has been compacted
  (\<^verbatim>\<open>compact_session_allocations\<close>), which therefore changes nothing in the model. The memory size of a
  bucket credit, \<^verbatim>\<open>size_of::<BucketCredit>()\<close>, is chosen by the compiler and is the parameter \<^verbatim>\<open>sz\<close>; the hash
  function is the parameter \<^verbatim>\<open>H\<close>. A panic is the value \<^verbatim>\<open>None\<close>.
\<close>

definition DEFAULT_MAX_RETAINED_SESSIONS :: nat where "DEFAULT_MAX_RETAINED_SESSIONS = 100000"
definition DEFAULT_MAX_RETAINED_BUCKET_CREDITS :: nat where "DEFAULT_MAX_RETAINED_BUCKET_CREDITS = 1000000"
definition DEFAULT_MAX_RETAINED_PAYLOAD_BYTES :: nat where
  "DEFAULT_MAX_RETAINED_PAYLOAD_BYTES = 256 * 1024 * 1024"

record BucketCredit =
  bk_bucket :: PayoutBucketV2
  bk_credit :: U512

record ClosedSessionCredits =
  cs_session_close_id :: hash256
  cs_close_anchor_height :: u32
  cs_work :: "BucketCredit list"
  cs_service :: "BucketCredit list"

record SnapshotAccumulatorLimits =
  sl_max_retained_sessions :: nat
  sl_max_retained_bucket_credits :: nat
  sl_max_retained_payload_bytes :: nat

definition SnapshotAccumulatorLimits_default :: SnapshotAccumulatorLimits where
  "SnapshotAccumulatorLimits_default =
     \<lparr>sl_max_retained_sessions = DEFAULT_MAX_RETAINED_SESSIONS,
      sl_max_retained_bucket_credits = DEFAULT_MAX_RETAINED_BUCKET_CREDITS,
      sl_max_retained_payload_bytes = DEFAULT_MAX_RETAINED_PAYLOAD_BYTES\<rparr>"

record SnapshotAccumulatorStats =
  st_retained_sessions :: nat
  st_retained_bucket_credits :: nat
  st_retained_payload_bytes :: nat

record SnapshotAccumulatorCheckpoint =
  ck_network_id :: u8
  ck_next_sequence :: u64
  ck_previous_snapshot_id :: hash256
  ck_snapshot_step_work :: U512
  ck_pplns_window_work :: U512
  ck_settlement_committee_id :: hash256
  ck_closed_sessions :: "ClosedSessionCredits list"
  ck_new_work_since_snapshot :: U512

record SnapshotAccumulator =
  sa_network_id :: u8
  sa_next_sequence :: u64
  sa_previous_snapshot_id :: hash256
  sa_snapshot_step_work :: nat
  sa_pplns_window_work :: nat
  sa_settlement_committee_id :: hash256
  sa_closed_sessions :: "ClosedSessionCredits list"
  sa_new_work_since_snapshot :: nat
  sa_retained_work :: nat
  sa_retained_bucket_credits :: nat
  sa_retained_payload_bytes :: nat
  sa_limits :: SnapshotAccumulatorLimits

record RetentionProjection =
  rp_prune_count :: nat
  rp_retained_work :: nat
  rp_retained_sessions :: nat
  rp_retained_bucket_credits :: nat
  rp_retained_payload_bytes :: nat

section \<open>Credits\<close>

definition big_to_u512 :: "nat \<Rightarrow> SettlementError + U512" where
  "big_to_u512 v =
     (if bit_length v > 512 then Inl ArithmeticOverflow
      else let bs = to_bytes_be v in Inr (replicate (64 - length bs) 0 @ bs))"

definition sum_credits :: "BucketCredit list \<Rightarrow> nat" where
  "sum_credits credits = sum_list (map (\<lambda>credit. from_be (bk_credit credit)) credits)"

definition compact_session_allocations :: "ClosedSessionCredits \<Rightarrow> ClosedSessionCredits" where
  "compact_session_allocations session = session"

definition session_bucket_credit_count :: "ClosedSessionCredits \<Rightarrow> SettlementError + nat" where
  "session_bucket_credit_count session =
     ok_or ArithmeticOverflow (usize_checked_add (length (cs_work session)) (length (cs_service session)))"

definition session_payload_bytes :: "nat \<Rightarrow> ClosedSessionCredits \<Rightarrow> SettlementError + nat" where
  "session_payload_bytes sz session =
     res_bind (ok_or ArithmeticOverflow (Option.bind
       (usize_checked_add (length (cs_work session)) (length (cs_service session)))
       (\<lambda>credits. usize_checked_mul credits sz))) (\<lambda>total_bytes.
     res_foldM (\<lambda>total_bytes credit. ok_or ArithmeticOverflow (Option.bind
         (usize_checked_add total_bytes (length (pb_hns_address_hash (bk_bucket credit))))
         (\<lambda>b. usize_checked_add b (length (pb_signature (bk_bucket credit))))))
       total_bytes (cs_work session @ cs_service session))"

definition ensure_retention_limits ::
  "SnapshotAccumulatorLimits \<Rightarrow> nat \<Rightarrow> nat \<Rightarrow> nat \<Rightarrow> SettlementError + unit" where
  "ensure_retention_limits limits retained_sessions retained_bucket_credits retained_payload_bytes =
     (if retained_sessions > sl_max_retained_sessions limits then Inl RetainedSessionLimit
      else if retained_bucket_credits > sl_max_retained_bucket_credits limits
      then Inl RetainedBucketCreditLimit
      else if retained_payload_bytes > sl_max_retained_payload_bytes limits
      then Inl RetainedPayloadByteLimit else Inr ())"

type_synonym credit_map = "(hash256, PayoutBucketV2 \<times> nat) btmap"

definition merge_credit :: "(bytes \<Rightarrow> hash256) \<Rightarrow> credit_map \<Rightarrow> BucketCredit \<Rightarrow> SettlementError + credit_map" where
  "merge_credit H buckets credit =
     (let i = object_id_PayoutBucketV2 H (bk_bucket credit);
          amount = from_be (bk_credit credit)
      in case bt_get buckets i of
           Some (bucket, credited) \<Rightarrow>
             if encode_unsigned_PayoutBucketV2 bucket \<noteq> encode_unsigned_PayoutBucketV2 (bk_bucket credit)
             then Inl ConflictingBucketMetadata
             else Inr (bt_insert i (bucket, credited + amount) buckets)
         | None \<Rightarrow> Inr (bt_insert i (bk_bucket credit, amount) buckets))"

definition aggregate_work ::
  "(bytes \<Rightarrow> hash256) \<Rightarrow> ClosedSessionCredits list \<Rightarrow> SettlementError + WorkBucketLeaf list" where
  "aggregate_work H sessions =
     res_bind (res_foldM (merge_credit H) [] (concat (map cs_work sessions))) (\<lambda>buckets.
     res_mapM (\<lambda>(bucket_id, bucket, credit). res_bind (big_to_u512 credit) (\<lambda>credited_work.
       Inr \<lparr>wb_bucket_id = bucket_id, wb_operator_pubkey = pb_operator_pubkey bucket,
         wb_hns_address_version = pb_hns_address_version bucket,
         wb_hns_address_hash = pb_hns_address_hash bucket, wb_credited_work = credited_work\<rparr>)) buckets)"

definition aggregate_service ::
  "(bytes \<Rightarrow> hash256) \<Rightarrow> ClosedSessionCredits list \<Rightarrow> SettlementError + ServiceBucketLeaf list" where
  "aggregate_service H sessions =
     res_bind (res_foldM (merge_credit H) [] (concat (map cs_service sessions))) (\<lambda>buckets.
     res_mapM (\<lambda>(bucket_id, bucket, credit). res_bind (big_to_u512 credit) (\<lambda>certified.
       Inr \<lparr>sb_bucket_id = bucket_id, sb_operator_pubkey = pb_operator_pubkey bucket,
         sb_hns_address_version = pb_hns_address_version bucket,
         sb_hns_address_hash = pb_hns_address_hash bucket, sb_certified_service_credit = certified\<rparr>)) buckets)"

section \<open>The accumulator\<close>

definition new_with_limits ::
  "u8 \<Rightarrow> u64 \<Rightarrow> hash256 \<Rightarrow> U512 \<Rightarrow> U512 \<Rightarrow> hash256 \<Rightarrow> SnapshotAccumulatorLimits \<Rightarrow>
   SettlementError + SnapshotAccumulator" where
  "new_with_limits network_id first_sequence previous_snapshot_id snapshot_step_work pplns_window_work
       settlement_committee_id limits =
     (let step = from_be snapshot_step_work; window = from_be pplns_window_work
      in if step = 0 \<or> window = 0 then Inl ZeroSnapshotThreshold
         else if sl_max_retained_sessions limits = 0 \<or> sl_max_retained_bucket_credits limits = 0
            \<or> sl_max_retained_payload_bytes limits = 0
         then Inl ZeroAccumulatorLimit
         else Inr \<lparr>sa_network_id = network_id, sa_next_sequence = first_sequence,
           sa_previous_snapshot_id = previous_snapshot_id, sa_snapshot_step_work = step,
           sa_pplns_window_work = window, sa_settlement_committee_id = settlement_committee_id,
           sa_closed_sessions = [], sa_new_work_since_snapshot = 0, sa_retained_work = 0,
           sa_retained_bucket_credits = 0, sa_retained_payload_bytes = 0, sa_limits = limits\<rparr>)"

definition SnapshotAccumulator_new ::
  "u8 \<Rightarrow> u64 \<Rightarrow> hash256 \<Rightarrow> U512 \<Rightarrow> U512 \<Rightarrow> hash256 \<Rightarrow> SettlementError + SnapshotAccumulator" where
  "SnapshotAccumulator_new network_id first_sequence previous_snapshot_id snapshot_step_work
       pplns_window_work settlement_committee_id =
     new_with_limits network_id first_sequence previous_snapshot_id snapshot_step_work
       pplns_window_work settlement_committee_id SnapshotAccumulatorLimits_default"

definition SnapshotAccumulator_stats :: "SnapshotAccumulator \<Rightarrow> SnapshotAccumulatorStats" where
  "SnapshotAccumulator_stats acc =
     \<lparr>st_retained_sessions = length (sa_closed_sessions acc),
      st_retained_bucket_credits = sa_retained_bucket_credits acc,
      st_retained_payload_bytes = sa_retained_payload_bytes acc\<rparr>"

definition SnapshotAccumulator_limits :: "SnapshotAccumulator \<Rightarrow> SnapshotAccumulatorLimits" where
  "SnapshotAccumulator_limits acc = sa_limits acc"

definition checkpoint :: "SnapshotAccumulator \<Rightarrow> SettlementError + SnapshotAccumulatorCheckpoint" where
  "checkpoint acc =
     (if sa_new_work_since_snapshot acc \<ge> sa_snapshot_step_work acc then Inl InvalidAccumulatorCheckpoint
      else
        res_bind (big_to_u512 (sa_snapshot_step_work acc)) (\<lambda>step.
        res_bind (big_to_u512 (sa_pplns_window_work acc)) (\<lambda>window.
        res_bind (big_to_u512 (sa_new_work_since_snapshot acc)) (\<lambda>new_work.
        Inr \<lparr>ck_network_id = sa_network_id acc, ck_next_sequence = sa_next_sequence acc,
          ck_previous_snapshot_id = sa_previous_snapshot_id acc, ck_snapshot_step_work = step,
          ck_pplns_window_work = window, ck_settlement_committee_id = sa_settlement_committee_id acc,
          ck_closed_sessions = sa_closed_sessions acc, ck_new_work_since_snapshot = new_work\<rparr>))))"

text \<open>
  Subtraction panics below zero: the one of \<^verbatim>\<open>BigUint\<close> always, \<^verbatim>\<open>-=\<close> on a
  \<^verbatim>\<open>usize\<close> under overflow checks (without them it wraps around). Both are None here. A computation
  that may also fail is an optional result, continued by \<^verbatim>\<open>panic_bind\<close>.
\<close>

definition panicking_sub :: "nat \<Rightarrow> nat \<Rightarrow> nat option" where
  "panicking_sub a b = (if a < b then None else Some (a - b))"

definition panic_bind :: "('e + 'a) option \<Rightarrow> ('a \<Rightarrow> ('e + 'b) option) \<Rightarrow> ('e + 'b) option" where
  "panic_bind r f = (case r of None \<Rightarrow> None | Some (Inl e) \<Rightarrow> Some (Inl e) | Some (Inr x) \<Rightarrow> f x)"

lemma panicking_sub_add [simp]: "panicking_sub (a + b) a = Some b"
  by (simp add: panicking_sub_def)

lemma panicking_sub_le: "b \<le> a \<Longrightarrow> panicking_sub a b = Some (a - b)"
  by (simp add: panicking_sub_def)

lemma panic_bind_simps [simp]:
  "panic_bind None f = None" "panic_bind (Some (Inl e)) f = Some (Inl e)" "panic_bind (Some (Inr x)) f = f x"
  by (simp_all add: panic_bind_def)

lemma panic_bind_Inr_iff [res_simps]:
  "panic_bind r f = Some (Inr y) \<longleftrightarrow> (\<exists>x. r = Some (Inr x) \<and> f x = Some (Inr y))"
  by (auto simp: panic_bind_def split: option.splits sum.splits)

lemma panic_bind_Some:
  "\<exists>z. r = Some z \<Longrightarrow> (\<And>x. r = Some (Inr x) \<Longrightarrow> \<exists>z. f x = Some z) \<Longrightarrow> \<exists>z. panic_bind r f = Some z"
  by (auto simp: panic_bind_def split: option.splits sum.splits)

text \<open>The loop of \<^verbatim>\<open>prune_retained_prefix\<close> over the sessions from the oldest on.\<close>

fun prune_sessions :: "nat \<Rightarrow> ClosedSessionCredits list \<Rightarrow> SnapshotAccumulator \<Rightarrow> SnapshotAccumulator option" where
  "prune_sessions sz [] acc = Some (acc\<lparr>sa_closed_sessions := []\<rparr>)"
| "prune_sessions sz (oldest # sessions) acc =
     Option.bind (panicking_sub (sa_retained_work acc) (sum_credits (cs_work oldest))) (\<lambda>work_without_oldest.
     if work_without_oldest < sa_pplns_window_work acc
     then Some (acc\<lparr>sa_closed_sessions := oldest # sessions\<rparr>)
     else
     Option.bind (panicking_sub (sa_retained_bucket_credits acc)
         (min (length (cs_work oldest) + length (cs_service oldest)) usize_max)) (\<lambda>credits.
     case session_payload_bytes sz oldest of
       Inl _ \<Rightarrow> None
     | Inr payload \<Rightarrow>
       Option.bind (panicking_sub (sa_retained_payload_bytes acc) payload) (\<lambda>bs.
       prune_sessions sz sessions (acc\<lparr>sa_retained_work := work_without_oldest,
         sa_retained_bucket_credits := credits, sa_retained_payload_bytes := bs\<rparr>))))"

definition prune_retained_prefix :: "nat \<Rightarrow> SnapshotAccumulator \<Rightarrow> SnapshotAccumulator option" where
  "prune_retained_prefix sz acc = prune_sessions sz (sa_closed_sessions acc) acc"

definition ensure_limits :: "SnapshotAccumulator \<Rightarrow> SettlementError + unit" where
  "ensure_limits acc = ensure_retention_limits (sa_limits acc) (length (sa_closed_sessions acc))
     (sa_retained_bucket_credits acc) (sa_retained_payload_bytes acc)"

definition restore_session ::
  "nat \<Rightarrow> SnapshotAccumulator \<Rightarrow> ClosedSessionCredits \<Rightarrow> SettlementError + SnapshotAccumulator" where
  "restore_session sz acc session0 =
     (let session = compact_session_allocations session0;
          session_work = sum_credits (cs_work session)
      in if session_work = 0 then Inl InvalidAccumulatorCheckpoint
         else
         res_bind (session_bucket_credit_count session) (\<lambda>count.
         res_bind (ok_or ArithmeticOverflow (usize_checked_add (sa_retained_bucket_credits acc) count)) (\<lambda>credits.
         res_bind (session_payload_bytes sz session) (\<lambda>payload.
         res_bind (ok_or ArithmeticOverflow (usize_checked_add (sa_retained_payload_bytes acc) payload)) (\<lambda>bs.
         Inr (acc\<lparr>sa_retained_work := sa_retained_work acc + session_work,
           sa_retained_bucket_credits := credits, sa_retained_payload_bytes := bs,
           sa_closed_sessions := sa_closed_sessions acc @ [session]\<rparr>))))))"

definition from_checkpoint ::
  "nat \<Rightarrow> SnapshotAccumulatorCheckpoint \<Rightarrow> SnapshotAccumulatorLimits \<Rightarrow>
   (SettlementError + SnapshotAccumulator) option" where
  "from_checkpoint sz ck limits =
     (case new_with_limits (ck_network_id ck) (ck_next_sequence ck) (ck_previous_snapshot_id ck)
         (ck_snapshot_step_work ck) (ck_pplns_window_work ck) (ck_settlement_committee_id ck) limits of
        Inl e \<Rightarrow> Some (Inl e)
      | Inr accumulator \<Rightarrow>
        let new_work = from_be (ck_new_work_since_snapshot ck)
        in if new_work \<ge> sa_snapshot_step_work accumulator
              \<or> (ck_closed_sessions ck = [] \<and> new_work \<noteq> 0)
           then Some (Inl InvalidAccumulatorCheckpoint)
           else case res_foldM (restore_session sz) accumulator (ck_closed_sessions ck) of
             Inl e \<Rightarrow> Some (Inl e)
           | Inr accumulator \<Rightarrow>
             case prune_retained_prefix sz accumulator of
               None \<Rightarrow> None
             | Some accumulator \<Rightarrow>
               Some (res_bind (ensure_limits accumulator) (\<lambda>_.
                 Inr (accumulator\<lparr>sa_new_work_since_snapshot := new_work\<rparr>))))"

section \<open>Adding a closed session\<close>

text \<open>The loop of \<^verbatim>\<open>retention_projection\<close> over the retained sessions from the oldest on.\<close>

fun project_pruning ::
  "nat \<Rightarrow> nat \<Rightarrow> RetentionProjection \<Rightarrow> ClosedSessionCredits list \<Rightarrow>
   (SettlementError + RetentionProjection) option" where
  "project_pruning sz window p [] = Some (Inr p)"
| "project_pruning sz window p (old_session # sessions) =
     Option.bind (panicking_sub (rp_retained_work p) (sum_credits (cs_work old_session))) (\<lambda>work_without_oldest.
     if work_without_oldest < window then Some (Inr p)
     else
     Option.bind (panicking_sub (rp_retained_sessions p) 1) (\<lambda>retained_sessions.
     panic_bind (Some (session_bucket_credit_count old_session)) (\<lambda>count.
     Option.bind (panicking_sub (rp_retained_bucket_credits p) count) (\<lambda>retained_bucket_credits.
     panic_bind (Some (session_payload_bytes sz old_session)) (\<lambda>payload.
     Option.bind (panicking_sub (rp_retained_payload_bytes p) payload) (\<lambda>retained_payload_bytes.
     project_pruning sz window
       \<lparr>rp_prune_count = rp_prune_count p + 1, rp_retained_work = work_without_oldest,
        rp_retained_sessions = retained_sessions, rp_retained_bucket_credits = retained_bucket_credits,
        rp_retained_payload_bytes = retained_payload_bytes\<rparr> sessions))))))"

definition retention_projection ::
  "nat \<Rightarrow> SnapshotAccumulator \<Rightarrow> ClosedSessionCredits \<Rightarrow> nat \<Rightarrow>
   (SettlementError + RetentionProjection) option" where
  "retention_projection sz acc session session_work =
     panic_bind (Some (ok_or ArithmeticOverflow (usize_checked_add (length (sa_closed_sessions acc)) 1)))
       (\<lambda>retained_sessions.
     panic_bind (Some (session_bucket_credit_count session)) (\<lambda>count.
     panic_bind (Some (ok_or ArithmeticOverflow (usize_checked_add (sa_retained_bucket_credits acc) count)))
       (\<lambda>retained_bucket_credits.
     panic_bind (Some (session_payload_bytes sz session)) (\<lambda>payload.
     panic_bind (Some (ok_or ArithmeticOverflow (usize_checked_add (sa_retained_payload_bytes acc) payload)))
       (\<lambda>retained_payload_bytes.
     project_pruning sz (sa_pplns_window_work acc)
       \<lparr>rp_prune_count = 0, rp_retained_work = sa_retained_work acc + session_work,
        rp_retained_sessions = retained_sessions, rp_retained_bucket_credits = retained_bucket_credits,
        rp_retained_payload_bytes = retained_payload_bytes\<rparr> (sa_closed_sessions acc))))))"

definition ensure_projection_within_limits ::
  "SnapshotAccumulator \<Rightarrow> RetentionProjection \<Rightarrow> SettlementError + unit" where
  "ensure_projection_within_limits acc p = ensure_retention_limits (sa_limits acc)
     (rp_retained_sessions p) (rp_retained_bucket_credits p) (rp_retained_payload_bytes p)"

text \<open>The sessions of a window, from the newest back, until the window is full.\<close>

fun select_recent ::
  "nat \<Rightarrow> nat \<Rightarrow> ClosedSessionCredits list \<Rightarrow> ClosedSessionCredits list \<times> nat" where
  "select_recent window window_work [] = ([], window_work)"
| "select_recent window window_work (s # sessions) =
     (let window_work = window_work + sum_credits (cs_work s)
      in if window_work \<ge> window then ([s], window_work)
         else let (selected, final_work) = select_recent window window_work sessions
              in (s # selected, final_work))"

definition build_snapshot ::
  "(bytes \<Rightarrow> hash256) \<Rightarrow> SnapshotAccumulator \<Rightarrow> ClosedSessionCredits list \<Rightarrow> SignatureSet \<Rightarrow>
   SettlementError + PayoutSnapshotV2" where
  "build_snapshot H acc sessions signer_set =
     (let (recent, window_work) = select_recent (sa_pplns_window_work acc) 0 (rev sessions);
          selected = rev recent
      in
      res_bind (aggregate_work H selected) (\<lambda>work_buckets.
      res_bind (aggregate_service H selected) (\<lambda>service_buckets.
      let close_ids = map cs_session_close_id selected;
          service_ids = map cs_session_close_id (filter (\<lambda>s. cs_service s \<noteq> []) selected);
          first = hd selected;
          last_session = last selected
      in
      res_bind (big_to_u512 (sa_pplns_window_work acc)) (\<lambda>work_window_target.
      res_bind (big_to_u512 window_work) (\<lambda>actual_work_in_window.
      Inr \<lparr>ps_protocol_version = 2, ps_network_id = sa_network_id acc,
        ps_snapshot_sequence = sa_next_sequence acc,
        ps_previous_snapshot_id = sa_previous_snapshot_id acc,
        ps_first_session_close_id = cs_session_close_id first,
        ps_last_session_close_id = cs_session_close_id last_session,
        ps_close_anchor_height = cs_close_anchor_height last_session,
        ps_work_window_target = work_window_target,
        ps_actual_work_in_window = actual_work_in_window, ps_work_buckets = work_buckets,
        ps_service_buckets = service_buckets, ps_share_set_root = merkle_root H close_ids,
        ps_service_set_root = merkle_root H service_ids,
        ps_settlement_committee_id = sa_settlement_committee_id acc, ps_signer_set = signer_set\<rparr>)))))"

definition add_closed_session ::
  "(bytes \<Rightarrow> hash256) \<Rightarrow> nat \<Rightarrow> SnapshotAccumulator \<Rightarrow> ClosedSessionCredits \<Rightarrow> SignatureSet \<Rightarrow>
   (SettlementError + SnapshotAccumulator \<times> PayoutSnapshotV2 option) option" where
  "add_closed_session H sz acc session0 signer_set =
     (let session = compact_session_allocations session0;
          session_work = sum_credits (cs_work session)
      in if session_work = 0 then Some (Inl EmptySessionWork)
         else
         panic_bind (retention_projection sz acc session session_work) (\<lambda>projection.
         panic_bind (Some (ensure_projection_within_limits acc projection)) (\<lambda>_.
         let prospective_new_work = sa_new_work_since_snapshot acc + session_work
         in
         panic_bind (Some (if prospective_new_work < sa_snapshot_step_work acc then Inr None
           else res_bind (ok_or ArithmeticOverflow (checked_add (sa_next_sequence acc) 1)) (\<lambda>_.
             res_bind (build_snapshot H acc (sa_closed_sessions acc @ [session]) signer_set)
               (\<lambda>snapshot. Inr (Some snapshot))))) (\<lambda>snapshot.
         let sessions = sa_closed_sessions acc @ [session]
         in if length sessions < rp_prune_count projection then None
            else
            let retained = acc\<lparr>
                  sa_closed_sessions := drop (rp_prune_count projection) sessions,
                  sa_retained_work := rp_retained_work projection,
                  sa_retained_bucket_credits := rp_retained_bucket_credits projection,
                  sa_retained_payload_bytes := rp_retained_payload_bytes projection\<rparr>
            in Some (Inr (case snapshot of
                Some snap \<Rightarrow> retained\<lparr>sa_previous_snapshot_id := object_id_PayoutSnapshotV2 H snap,
                  sa_next_sequence := sa_next_sequence acc + 1, sa_new_work_since_snapshot := 0\<rparr>
              | None \<Rightarrow> retained\<lparr>sa_new_work_since_snapshot := prospective_new_work\<rparr>, snapshot))))))"

section \<open>The retained totals\<close>

abbreviation session_work :: "ClosedSessionCredits \<Rightarrow> nat" where
  "session_work s \<equiv> sum_credits (cs_work s)"

definition credit_count :: "ClosedSessionCredits \<Rightarrow> nat" where
  "credit_count s = length (cs_work s) + length (cs_service s)"

definition payload :: "nat \<Rightarrow> ClosedSessionCredits \<Rightarrow> nat" where
  "payload sz s = credit_count s * sz + (\<Sum>credit \<leftarrow> cs_work s @ cs_service s.
     length (pb_hns_address_hash (bk_bucket credit)) + length (pb_signature (bk_bucket credit)))"

definition window_total :: "ClosedSessionCredits list \<Rightarrow> nat" where
  "window_total xs = sum_list (map session_work xs)"

definition count_total :: "ClosedSessionCredits list \<Rightarrow> nat" where
  "count_total xs = sum_list (map credit_count xs)"

definition payload_total :: "nat \<Rightarrow> ClosedSessionCredits list \<Rightarrow> nat" where
  "payload_total sz xs = sum_list (map (payload sz) xs)"

lemma totals_simps [simp]:
  "window_total [] = 0" "window_total (s # xs) = session_work s + window_total xs"
  "window_total (xs @ ys) = window_total xs + window_total ys"
  "count_total [] = 0" "count_total (s # xs) = credit_count s + count_total xs"
  "count_total (xs @ ys) = count_total xs + count_total ys"
  "payload_total sz [] = 0" "payload_total sz (s # xs) = payload sz s + payload_total sz xs"
  "payload_total sz (xs @ ys) = payload_total sz xs + payload_total sz ys"
  by (simp_all add: window_total_def count_total_def payload_total_def)

lemma big_to_u512_eq:
  "big_to_u512 v = (if v < 2 ^ 512 then Inr (be_pad 64 v) else Inl ArithmeticOverflow)"
proof -
  have "replicate (64 - length (to_bytes_be v)) 0 @ to_bytes_be v = be_pad 64 v" if "v < 2 ^ 512"
    using pad_to_bytes_be [of v 64] that by simp
  then show ?thesis using bit_length_le_iff [of v 512] by (auto simp: big_to_u512_def Let_def not_less)
qed

lemma session_bucket_credit_count_iff [res_simps]:
  "session_bucket_credit_count s = Inr c \<longleftrightarrow> c = credit_count s \<and> c \<le> usize_max"
  by (auto simp: session_bucket_credit_count_def credit_count_def ok_or_Inr_iff usize_checked_add_Some)

lemma payload_fold:
  assumes "t \<le> usize_max"
  shows "res_foldM (\<lambda>total_bytes credit. ok_or ArithmeticOverflow (Option.bind
         (usize_checked_add total_bytes (length (pb_hns_address_hash (bk_bucket credit))))
         (\<lambda>b. usize_checked_add b (length (pb_signature (bk_bucket credit)))))) t credits = Inr b \<longleftrightarrow>
    b = t + (\<Sum>credit \<leftarrow> credits. length (pb_hns_address_hash (bk_bucket credit)) +
      length (pb_signature (bk_bucket credit))) \<and> b \<le> usize_max"
  using assms
proof (induction credits arbitrary: t)
  case (Cons c credits)
  let ?a = "length (pb_hns_address_hash (bk_bucket c))" and ?g = "length (pb_signature (bk_bucket c))"
  show ?case
  proof (cases "t + ?a + ?g \<le> usize_max")
    case True
    then show ?thesis using Cons.IH [of "t + ?a + ?g"]
      by (simp add: usize_checked_add_def not_less algebra_simps)
  next
    case False
    then show ?thesis by (auto simp: usize_checked_add_def not_less split: if_splits)
  qed
qed auto

lemma session_payload_bytes_iff [res_simps]:
  "session_payload_bytes sz s = Inr b \<longleftrightarrow> b = payload sz s \<and> b \<le> usize_max \<and> credit_count s \<le> usize_max"
proof (cases "credit_count s \<le> usize_max \<and> credit_count s * sz \<le> usize_max")
  case True
  then show ?thesis
    using payload_fold [of "credit_count s * sz" "cs_work s @ cs_service s" b]
    by (auto simp: session_payload_bytes_def usize_checked_add_def usize_checked_mul_def not_less
        credit_count_def payload_def)
next
  case False
  then show ?thesis
    by (auto simp: session_payload_bytes_def usize_checked_add_def usize_checked_mul_def not_less
        credit_count_def payload_def split: if_splits)
qed

definition exact_projection :: "nat \<Rightarrow> nat \<Rightarrow> ClosedSessionCredits list \<Rightarrow> RetentionProjection" where
  "exact_projection sz k xs = \<lparr>rp_prune_count = k, rp_retained_work = window_total xs,
     rp_retained_sessions = length xs, rp_retained_bucket_credits = count_total xs,
     rp_retained_payload_bytes = payload_total sz xs\<rparr>"

text \<open>The projection prunes the longest prefix without which the window is still full. Its counters are
  those of the remaining sessions, so none of the subtractions in the loop goes below zero.\<close>

lemma project_pruning_step:
  "project_pruning sz window (exact_projection sz k (old # xs @ rest)) (old # xs) =
    (if window_total (xs @ rest) < window then Some (Inr (exact_projection sz k (old # xs @ rest)))
     else panic_bind (Some (session_bucket_credit_count old)) (\<lambda>_.
       panic_bind (Some (session_payload_bytes sz old)) (\<lambda>_.
       project_pruning sz window (exact_projection sz (Suc k) (xs @ rest)) xs)))"
proof -
  have "(\<exists>e. session_bucket_credit_count old = Inl e) \<or> session_bucket_credit_count old = Inr (credit_count old)"
    by (cases "session_bucket_credit_count old") (auto simp: session_bucket_credit_count_iff)
  moreover have "(\<exists>e. session_payload_bytes sz old = Inl e) \<or> session_payload_bytes sz old = Inr (payload sz old)"
    by (cases "session_payload_bytes sz old") (auto simp: session_payload_bytes_iff)
  ultimately show ?thesis by (elim disjE exE) (simp_all add: exact_projection_def panicking_sub_def)
qed

lemma project_pruning_no_panic: "project_pruning sz window (exact_projection sz k (olds @ rest)) olds \<noteq> None"
proof (induction olds arbitrary: k)
  case (Cons old olds)
  show ?case
    unfolding append_Cons project_pruning_step using Cons.IH
    by (auto simp: panic_bind_def simp del: project_pruning.simps split: sum.splits)
qed simp

lemma project_pruning_exact:
  assumes "project_pruning sz window (exact_projection sz k0 (olds @ rest)) olds = Some (Inr p)"
  shows "\<exists>k \<le> length olds. p = exact_projection sz (k0 + k) (drop k olds @ rest) \<and>
    (k < length olds \<longrightarrow> window_total (drop (Suc k) olds @ rest) < window) \<and>
    (0 < k \<longrightarrow> window \<le> window_total (drop k olds @ rest))"
  using assms
proof (induction olds arbitrary: k0)
  case (Cons old olds)
  note prems = Cons.prems [unfolded append_Cons project_pruning_step]
  show ?case
  proof (cases "window_total (olds @ rest) < window")
    case True
    with prems show ?thesis by (intro exI [of _ 0]) simp
  next
    case False
    with prems have "project_pruning sz window (exact_projection sz (Suc k0) (olds @ rest)) olds = Some (Inr p)"
      by (simp add: res_simps)
    from Cons.IH [OF this] obtain k where "k \<le> length olds"
      "p = exact_projection sz (Suc k0 + k) (drop k olds @ rest)"
      "k < length olds \<longrightarrow> window_total (drop (Suc k) olds @ rest) < window"
      "0 < k \<longrightarrow> window \<le> window_total (drop k olds @ rest)" by blast
    then show ?thesis using False by (intro exI [of _ "Suc k"]) (cases k; simp)
  qed
qed auto

section \<open>The invariant\<close>

definition counters_exact :: "nat \<Rightarrow> SnapshotAccumulator \<Rightarrow> bool" where
  "counters_exact sz acc \<longleftrightarrow>
     sa_retained_work acc = window_total (sa_closed_sessions acc) \<and>
     sa_retained_bucket_credits acc = count_total (sa_closed_sessions acc) \<and>
     sa_retained_payload_bytes acc = payload_total sz (sa_closed_sessions acc)"

definition within_limits :: "SnapshotAccumulatorLimits \<Rightarrow> nat \<Rightarrow> ClosedSessionCredits list \<Rightarrow> bool" where
  "within_limits limits sz xs \<longleftrightarrow> length xs \<le> sl_max_retained_sessions limits \<and>
     count_total xs \<le> sl_max_retained_bucket_credits limits \<and>
     payload_total sz xs \<le> sl_max_retained_payload_bytes limits"

definition usable_limits :: "SnapshotAccumulatorLimits \<Rightarrow> bool" where
  "usable_limits limits \<longleftrightarrow>
     0 < sl_max_retained_sessions limits \<and> sl_max_retained_sessions limits \<le> usize_max \<and>
     0 < sl_max_retained_bucket_credits limits \<and> sl_max_retained_bucket_credits limits \<le> usize_max \<and>
     0 < sl_max_retained_payload_bytes limits \<and> sl_max_retained_payload_bytes limits \<le> usize_max"

definition minimal_suffix :: "nat \<Rightarrow> ClosedSessionCredits list \<Rightarrow> bool" where
  "minimal_suffix window xs \<longleftrightarrow> window_total (tl xs) < window"

definition acc_inv :: "nat \<Rightarrow> SnapshotAccumulator \<Rightarrow> bool" where
  "acc_inv sz acc \<longleftrightarrow>
     0 < sa_snapshot_step_work acc \<and> sa_snapshot_step_work acc < 2 ^ 512 \<and>
     0 < sa_pplns_window_work acc \<and> sa_pplns_window_work acc < 2 ^ 512 \<and>
     usable_limits (sa_limits acc) \<and> counters_exact sz acc \<and>
     within_limits (sa_limits acc) sz (sa_closed_sessions acc) \<and>
     (\<forall>s \<in> set (sa_closed_sessions acc). 0 < session_work s) \<and>
     minimal_suffix (sa_pplns_window_work acc) (sa_closed_sessions acc) \<and>
     sa_new_work_since_snapshot acc < sa_snapshot_step_work acc \<and>
     (sa_closed_sessions acc = [] \<longrightarrow> sa_new_work_since_snapshot acc = 0)"

lemma ensure_retention_limits_iff [res_simps]:
  "ensure_retention_limits limits n c b = Inr u \<longleftrightarrow> n \<le> sl_max_retained_sessions limits \<and>
     c \<le> sl_max_retained_bucket_credits limits \<and> b \<le> sl_max_retained_payload_bytes limits"
  by (auto simp: ensure_retention_limits_def)

lemma retention_projection_exact:
  assumes "counters_exact sz acc" and "0 < sa_pplns_window_work acc"
    and "retention_projection sz acc s (session_work s) = Some (Inr p)"
  obtains k where "k \<le> length (sa_closed_sessions acc)"
    "p = exact_projection sz k (drop k (sa_closed_sessions acc) @ [s])"
    "minimal_suffix (sa_pplns_window_work acc) (drop k (sa_closed_sessions acc) @ [s])"
    "0 < k \<longrightarrow> sa_pplns_window_work acc \<le> window_total (drop k (sa_closed_sessions acc) @ [s])"
proof -
  have "project_pruning sz (sa_pplns_window_work acc)
      (exact_projection sz 0 (sa_closed_sessions acc @ [s])) (sa_closed_sessions acc) = Some (Inr p)"
    using assms(1,3)
    by (auto simp: retention_projection_def res_simps exact_projection_def counters_exact_def)
  from project_pruning_exact [OF this] obtain k where k: "k \<le> length (sa_closed_sessions acc)"
    "p = exact_projection sz (0 + k) (drop k (sa_closed_sessions acc) @ [s])"
    "k < length (sa_closed_sessions acc) \<longrightarrow>
      window_total (drop (Suc k) (sa_closed_sessions acc) @ [s]) < sa_pplns_window_work acc"
    "0 < k \<longrightarrow> sa_pplns_window_work acc \<le> window_total (drop k (sa_closed_sessions acc) @ [s])" by blast
  have "minimal_suffix (sa_pplns_window_work acc) (drop k (sa_closed_sessions acc) @ [s])"
  proof (cases "k < length (sa_closed_sessions acc)")
    case True
    then have "tl (drop k (sa_closed_sessions acc) @ [s]) = drop (Suc k) (sa_closed_sessions acc) @ [s]"
      by (simp add: drop_Suc tl_drop)
    with k True show ?thesis by (simp add: minimal_suffix_def)
  next
    case False
    with k(1) assms(2) show ?thesis by (simp add: minimal_suffix_def)
  qed
  with k that show ?thesis by simp
qed

text \<open>What a successful step did: the retained sessions, and the snapshot if one was due.\<close>

lemma add_closed_session_cases:
  assumes "counters_exact sz acc" and "0 < sa_pplns_window_work acc"
    and "add_closed_session H sz acc s signers = Some (Inr (acc', snapshot))"
  obtains k where "0 < session_work s" "k \<le> length (sa_closed_sessions acc)"
    "sa_closed_sessions acc' = drop k (sa_closed_sessions acc) @ [s]"
    "minimal_suffix (sa_pplns_window_work acc) (sa_closed_sessions acc')"
    "0 < k \<longrightarrow> sa_pplns_window_work acc \<le> window_total (sa_closed_sessions acc')"
    "counters_exact sz acc'" "within_limits (sa_limits acc) sz (sa_closed_sessions acc')"
    "sa_limits acc' = sa_limits acc" "sa_snapshot_step_work acc' = sa_snapshot_step_work acc"
    "sa_pplns_window_work acc' = sa_pplns_window_work acc" "sa_network_id acc' = sa_network_id acc"
    "sa_settlement_committee_id acc' = sa_settlement_committee_id acc"
    "case snapshot of
       None \<Rightarrow> sa_new_work_since_snapshot acc + session_work s < sa_snapshot_step_work acc \<and>
         sa_new_work_since_snapshot acc' = sa_new_work_since_snapshot acc + session_work s \<and>
         sa_next_sequence acc' = sa_next_sequence acc \<and>
         sa_previous_snapshot_id acc' = sa_previous_snapshot_id acc
     | Some snap \<Rightarrow> sa_snapshot_step_work acc \<le> sa_new_work_since_snapshot acc + session_work s \<and>
         checked_add (sa_next_sequence acc) 1 = Some (sa_next_sequence acc') \<and>
         build_snapshot H acc (sa_closed_sessions acc @ [s]) signers = Inr snap \<and>
         sa_new_work_since_snapshot acc' = 0 \<and>
         sa_previous_snapshot_id acc' = object_id_PayoutSnapshotV2 H snap"
proof -
  from assms(3) obtain p where work: "0 < session_work s"
    and p: "retention_projection sz acc s (session_work s) = Some (Inr p)"
    and limits: "ensure_projection_within_limits acc p = Inr ()"
    by (auto simp: add_closed_session_def compact_session_allocations_def Let_def res_simps split: if_splits)
  from retention_projection_exact [OF assms(1,2) p] obtain k where
    k: "k \<le> length (sa_closed_sessions acc)" "p = exact_projection sz k (drop k (sa_closed_sessions acc) @ [s])"
    "minimal_suffix (sa_pplns_window_work acc) (drop k (sa_closed_sessions acc) @ [s])"
    "0 < k \<longrightarrow> sa_pplns_window_work acc \<le> window_total (drop k (sa_closed_sessions acc) @ [s])" .
  have "drop k (sa_closed_sessions acc @ [s]) = drop k (sa_closed_sessions acc) @ [s]" using k(1) by simp
  then show ?thesis
    using assms(3) work p limits k
    by (intro that [of k])
      (auto simp: add_closed_session_def compact_session_allocations_def Let_def res_simps counters_exact_def
        within_limits_def exact_projection_def ensure_projection_within_limits_def checked_add_def
        split: option.splits if_splits)
qed

lemma add_closed_session_inv:
  assumes "acc_inv sz acc" and "add_closed_session H sz acc s signers = Some (Inr (acc', snapshot))"
  shows "acc_inv sz acc'"
proof -
  have "counters_exact sz acc" "0 < sa_pplns_window_work acc" using assms(1) by (simp_all add: acc_inv_def)
  then show ?thesis
    by (rule add_closed_session_cases [OF _ _ assms(2)])
      (use assms(1) in \<open>auto simp: acc_inv_def dest: in_set_dropD split: option.splits\<close>)
qed

text \<open>With exact counters closing a session never panics.\<close>

lemma retention_projection_no_panic:
  assumes "counters_exact sz acc"
  shows "retention_projection sz acc s (session_work s) \<noteq> None"
  using assms project_pruning_no_panic [where sz = sz and olds = "sa_closed_sessions acc" and rest = "[s]" and k = 0]
  unfolding retention_projection_def
  by (auto simp: res_simps counters_exact_def exact_projection_def intro!: panic_bind_Some)

lemma add_closed_session_no_panic:
  assumes "acc_inv sz acc"
  shows "add_closed_session H sz acc s signers \<noteq> None"
proof (cases "retention_projection sz acc s (session_work s)")
  case None
  then show ?thesis using retention_projection_no_panic [of sz acc s] assms by (simp add: acc_inv_def)
next
  case (Some r)
  have "rp_prune_count p \<le> length (sa_closed_sessions acc)" if "r = Inr p" for p
    by (rule retention_projection_exact [of sz acc s p])
      (use assms Some that in \<open>auto simp: acc_inv_def exact_projection_def\<close>)
  then show ?thesis
    unfolding add_closed_session_def Let_def compact_session_allocations_def
    by (auto simp: Some intro!: panic_bind_Some)
qed

lemma new_with_limits_inv:
  assumes "length step = 64" "length window = 64" "usable_limits limits"
    and "new_with_limits network sequence prev step window committee limits = Inr acc"
  shows "acc_inv sz acc"
proof -
  have "from_be step < 2 ^ 512" "from_be window < 2 ^ 512"
    using from_be_less [of step] from_be_less [of window] assms(1,2) by simp_all
  then show ?thesis using assms(3,4)
    by (auto simp: new_with_limits_def Let_def acc_inv_def counters_exact_def within_limits_def
        minimal_suffix_def split: if_splits)
qed

section \<open>Checkpoints\<close>

lemma restore_sessions:
  assumes "counters_exact sz acc" and "\<forall>s \<in> set xs. 0 < session_work s"
    and "count_total (sa_closed_sessions acc @ xs) \<le> usize_max"
    and "payload_total sz (sa_closed_sessions acc @ xs) \<le> usize_max"
  shows "res_foldM (restore_session sz) acc xs = Inr (acc\<lparr>
      sa_closed_sessions := sa_closed_sessions acc @ xs,
      sa_retained_work := window_total (sa_closed_sessions acc @ xs),
      sa_retained_bucket_credits := count_total (sa_closed_sessions acc @ xs),
      sa_retained_payload_bytes := payload_total sz (sa_closed_sessions acc @ xs)\<rparr>)"
  using assms
proof (induction xs arbitrary: acc)
  case Nil
  then show ?case by (simp add: counters_exact_def)
next
  case (Cons x xs)
  let ?ys = "sa_closed_sessions acc @ [x]"
  let ?acc = "acc\<lparr>sa_closed_sessions := ?ys, sa_retained_work := window_total ?ys,
      sa_retained_bucket_credits := count_total ?ys, sa_retained_payload_bytes := payload_total sz ?ys\<rparr>"
  have "restore_session sz acc x = Inr ?acc"
    using Cons.prems
    by (auto simp: restore_session_def compact_session_allocations_def res_simps counters_exact_def Let_def)
  then show ?case using Cons.IH [of ?acc] Cons.prems by (simp add: counters_exact_def)
qed

lemma prune_sessions_minimal:
  assumes "sa_retained_work acc = window_total xs" and "minimal_suffix (sa_pplns_window_work acc) xs"
  shows "prune_sessions sz xs acc = Some (acc\<lparr>sa_closed_sessions := xs\<rparr>)"
  using assms by (cases xs) (auto simp: minimal_suffix_def)

lemma checkpoint_restores:
  assumes "acc_inv sz acc"
  shows "\<exists>ck. checkpoint acc = Inr ck \<and> from_checkpoint sz ck (sa_limits acc) = Some (Inr acc)"
proof -
  let ?new = "sa_new_work_since_snapshot acc" and ?xs = "sa_closed_sessions acc"
  have bounds: "0 < sa_snapshot_step_work acc" "sa_snapshot_step_work acc < 2 ^ 512"
    "0 < sa_pplns_window_work acc" "sa_pplns_window_work acc < 2 ^ 512" "?new < sa_snapshot_step_work acc"
    using assms by (simp_all add: acc_inv_def)
  define ck where "ck = \<lparr>ck_network_id = sa_network_id acc, ck_next_sequence = sa_next_sequence acc,
      ck_previous_snapshot_id = sa_previous_snapshot_id acc,
      ck_snapshot_step_work = be_pad 64 (sa_snapshot_step_work acc),
      ck_pplns_window_work = be_pad 64 (sa_pplns_window_work acc),
      ck_settlement_committee_id = sa_settlement_committee_id acc,
      ck_closed_sessions = ?xs, ck_new_work_since_snapshot = be_pad 64 ?new\<rparr>"
  have words: "from_be (be_pad 64 (sa_snapshot_step_work acc)) = sa_snapshot_step_work acc"
    "from_be (be_pad 64 (sa_pplns_window_work acc)) = sa_pplns_window_work acc"
    "from_be (be_pad 64 ?new) = ?new"
    using bounds by (simp_all add: from_be_be_pad)
  have saved: "checkpoint acc = Inr ck"
    using bounds by (simp add: checkpoint_def big_to_u512_eq ck_def)
  define start where "start = acc\<lparr>sa_closed_sessions := [], sa_new_work_since_snapshot := 0, sa_retained_work := 0,
      sa_retained_bucket_credits := 0, sa_retained_payload_bytes := 0\<rparr>"
  have new: "new_with_limits (ck_network_id ck) (ck_next_sequence ck) (ck_previous_snapshot_id ck)
      (ck_snapshot_step_work ck) (ck_pplns_window_work ck) (ck_settlement_committee_id ck) (sa_limits acc) = Inr start"
    using bounds assms
    by (cases acc) (simp add: new_with_limits_def ck_def Let_def start_def words acc_inv_def usable_limits_def from_be_be_pad)
  have "res_foldM (restore_session sz) start ?xs = Inr (acc\<lparr>sa_new_work_since_snapshot := 0\<rparr>)"
    using restore_sessions [of sz start ?xs] assms
    by (cases acc) (auto simp: start_def counters_exact_def acc_inv_def within_limits_def usable_limits_def)
  moreover have "prune_retained_prefix sz (acc\<lparr>sa_new_work_since_snapshot := 0\<rparr>) =
      Some (acc\<lparr>sa_new_work_since_snapshot := 0\<rparr>)"
    using prune_sessions_minimal [of "acc\<lparr>sa_new_work_since_snapshot := 0\<rparr>" ?xs] assms
    by (cases acc) (simp add: prune_retained_prefix_def acc_inv_def counters_exact_def)
  moreover have "ensure_limits (acc\<lparr>sa_new_work_since_snapshot := 0\<rparr>) = Inr ()"
    using assms by (simp add: ensure_limits_def ensure_retention_limits_iff acc_inv_def counters_exact_def within_limits_def)
  moreover have "\<not> (sa_snapshot_step_work start \<le> ?new \<or> ?xs = [] \<and> ?new \<noteq> 0)"
    using assms by (auto simp: start_def acc_inv_def)
  ultimately have "from_checkpoint sz ck (sa_limits acc) = Some (Inr acc)"
    unfolding from_checkpoint_def new by (simp add: Let_def ck_def words)
  with saved show ?thesis by blast
qed

text \<open>A restored state satisfies the invariant, and restoring never panics.\<close>

lemma restore_session_exact:
  assumes "counters_exact sz acc" and "restore_session sz acc x = Inr acc'"
  shows "acc' = acc\<lparr>sa_closed_sessions := sa_closed_sessions acc @ [x],
      sa_retained_work := window_total (sa_closed_sessions acc @ [x]),
      sa_retained_bucket_credits := count_total (sa_closed_sessions acc @ [x]),
      sa_retained_payload_bytes := payload_total sz (sa_closed_sessions acc @ [x])\<rparr> \<and>
    0 < session_work x \<and> credit_count x \<le> usize_max \<and> payload sz x \<le> usize_max"
  using assms
  by (auto simp: restore_session_def compact_session_allocations_def res_simps counters_exact_def Let_def)

lemma restore_sessions_exact:
  assumes "counters_exact sz acc" and "res_foldM (restore_session sz) acc xs = Inr acc'"
  shows "acc' = acc\<lparr>sa_closed_sessions := sa_closed_sessions acc @ xs,
      sa_retained_work := window_total (sa_closed_sessions acc @ xs),
      sa_retained_bucket_credits := count_total (sa_closed_sessions acc @ xs),
      sa_retained_payload_bytes := payload_total sz (sa_closed_sessions acc @ xs)\<rparr> \<and>
    (\<forall>x \<in> set xs. 0 < session_work x \<and> credit_count x \<le> usize_max \<and> payload sz x \<le> usize_max)"
  using assms
proof (induction xs arbitrary: acc)
  case Nil
  then show ?case by (simp add: counters_exact_def)
next
  case (Cons x xs)
  then obtain mid where mid: "restore_session sz acc x = Inr mid"
    and rest: "res_foldM (restore_session sz) mid xs = Inr acc'" by (auto simp: res_simps)
  note step = restore_session_exact [OF Cons.prems(1) mid]
  have "counters_exact sz mid" using step by (simp add: counters_exact_def)
  from Cons.IH [OF this rest] step show ?case by simp
qed

lemma prune_sessions_exact:
  assumes "counters_exact sz (acc\<lparr>sa_closed_sessions := xs\<rparr>)" and "0 < sa_pplns_window_work acc"
    and "\<forall>x \<in> set xs. credit_count x \<le> usize_max \<and> payload sz x \<le> usize_max"
  shows "\<exists>ys zs. xs = ys @ zs \<and> minimal_suffix (sa_pplns_window_work acc) zs \<and>
    (xs \<noteq> [] \<longrightarrow> zs \<noteq> []) \<and>
    prune_sessions sz xs acc = Some (acc\<lparr>sa_closed_sessions := zs, sa_retained_work := window_total zs,
      sa_retained_bucket_credits := count_total zs, sa_retained_payload_bytes := payload_total sz zs\<rparr>)"
  using assms
proof (induction xs arbitrary: acc)
  case Nil
  then show ?case by (auto simp: counters_exact_def minimal_suffix_def)
next
  case (Cons x xs)
  show ?case
  proof (cases "window_total xs < sa_pplns_window_work acc")
    case True
    with Cons.prems show ?thesis
      by (intro exI [of _ "[]"] exI [of _ "x # xs"]) (simp add: counters_exact_def minimal_suffix_def)
  next
    case False
    have pay: "session_payload_bytes sz x = Inr (payload sz x)"
      using Cons.prems(3) by (simp add: session_payload_bytes_iff)
    let ?acc = "acc\<lparr>sa_retained_work := window_total xs, sa_retained_bucket_credits := count_total xs,
        sa_retained_payload_bytes := payload_total sz xs\<rparr>"
    have "prune_sessions sz (x # xs) acc = prune_sessions sz xs ?acc"
      using False Cons.prems(1,3) by (simp add: counters_exact_def pay credit_count_def)
    moreover have "xs \<noteq> []" using False Cons.prems(2) by auto
    moreover obtain ys zs where "xs = ys @ zs" "minimal_suffix (sa_pplns_window_work acc) zs"
      "xs \<noteq> [] \<longrightarrow> zs \<noteq> []"
      "prune_sessions sz xs ?acc = Some (?acc\<lparr>sa_closed_sessions := zs, sa_retained_work := window_total zs,
        sa_retained_bucket_credits := count_total zs, sa_retained_payload_bytes := payload_total sz zs\<rparr>)"
      using Cons.IH [of ?acc] Cons.prems by (auto simp: counters_exact_def)
    ultimately show ?thesis by (intro exI [of _ "x # ys"] exI [of _ zs]) simp
  qed
qed

lemma from_checkpoint_inv:
  assumes "length (ck_snapshot_step_work ck) = 64" "length (ck_pplns_window_work ck) = 64" "usable_limits limits"
  shows "case from_checkpoint sz ck limits of None \<Rightarrow> False | Some (Inl _) \<Rightarrow> True
    | Some (Inr acc) \<Rightarrow> acc_inv sz acc \<and> (\<exists>pruned. ck_closed_sessions ck = pruned @ sa_closed_sessions acc)"
proof -
  let ?new = "new_with_limits (ck_network_id ck) (ck_next_sequence ck) (ck_previous_snapshot_id ck)
      (ck_snapshot_step_work ck) (ck_pplns_window_work ck) (ck_settlement_committee_id ck) limits"
  let ?bad = "\<lambda>start. sa_snapshot_step_work start \<le> from_be (ck_new_work_since_snapshot ck) \<or>
      ck_closed_sessions ck = [] \<and> from_be (ck_new_work_since_snapshot ck) \<noteq> 0"
  consider e where "?new = Inl e" | start where "?new = Inr start" "?bad start"
    | start e where "?new = Inr start" "\<not> ?bad start" "res_foldM (restore_session sz) start (ck_closed_sessions ck) = Inl e"
    | start full where "?new = Inr start" "\<not> ?bad start" "res_foldM (restore_session sz) start (ck_closed_sessions ck) = Inr full"
    by (cases ?new; cases "?bad (projr ?new)"; cases "res_foldM (restore_session sz) (projr ?new) (ck_closed_sessions ck)") auto
  then show ?thesis
  proof cases
    case (4 start full)
    have inv: "acc_inv sz start" using new_with_limits_inv [OF assms 4(1)] .
    have empty_start: "sa_closed_sessions start = []" "sa_limits start = limits"
      using 4(1) by (auto simp: new_with_limits_def Let_def split: if_splits)
    have full: "full = start\<lparr>sa_closed_sessions := ck_closed_sessions ck,
        sa_retained_work := window_total (ck_closed_sessions ck),
        sa_retained_bucket_credits := count_total (ck_closed_sessions ck),
        sa_retained_payload_bytes := payload_total sz (ck_closed_sessions ck)\<rparr>"
      and ok: "\<forall>x \<in> set (ck_closed_sessions ck). 0 < session_work x \<and> credit_count x \<le> usize_max \<and> payload sz x \<le> usize_max"
      using restore_sessions_exact [OF _ 4(3)] inv empty_start by (auto simp: acc_inv_def)
    obtain ys zs where zs: "ck_closed_sessions ck = ys @ zs" "minimal_suffix (sa_pplns_window_work start) zs"
      "ck_closed_sessions ck \<noteq> [] \<longrightarrow> zs \<noteq> []"
      and pruned: "prune_retained_prefix sz full = Some (start\<lparr>sa_closed_sessions := zs, sa_retained_work := window_total zs,
        sa_retained_bucket_credits := count_total zs, sa_retained_payload_bytes := payload_total sz zs\<rparr>)"
      using prune_sessions_exact [where sz = sz and acc = full and xs = "ck_closed_sessions ck"] ok inv full
      by (auto simp: prune_retained_prefix_def counters_exact_def acc_inv_def)
    show ?thesis
      using 4 pruned inv zs ok
      by (auto simp: from_checkpoint_def Let_def ensure_limits_def res_simps acc_inv_def counters_exact_def
          within_limits_def split: sum.splits)
  qed (auto simp: from_checkpoint_def Let_def split: sum.splits)
qed

section \<open>Pruning loses nothing\<close>

text \<open>The specification keeps every session ever closed and has no limits.\<close>

definition spec_add ::
  "(bytes \<Rightarrow> hash256) \<Rightarrow> SnapshotAccumulator \<Rightarrow> ClosedSessionCredits \<Rightarrow> SignatureSet \<Rightarrow>
   (SettlementError + SnapshotAccumulator \<times> PayoutSnapshotV2 option) option" where
  "spec_add H acc s signers = Some
     (let history = sa_closed_sessions acc @ [s];
          new_work = sa_new_work_since_snapshot acc + session_work s
      in if session_work s = 0 then Inl EmptySessionWork
         else if new_work < sa_snapshot_step_work acc
         then Inr (acc\<lparr>sa_closed_sessions := history, sa_new_work_since_snapshot := new_work\<rparr>, None)
         else res_bind (ok_or ArithmeticOverflow (checked_add (sa_next_sequence acc) 1)) (\<lambda>sequence.
           res_bind (build_snapshot H acc history signers) (\<lambda>snap.
           Inr (acc\<lparr>sa_closed_sessions := history, sa_new_work_since_snapshot := 0,
             sa_next_sequence := sequence, sa_previous_snapshot_id := object_id_PayoutSnapshotV2 H snap\<rparr>,
             Some snap))))"

fun run_sessions ::
  "('s \<Rightarrow> ClosedSessionCredits \<Rightarrow> SignatureSet \<Rightarrow> (SettlementError + 's \<times> PayoutSnapshotV2 option) option) \<Rightarrow> 's \<Rightarrow>
   (ClosedSessionCredits \<times> SignatureSet) list \<Rightarrow> (SettlementError + 's \<times> PayoutSnapshotV2 list) option" where
  "run_sessions add acc [] = Some (Inr (acc, []))"
| "run_sessions add acc ((s, signers) # sessions) =
     panic_bind (add acc s signers) (\<lambda>(acc, snapshot).
     panic_bind (run_sessions add acc sessions) (\<lambda>(acc, snapshots).
     Some (Inr (acc, (case snapshot of None \<Rightarrow> snapshots | Some snap \<Rightarrow> snap # snapshots)))))"

definition same_history :: "SnapshotAccumulator \<Rightarrow> SnapshotAccumulator \<Rightarrow> bool" where
  "same_history acc spec \<longleftrightarrow>
     sa_network_id spec = sa_network_id acc \<and> sa_next_sequence spec = sa_next_sequence acc \<and>
     sa_previous_snapshot_id spec = sa_previous_snapshot_id acc \<and>
     sa_snapshot_step_work spec = sa_snapshot_step_work acc \<and>
     sa_pplns_window_work spec = sa_pplns_window_work acc \<and>
     sa_settlement_committee_id spec = sa_settlement_committee_id acc \<and>
     sa_new_work_since_snapshot spec = sa_new_work_since_snapshot acc \<and>
     (\<exists>pruned. sa_closed_sessions spec = pruned @ sa_closed_sessions acc \<and>
       (pruned = [] \<or> sa_pplns_window_work acc \<le> window_total (sa_closed_sessions acc)))"

lemma select_recent_append:
  "w < window \<Longrightarrow> window \<le> w + window_total ys \<Longrightarrow>
    select_recent window w (ys @ zs) = select_recent window w ys"
  by (induction ys arbitrary: w) (auto simp: Let_def not_le add.assoc)

lemma window_total_rev [simp]: "window_total (rev xs) = window_total xs"
  by (induction xs) simp_all

lemma build_snapshot_same:
  assumes "same_history acc spec" and "0 < sa_pplns_window_work acc"
  shows "build_snapshot H spec (sa_closed_sessions spec @ [s]) signers =
    build_snapshot H acc (sa_closed_sessions acc @ [s]) signers"
proof -
  obtain pruned where h: "sa_closed_sessions spec = pruned @ sa_closed_sessions acc"
    and p: "pruned = [] \<or> sa_pplns_window_work acc \<le> window_total (sa_closed_sessions acc)"
    using assms(1) by (auto simp: same_history_def)
  have "select_recent (sa_pplns_window_work acc) 0 (rev (sa_closed_sessions spec @ [s])) =
      select_recent (sa_pplns_window_work acc) 0 (rev (sa_closed_sessions acc @ [s]))"
    using p assms(2)
      select_recent_append [of 0 "sa_pplns_window_work acc" "rev (sa_closed_sessions acc @ [s])" "rev pruned"]
    by (auto simp: h simp del: select_recent.simps)
  then show ?thesis using assms(1) by (simp add: build_snapshot_def same_history_def)
qed

lemma add_closed_session_refines:
  assumes "acc_inv sz acc" and "same_history acc spec"
    and "add_closed_session H sz acc s signers = Some (Inr (acc', snapshot))"
  obtains spec' where "spec_add H spec s signers = Some (Inr (spec', snapshot))" "same_history acc' spec'"
proof -
  have "counters_exact sz acc" and window: "0 < sa_pplns_window_work acc" using assms(1) by (simp_all add: acc_inv_def)
  from this(1) window show ?thesis
  proof (rule add_closed_session_cases [OF _ _ assms(3)])
    fix k
    assume k: "0 < session_work s" "k \<le> length (sa_closed_sessions acc)"
      "sa_closed_sessions acc' = drop k (sa_closed_sessions acc) @ [s]"
      "0 < k \<longrightarrow> sa_pplns_window_work acc \<le> window_total (sa_closed_sessions acc')"
      "sa_snapshot_step_work acc' = sa_snapshot_step_work acc"
      "sa_pplns_window_work acc' = sa_pplns_window_work acc" "sa_network_id acc' = sa_network_id acc"
      "sa_settlement_committee_id acc' = sa_settlement_committee_id acc"
      and snapshot: "case snapshot of
       None \<Rightarrow> sa_new_work_since_snapshot acc + session_work s < sa_snapshot_step_work acc \<and>
         sa_new_work_since_snapshot acc' = sa_new_work_since_snapshot acc + session_work s \<and>
         sa_next_sequence acc' = sa_next_sequence acc \<and>
         sa_previous_snapshot_id acc' = sa_previous_snapshot_id acc
     | Some snap \<Rightarrow> sa_snapshot_step_work acc \<le> sa_new_work_since_snapshot acc + session_work s \<and>
         checked_add (sa_next_sequence acc) 1 = Some (sa_next_sequence acc') \<and>
         build_snapshot H acc (sa_closed_sessions acc @ [s]) signers = Inr snap \<and>
         sa_new_work_since_snapshot acc' = 0 \<and>
         sa_previous_snapshot_id acc' = object_id_PayoutSnapshotV2 H snap"
    define spec' where "spec' = spec\<lparr>sa_closed_sessions := sa_closed_sessions spec @ [s],
      sa_new_work_since_snapshot := sa_new_work_since_snapshot acc',
      sa_next_sequence := sa_next_sequence acc', sa_previous_snapshot_id := sa_previous_snapshot_id acc'\<rparr>"
    obtain pruned where h: "sa_closed_sessions spec = pruned @ sa_closed_sessions acc"
      and p: "pruned = [] \<or> sa_pplns_window_work acc \<le> window_total (sa_closed_sessions acc)"
      using assms(2) by (auto simp: same_history_def)
    have "sa_closed_sessions spec' = (pruned @ take k (sa_closed_sessions acc)) @ sa_closed_sessions acc'"
      by (simp add: spec'_def h k)
    moreover have "pruned @ take k (sa_closed_sessions acc) = [] \<or>
        sa_pplns_window_work acc' \<le> window_total (sa_closed_sessions acc')"
      using p k by (cases "k = 0") auto
    ultimately have ex: "\<exists>pruned. sa_closed_sessions spec' = pruned @ sa_closed_sessions acc' \<and>
        (pruned = [] \<or> sa_pplns_window_work acc' \<le> window_total (sa_closed_sessions acc'))" by blast
    have "sa_network_id spec' = sa_network_id acc'" "sa_next_sequence spec' = sa_next_sequence acc'"
      "sa_previous_snapshot_id spec' = sa_previous_snapshot_id acc'"
      "sa_snapshot_step_work spec' = sa_snapshot_step_work acc'"
      "sa_pplns_window_work spec' = sa_pplns_window_work acc'"
      "sa_settlement_committee_id spec' = sa_settlement_committee_id acc'"
      "sa_new_work_since_snapshot spec' = sa_new_work_since_snapshot acc'"
      using assms(2) k by (simp_all add: spec'_def same_history_def)
    with ex have "same_history acc' spec'" unfolding same_history_def by simp
    moreover have "spec_add H spec s signers = Some (Inr (spec', snapshot))"
      using assms(2) snapshot k(1) build_snapshot_same [OF assms(2) window, of H s signers]
      by (cases snapshot) (auto simp: spec_add_def Let_def spec'_def same_history_def)
    ultimately show ?thesis using that by blast
  qed
qed

lemma run_sessions_refines:
  assumes "acc_inv sz acc" and "same_history acc spec"
    and "run_sessions (add_closed_session H sz) acc sessions = Some (Inr (acc', snapshots))"
  shows "\<exists>spec'. run_sessions (spec_add H) spec sessions = Some (Inr (spec', snapshots)) \<and> same_history acc' spec' \<and> acc_inv sz acc'"
  using assms
proof (induction sessions arbitrary: acc spec snapshots)
  case (Cons x sessions)
  obtain s signers where x: "x = (s, signers)" by force
  from Cons.prems(3) obtain mid snapshot snaps where
    add: "add_closed_session H sz acc s signers = Some (Inr (mid, snapshot))"
    and run: "run_sessions (add_closed_session H sz) mid sessions = Some (Inr (acc', snaps))"
    and snapshots: "snapshots = (case snapshot of None \<Rightarrow> snaps | Some snap \<Rightarrow> snap # snaps)"
    by (auto simp: x res_simps)
  obtain spec' where spec': "spec_add H spec s signers = Some (Inr (spec', snapshot))" "same_history mid spec'"
    using add_closed_session_refines [OF Cons.prems(1,2) add] .
  from Cons.IH [OF add_closed_session_inv [OF Cons.prems(1) add] spec'(2) run] spec'(1)
  show ?case by (auto simp: x snapshots)
qed auto

lemma run_sessions_no_panic:
  "acc_inv sz acc \<Longrightarrow> run_sessions (add_closed_session H sz) acc sessions \<noteq> None"
proof (induction sessions arbitrary: acc)
  case (Cons x sessions)
  then show ?case
    by (cases x) (auto simp: add_closed_session_no_panic [simplified] intro!: panic_bind_Some dest: add_closed_session_inv)
qed simp

section \<open>Properties of the accumulator\<close>

text \<open>
  C5: pruning loses nothing. Whatever sessions are closed after an accumulator was created, if every step
  succeeds then the snapshots are exactly those of the specification that keeps the whole history: no
  pruned session would have been part of a later window.
\<close>

theorem pruning_preserves_snapshots:
  assumes "new_with_limits network sequence prev step window committee limits = Inr acc"
    and "length step = 64" "length window = 64" "usable_limits limits"
    and "run_sessions (add_closed_session H sz) acc sessions = Some (Inr (acc', snapshots))"
  shows "\<exists>spec'. run_sessions (spec_add H) acc sessions = Some (Inr (spec', snapshots)) \<and>
    sa_next_sequence spec' = sa_next_sequence acc' \<and> sa_previous_snapshot_id spec' = sa_previous_snapshot_id acc'"
proof -
  have "same_history acc acc" by (simp add: same_history_def)
  from run_sessions_refines [OF new_with_limits_inv [OF assms(2-4,1)] this assms(5)]
  show ?thesis by (auto simp: same_history_def)
qed

text \<open>
  C30: memory stays bounded and the counters are exact. After any run the retained counters equal the sums
  over the retained sessions, all three limits hold, every retained session has work, the retained
  suffix is as short as the window allows, and less than one step of work waits for its snapshot. None of
  the subtractions that maintain the counters goes below zero: closing a further session never panics.
\<close>

theorem accumulator_bounded:
  assumes "new_with_limits network sequence prev step window committee limits = Inr acc"
    and "length step = 64" "length window = 64" "usable_limits limits"
    and "run_sessions (add_closed_session H sz) acc sessions = Some (Inr (acc', snapshots))"
  shows "sa_retained_work acc' = window_total (sa_closed_sessions acc') \<and>
    SnapshotAccumulator_stats acc' = \<lparr>st_retained_sessions = length (sa_closed_sessions acc'),
      st_retained_bucket_credits = count_total (sa_closed_sessions acc'),
      st_retained_payload_bytes = payload_total sz (sa_closed_sessions acc')\<rparr> \<and>
    within_limits (SnapshotAccumulator_limits acc') sz (sa_closed_sessions acc') \<and>
    (\<forall>s \<in> set (sa_closed_sessions acc'). 0 < session_work s) \<and>
    window_total (tl (sa_closed_sessions acc')) < sa_pplns_window_work acc' \<and>
    sa_new_work_since_snapshot acc' < sa_snapshot_step_work acc' \<and>
    (\<forall>s signers. add_closed_session H sz acc' s signers \<noteq> None)"
proof -
  have "same_history acc acc" by (simp add: same_history_def)
  from run_sessions_refines [OF new_with_limits_inv [OF assms(2-4,1)] this assms(5)]
  have "acc_inv sz acc'" by blast
  moreover from this have "\<forall>s signers. add_closed_session H sz acc' s signers \<noteq> None"
    by (intro allI) (rule add_closed_session_no_panic)
  ultimately show ?thesis
    by (auto simp: acc_inv_def counters_exact_def SnapshotAccumulator_stats_def SnapshotAccumulator_limits_def
        minimal_suffix_def)
qed

text \<open>
  C29: a checkpoint restores the accumulator. After any run a checkpoint can be taken, and restoring it under
  the same limits gives back exactly the same accumulator.
\<close>

theorem checkpoint_round_trip:
  assumes "new_with_limits network sequence prev step window committee limits = Inr acc"
    and "length step = 64" "length window = 64" "usable_limits limits"
    and "run_sessions (add_closed_session H sz) acc sessions = Some (Inr (acc', snapshots))"
  shows "\<exists>ck. checkpoint acc' = Inr ck \<and> from_checkpoint sz ck (SnapshotAccumulator_limits acc') = Some (Inr acc')"
proof -
  have "same_history acc acc" by (simp add: same_history_def)
  from run_sessions_refines [OF new_with_limits_inv [OF assms(2-4,1)] this assms(5)]
  have "acc_inv sz acc'" by blast
  then show ?thesis unfolding SnapshotAccumulator_limits_def by (rule checkpoint_restores)
qed

text \<open>
  C34: restoring is safe. For any checkpoint whatsoever, well-formed or not, restoring never panics: no
  subtraction of the work, credit or byte counters goes below zero while the dead prefix is pruned, and the
  payload size expected there was already computed. When it succeeds the restored accumulator satisfies
  the invariant of the running ones, its sessions are a suffix of the checkpoint's, and no run of further
  sessions panics either.
\<close>

theorem from_checkpoint_well_formed:
  assumes "length (ck_snapshot_step_work ck) = 64" "length (ck_pplns_window_work ck) = 64" "usable_limits limits"
  shows "from_checkpoint sz ck limits \<noteq> None \<and>
    (\<forall>acc. from_checkpoint sz ck limits = Some (Inr acc) \<longrightarrow> acc_inv sz acc \<and>
      (\<exists>pruned. ck_closed_sessions ck = pruned @ sa_closed_sessions acc) \<and>
      (\<forall>H sessions. run_sessions (add_closed_session H sz) acc sessions \<noteq> None))"
  using from_checkpoint_inv [OF assms, of sz] run_sessions_no_panic [of sz]
  by (auto split: option.splits sum.splits)

lemma run_sessions_new_work:
  assumes "acc_inv sz acc" and "run_sessions (add_closed_session H sz) acc sessions = Some (Inr (acc', []))"
  shows "sa_new_work_since_snapshot acc' = sa_new_work_since_snapshot acc + window_total (map fst sessions) \<and>
    sa_snapshot_step_work acc' = sa_snapshot_step_work acc \<and> acc_inv sz acc'"
  using assms
proof (induction sessions arbitrary: acc)
  case (Cons x sessions)
  obtain s signers where x: "x = (s, signers)" by force
  from Cons.prems(2) obtain mid where
    add: "add_closed_session H sz acc s signers = Some (Inr (mid, None))"
    and run: "run_sessions (add_closed_session H sz) mid sessions = Some (Inr (acc', []))"
    by (auto simp: x res_simps split: option.splits)
  have "counters_exact sz acc" "0 < sa_pplns_window_work acc" using Cons.prems(1) by (simp_all add: acc_inv_def)
  then have "sa_new_work_since_snapshot mid = sa_new_work_since_snapshot acc + session_work s \<and>
      sa_snapshot_step_work mid = sa_snapshot_step_work acc"
    by (rule add_closed_session_cases [OF _ _ add]) simp
  with Cons.IH [OF add_closed_session_inv [OF Cons.prems(1) add] run] show ?case by (simp add: x)
qed simp

text \<open>
  C35: enough work always yields a snapshot. A successful run over sessions whose work, with the work already
  waiting, reaches the snapshot step has produced at least one snapshot.
\<close>

theorem enough_work_yields_snapshot:
  assumes "new_with_limits network sequence prev step window committee limits = Inr acc0"
    and "length step = 64" "length window = 64" "usable_limits limits"
    and "run_sessions (add_closed_session H sz) acc0 earlier = Some (Inr (acc, snapshots0))"
    and "run_sessions (add_closed_session H sz) acc sessions = Some (Inr (acc', snapshots))"
    and "sa_snapshot_step_work acc \<le> sa_new_work_since_snapshot acc + window_total (map fst sessions)"
  shows "snapshots \<noteq> []"
proof
  assume none: "snapshots = []"
  have "same_history acc0 acc0" by (simp add: same_history_def)
  from run_sessions_refines [OF new_with_limits_inv [OF assms(2-4,1)] this assms(5)]
  have "acc_inv sz acc" by blast
  from run_sessions_new_work [OF this assms(6) [unfolded none]] assms(7) show False
    by (auto simp: acc_inv_def)
qed

section \<open>Examples\<close>

definition example_credit :: "u8 \<Rightarrow> u8 \<Rightarrow> BucketCredit" where
  "example_credit i w = \<lparr>bk_bucket = \<lparr>pb_protocol_version = 2, pb_network_id = 0, pb_operator_pubkey = replicate 32 i,
     pb_bucket_sequence = 0, pb_hns_address_version = 0, pb_hns_address_hash = replicate 20 i,
     pb_activation_height = 0, pb_retirement_height = None, pb_signature = []\<rparr>, bk_credit = replicate 63 0 @ [w]\<rparr>"

definition example_closed :: "u8 \<Rightarrow> ClosedSessionCredits" where
  "example_closed i = \<lparr>cs_session_close_id = replicate 32 i, cs_close_anchor_height = 10,
     cs_work = [example_credit i 5], cs_service = []\<rparr>"

definition example_accumulator :: SnapshotAccumulator where
  "example_accumulator = the_Inr (new_with_limits 0 1 (replicate 32 0) (replicate 63 0 @ [8]) (replicate 63 0 @ [4])
     (replicate 32 3) SnapshotAccumulatorLimits_default)"

lemmas example_defs = example_accumulator_def new_with_limits_def Let_def the_Inr_def
  SnapshotAccumulatorLimits_default_def DEFAULT_MAX_RETAINED_SESSIONS_def
  DEFAULT_MAX_RETAINED_BUCKET_CREDITS_def DEFAULT_MAX_RETAINED_PAYLOAD_BYTES_def

lemma example_new:
  "new_with_limits 0 1 (replicate 32 0) (replicate 63 0 @ [8]) (replicate 63 0 @ [4]) (replicate 32 3)
     SnapshotAccumulatorLimits_default = Inr example_accumulator"
  by (simp add: example_defs)

lemma example_usable: "usable_limits SnapshotAccumulatorLimits_default"
  by (simp add: usable_limits_def usize_max_def example_defs)

definition example_run_result ::
  "(SettlementError + SnapshotAccumulator \<times> PayoutSnapshotV2 list) option" where
  "example_run_result = run_sessions (add_closed_session example_hash 200) example_accumulator
     [(example_closed 1, empty_ed25519), (example_closed 2, empty_ed25519)]"

lemma example_run_result: "\<exists>acc' snap. example_run_result = Some (Inr (acc', [snap])) \<and>
    sa_closed_sessions acc' = [example_closed 2] \<and> sa_next_sequence acc' = 2"
  by (simp add: example_run_result_def panicking_sub_def add_closed_session_def compact_session_allocations_def
      retention_projection_def session_bucket_credit_count_def session_payload_bytes_def usize_checked_add_def
      usize_checked_mul_def usize_max_def example_closed_def example_credit_def sum_credits_def
      ensure_projection_within_limits_def ensure_retention_limits_def example_defs
      build_snapshot_def aggregate_work_def aggregate_service_def merge_credit_def big_to_u512_eq checked_add_def)

theorem pruning_preserves_snapshots_witness:
  "\<exists>acc' spec' snap. example_run_result = Some (Inr (acc', [snap])) \<and>
    run_sessions (spec_add example_hash) example_accumulator
      [(example_closed 1, empty_ed25519), (example_closed 2, empty_ed25519)] = Some (Inr (spec', [snap]))"
proof -
  obtain acc' snap where r: "example_run_result = Some (Inr (acc', [snap]))" using example_run_result by blast
  from pruning_preserves_snapshots [OF example_new _ _ example_usable r [unfolded example_run_result_def]] r
  show ?thesis by auto
qed

theorem accumulator_bounded_witness:
  "\<exists>acc' snap. example_run_result = Some (Inr (acc', [snap])) \<and> sa_closed_sessions acc' = [example_closed 2] \<and>
    sa_retained_work acc' = window_total [example_closed 2]"
proof -
  obtain acc' snap where r: "example_run_result = Some (Inr (acc', [snap]))"
    and c: "sa_closed_sessions acc' = [example_closed 2]" using example_run_result by blast
  from accumulator_bounded [OF example_new _ _ example_usable r [unfolded example_run_result_def]] r c
  show ?thesis by auto
qed

theorem checkpoint_round_trip_witness:
  "\<exists>acc' snap ck. example_run_result = Some (Inr (acc', [snap])) \<and> checkpoint acc' = Inr ck \<and>
    from_checkpoint 200 ck (SnapshotAccumulator_limits acc') = Some (Inr acc')"
proof -
  obtain acc' snap where r: "example_run_result = Some (Inr (acc', [snap]))" using example_run_result by blast
  from checkpoint_round_trip [OF example_new _ _ example_usable r [unfolded example_run_result_def]] r
  show ?thesis by auto
qed

definition example_checkpoint :: SnapshotAccumulatorCheckpoint where
  "example_checkpoint = \<lparr>ck_network_id = 0, ck_next_sequence = 1, ck_previous_snapshot_id = replicate 32 0,
     ck_snapshot_step_work = replicate 63 0 @ [8], ck_pplns_window_work = replicate 63 0 @ [4],
     ck_settlement_committee_id = replicate 32 3, ck_closed_sessions = [example_closed 1, example_closed 2],
     ck_new_work_since_snapshot = replicate 63 0 @ [5]\<rparr>"

theorem from_checkpoint_well_formed_witness:
  "\<exists>acc. from_checkpoint 200 example_checkpoint SnapshotAccumulatorLimits_default = Some (Inr acc) \<and>
    sa_closed_sessions acc = [example_closed 2] \<and> acc_inv 200 acc"
proof -
  have "\<exists>acc. from_checkpoint 200 example_checkpoint SnapshotAccumulatorLimits_default = Some (Inr acc) \<and>
      sa_closed_sessions acc = [example_closed 2]"
    by (simp add: from_checkpoint_def example_checkpoint_def restore_session_def compact_session_allocations_def
        session_bucket_credit_count_def session_payload_bytes_def usize_checked_add_def usize_checked_mul_def
        usize_max_def example_closed_def example_credit_def sum_credits_def prune_retained_prefix_def panicking_sub_def
        ensure_limits_def ensure_retention_limits_def example_defs)
  moreover have "length (ck_snapshot_step_work example_checkpoint) = 64" "length (ck_pplns_window_work example_checkpoint) = 64"
    by (simp_all add: example_checkpoint_def)
  ultimately show ?thesis using from_checkpoint_well_formed [OF _ _ example_usable] by metis
qed

theorem enough_work_yields_snapshot_witness:
  "\<exists>acc' snaps. example_run_result = Some (Inr (acc', snaps)) \<and> snaps \<noteq> []"
proof -
  obtain acc' snap where r: "example_run_result = Some (Inr (acc', [snap]))" using example_run_result by blast
  have "sa_snapshot_step_work example_accumulator \<le> sa_new_work_since_snapshot example_accumulator +
      window_total (map fst [(example_closed 1, empty_ed25519), (example_closed 2, empty_ed25519)])"
    by (simp add: example_defs example_closed_def example_credit_def sum_credits_def)
  with enough_work_yields_snapshot [OF example_new _ _ example_usable _ r [unfolded example_run_result_def], of "[]"] r
  show ?thesis by auto
qed

end
