(* ===== verification/Settlement_Payouts.thy ===== *)
theory Settlement_Payouts
  imports Settlement_Tickets
begin

text \<open>
  What payout plans and coinbase payouts promise: a plan verifies exactly if recomputing it from its
  snapshot and entropy gives the same bytes, and the coinbase built from a plan pays every destination
  what its tickets won, to the last unit of the subsidy.
\<close>

section \<open>Merging winners by destination\<close>

definition pays :: "(hash256, PayoutOutput) btmap \<Rightarrow> hash256 \<Rightarrow> DestinationKey \<Rightarrow> bool" where
  "pays destinations winner key \<longleftrightarrow> map_option destination_key (bt_get destinations winner) = Some key"

text \<open>What the tickets of a class earn for one destination.\<close>

definition won :: "(hash256, PayoutOutput) btmap \<Rightarrow> (hash256 \<times> u64) list \<Rightarrow> DestinationKey \<Rightarrow> nat" where
  "won destinations tickets key =
     (\<Sum>(winner, amount) \<leftarrow> tickets. if pays destinations winner key then unat amount else 0)"

definition paid_to :: "PayoutOutput list \<Rightarrow> DestinationKey \<Rightarrow> nat" where
  "paid_to outs key = (\<Sum>out \<leftarrow> outs. if destination_key out = key then unat (po_value out) else 0)"

definition paid :: "PayoutOutput list \<Rightarrow> nat" where
  "paid outs = (\<Sum>out \<leftarrow> outs. unat (po_value out))"

definition fresh_destinations :: "(hash256, PayoutOutput) btmap \<Rightarrow> bool" where
  "fresh_destinations destinations \<longleftrightarrow>
     (\<forall>winner out. bt_get destinations winner = Some out \<longrightarrow> po_value out = 0)"

definition merged :: "(hash256, PayoutOutput) btmap \<Rightarrow> (hash256 \<times> u64) list \<Rightarrow>
    (DestinationKey, PayoutOutput) btmap \<Rightarrow> bool" where
  "merged destinations tickets outputs \<longleftrightarrow> bt_wf outputs \<and>
     (\<forall>(key, out) \<in> set outputs. destination_key out = key) \<and>
     (\<forall>key. paid_to (map snd outputs) key = won destinations tickets key) \<and>
     paid (map snd outputs) = (\<Sum>(_, amount) \<leftarrow> tickets. unat amount) \<and>
     (\<forall>(winner, _) \<in> set tickets. \<exists>key. pays destinations winner key \<and> bt_get outputs key \<noteq> None)"


lemma merged_Nil: "merged destinations [] []"
  by (simp add: merged_def paid_to_def paid_def won_def)

lemma paid_to_insert:
  assumes "bt_wf outputs" and "destination_key out = k" and "bt_get outputs k = prev"
    and "\<forall>o'. prev = Some o' \<longrightarrow> destination_key o' = k"
  shows "paid_to (map snd (bt_insert k out outputs)) key + (case prev of None \<Rightarrow> 0
      | Some o' \<Rightarrow> if k = key then unat (po_value o') else 0) =
    paid_to (map snd outputs) key + (if k = key then unat (po_value out) else 0)"
  using sum_bt_insert [OF assms(1), where f = "\<lambda>out. if destination_key out = key then unat (po_value out) else 0",
      of k out] assms(2-4)
  by (cases prev) (simp_all add: paid_to_def)

lemma paid_insert:
  assumes "bt_wf outputs" and "bt_get outputs k = prev"
  shows "paid (map snd (bt_insert k out outputs)) + (case prev of None \<Rightarrow> 0 | Some o' \<Rightarrow> unat (po_value o')) =
    paid (map snd outputs) + unat (po_value out)"
  using sum_bt_insert [OF assms(1), where f = "\<lambda>out. unat (po_value out)", of k out] assms(2)
  by (cases prev) (simp_all add: paid_def)

lemma combine_winner_merged:
  assumes "merged destinations tickets outputs" and "fresh_destinations destinations"
    and step: "combine_winner destinations outputs (winner, amount) = Inr outputs'"
  shows "merged destinations (tickets @ [(winner, amount)]) outputs'"
proof -
  from step obtain out v where dest: "bt_get destinations winner = Some out"
    and add: "checked_add (po_value (case bt_get outputs (destination_key out) of None \<Rightarrow> out
        | Some existing \<Rightarrow> existing)) amount = Some v"
    and out': "outputs' = bt_insert (destination_key out) ((case bt_get outputs (destination_key out) of
        None \<Rightarrow> out | Some existing \<Rightarrow> existing)\<lparr>po_value := v\<rparr>) outputs"
    by (auto simp: combine_winner_def Let_def res_simps)
  let ?k = "destination_key out"
  define prev where "prev = bt_get outputs ?k"
  define entry where "entry = (case prev of None \<Rightarrow> out | Some existing \<Rightarrow> existing)"
  have wf: "bt_wf outputs" and keys: "\<forall>(key, out) \<in> set outputs. destination_key out = key"
    using assms(1) by (simp_all add: merged_def)
  have earned: "paid_to (map snd outputs) key = won destinations tickets key" for key
    using assms(1) unfolding merged_def by blast
  have prev_key: "\<forall>o'. prev = Some o' \<longrightarrow> destination_key o' = ?k"
    using keys wf by (auto simp: prev_def bt_get_iff [symmetric])
  then have entry_key: "destination_key entry = ?k" by (simp add: entry_def split: option.splits)
  have v: "unat v = (case prev of None \<Rightarrow> 0 | Some o' \<Rightarrow> unat (po_value o')) + unat amount"
    using add assms(2) dest
    by (auto simp: checked_add_Some prev_def fresh_destinations_def split: option.splits)
  have o': "outputs' = bt_insert ?k (entry\<lparr>po_value := v\<rparr>) outputs"
    using out' by (simp add: entry_def prev_def)
  have key': "destination_key (entry\<lparr>po_value := v\<rparr>) = ?k" using entry_key by (simp add: destination_key_def)
  have pays: "pays destinations winner key \<longleftrightarrow> key = ?k" for key using dest by (auto simp: pays_def)
  have "paid_to (map snd outputs') key = won destinations (tickets @ [(winner, amount)]) key" for key
    using paid_to_insert [OF wf key' prev_def [symmetric] prev_key, of key] earned [of key] v
    by (cases prev; cases "?k = key") (auto simp: o' won_def pays)
  moreover have "paid (map snd outputs') = (\<Sum>(_, amount) \<leftarrow> tickets @ [(winner, amount)]. unat amount)"
    using paid_insert [OF wf prev_def [symmetric], of "entry\<lparr>po_value := v\<rparr>"] assms(1) v
    by (cases prev) (auto simp: o' merged_def)
  moreover have "destination_key out' = key" if "(key, out') \<in> set outputs'" for key out'
    using that keys key' unfolding o' bt_get_iff [OF bt_wf_insert [OF wf]] bt_get_insert [OF wf]
    by (auto simp: bt_get_iff [OF wf, symmetric] split: if_splits)
  moreover have "\<exists>key. pays destinations w key \<and> bt_get outputs' key \<noteq> None"
    if "(w, a) \<in> set (tickets @ [(winner, amount)])" for w a
  proof (cases "(w, a) \<in> set tickets")
    case True
    then obtain key where "pays destinations w key" "bt_get outputs key \<noteq> None"
      using assms(1) unfolding merged_def by blast
    then show ?thesis by (intro exI [of _ key]) (simp add: o' bt_get_insert [OF wf])
  next
    case False
    with that have "w = winner" by simp
    then show ?thesis using pays [of ?k] by (intro exI [of _ ?k]) (simp add: o' bt_get_insert [OF wf])
  qed
  ultimately show ?thesis
    unfolding merged_def using bt_wf_insert [OF wf] o' by blast
qed

lemma combine_winners_fold:
  assumes "fresh_destinations destinations" and "merged destinations done outputs"
    and "res_foldM (combine_winner destinations) outputs tickets = Inr outputs'"
  shows "merged destinations (done @ tickets) outputs'"
  using assms(2,3)
proof (induction tickets arbitrary: "done" outputs)
  case (Cons t tickets)
  then obtain mid where "combine_winner destinations outputs t = Inr mid"
    and rest: "res_foldM (combine_winner destinations) mid tickets = Inr outputs'"
    by (auto simp: res_simps)
  then have "merged destinations (done @ [t]) mid"
    using combine_winner_merged [OF Cons.prems(1) assms(1)] by (cases t) simp
  from Cons.IH [OF this rest] show ?case by simp
qed simp

lemma combine_winners_merged:
  "fresh_destinations destinations \<Longrightarrow> combine_winners winners amounts destinations = Inr outputs \<Longrightarrow>
    merged destinations (zip winners amounts) outputs"
  using combine_winners_fold [OF _ merged_Nil] by (fastforce simp: combine_winners_def)

lemma combine_winner_no_overflow:
  assumes "merged destinations tickets outputs" and "fresh_destinations destinations"
    and "(\<Sum>(_, a) \<leftarrow> tickets. unat a) + unat amount < 2 ^ 64"
  shows "combine_winner destinations outputs (winner, amount) \<noteq> Inl ArithmeticOverflow"
proof
  assume err: "combine_winner destinations outputs (winner, amount) = Inl ArithmeticOverflow"
  then obtain out where "bt_get destinations winner = Some out"
    and add: "checked_add (po_value (case bt_get outputs (destination_key out) of None \<Rightarrow> out
        | Some existing \<Rightarrow> existing)) amount = None"
    by (cases "bt_get destinations winner")
      (auto simp: combine_winner_def Let_def res_bind_Inl_iff ok_or_def split: option.splits)
  then have "po_value out = 0" using assms(2) by (simp add: fresh_destinations_def)
  have "unat (po_value (case bt_get outputs (destination_key out) of None \<Rightarrow> out
        | Some existing \<Rightarrow> existing)) \<le> paid (map snd outputs)"
  proof (cases "bt_get outputs (destination_key out)")
    case None
    then show ?thesis using \<open>po_value out = 0\<close> by simp
  next
    case (Some e)
    then have "(destination_key out, e) \<in> set outputs"
      using assms(1) by (simp add: merged_def bt_get_iff)
    then have "unat (po_value e) \<in> set (map (\<lambda>out. unat (po_value out)) (map snd outputs))" by force
    then show ?thesis using Some member_le_sum_list by (fastforce simp: paid_def)
  qed
  also have "\<dots> = (\<Sum>(_, a) \<leftarrow> tickets. unat a)" using assms(1) by (simp add: merged_def)
  finally show False using add assms(3) by (simp add: checked_add_def split: if_splits)
qed

lemma combine_winners_fold_no_overflow:
  assumes "fresh_destinations destinations" and "merged destinations done outputs"
    and "(\<Sum>(_, a) \<leftarrow> done @ tickets. unat a) < 2 ^ 64"
  shows "res_foldM (combine_winner destinations) outputs tickets \<noteq> Inl ArithmeticOverflow"
  using assms(2,3)
proof (induction tickets arbitrary: "done" outputs)
  case (Cons t tickets)
  obtain w a where t: "t = (w, a)" by force
  show ?case
  proof (cases "combine_winner destinations outputs t")
    case (Inl e)
    with combine_winner_no_overflow [OF Cons.prems(1) assms(1), of a w] Cons.prems(2)
    show ?thesis by (simp add: t)
  next
    case (Inr mid)
    then have "merged destinations (done @ [t]) mid"
      using combine_winner_merged [OF Cons.prems(1) assms(1)] t by simp
    from Cons.IH [OF this] Cons.prems(2) Inr show ?thesis by simp
  qed
qed simp

lemma work_destinations_fresh: "fresh_destinations (work_destination_map buckets)"
  using bt_from_list [of "map (\<lambda>bucket. (wb_bucket_id bucket,
     \<lparr>po_hns_address_version = wb_hns_address_version bucket,
      po_hns_address_hash = wb_hns_address_hash bucket, po_value = 0\<rparr>)) buckets"]
  by (auto simp: fresh_destinations_def work_destination_map_def dest!: map_of_SomeD)

lemma service_destinations_fresh: "fresh_destinations (service_destination_map buckets)"
  using bt_from_list [of "map (\<lambda>bucket. (sb_bucket_id bucket,
     \<lparr>po_hns_address_version = sb_hns_address_version bucket,
      po_hns_address_hash = sb_hns_address_hash bucket, po_value = 0\<rparr>)) buckets"]
  by (auto simp: fresh_destinations_def service_destination_map_def dest!: map_of_SomeD)

lemma merged_sorted:
  assumes "merged destinations tickets outputs"
  shows "destinations_sorted (map snd (filter P outputs))"
proof -
  have keys: "destination_order (snd e) = fst e" if "e \<in> set outputs" for e
    using assms that by (auto simp: merged_def destination_key_def destination_order_def)
  then have "map destination_order (map snd (filter P outputs)) = map fst (filter P outputs)" by simp
  moreover have "sorted_wrt (<) (map fst (filter P outputs))"
    using assms by (simp add: merged_def bt_wf_def sorted_wrt_map sorted_wrt_filter)
  ultimately show ?thesis
    unfolding destinations_sorted_def windows2_any_weak
    by (metis strict_sorted_iff)
qed

lemma paid_to_split:
  assumes "merged destinations tickets outputs" and "bt_get outputs k = Some first"
  shows "paid_to (first # map snd (filter (\<lambda>(key, _). key \<noteq> k) outputs)) key = paid_to (map snd outputs) key"
    and "paid (first # map snd (filter (\<lambda>(key, _). key \<noteq> k) outputs)) = paid (map snd outputs)"
proof -
  have "bt_wf outputs" using assms(1) by (simp add: merged_def)
  then have d: "distinct (map fst outputs)" by (rule bt_distinct)
  have *: "f first + sum_list (map f (map snd (filter (\<lambda>(key, _). key \<noteq> k) outputs))) =
      sum_list (map f (map snd outputs))" for f :: "PayoutOutput \<Rightarrow> nat"
    using d assms(2)
  proof (induction outputs)
    case (Cons e m)
    obtain k' o' where e: "e = (k', o')" by (cases e)
    show ?case
    proof (cases "k' = k")
      case True
      then have "filter (\<lambda>(key, _). key \<noteq> k) m = m"
        using Cons.prems(1) by (auto simp: e filter_id_conv image_iff)
      then show ?thesis using True Cons.prems by (simp add: e bt_get_def)
    next
      case False
      then show ?thesis using Cons by (simp add: e bt_get_def)
    qed
  qed (simp add: bt_get_def)
  show "paid_to (first # map snd (filter (\<lambda>(key, _). key \<noteq> k) outputs)) key = paid_to (map snd outputs) key"
    using * [of "\<lambda>out. if destination_key out = key then unat (po_value out) else 0"]
    by (simp add: paid_to_def)
  show "paid (first # map snd (filter (\<lambda>(key, _). key \<noteq> k) outputs)) = paid (map snd outputs)"
    using * [of "\<lambda>out. unat (po_value out)"] by (simp add: paid_def)
qed

text \<open>The pools: the service fraction is rounded down and work takes the rest.\<close>

lemma service_pool_exact:
  fixes subsidy :: u64 and bp :: u16
  assumes "unat bp \<le> 10000"
  defines "pool \<equiv> ucast (((ucast subsidy :: 128 word) * ucast bp) div 10000) :: u64"
  shows "unat pool = unat subsidy * unat bp div 10000"
    and "unat pool + unat (subsidy - pool) = unat subsidy"
proof -
  have s: "unat subsidy < 2 ^ 64" using unsigned_less [of subsidy] by simp
  have us: "unat (ucast subsidy :: 128 word) = unat subsidy"
    using s by (simp add: unsigned_ucast_eq take_bit_nat_eq_self)
  have ub: "unat (ucast bp :: 128 word) = unat bp"
    using assms(1) by (simp add: unsigned_ucast_eq take_bit_nat_eq_self)
  have prod: "unat subsidy * unat bp \<le> unat subsidy * 10000" using assms(1) by simp
  moreover have "unat subsidy * 10000 < 2 ^ 128" using s by simp
  ultimately have "unat subsidy * unat bp < 2 ^ 128" by (rule le_less_trans)
  then have "unat ((ucast subsidy :: 128 word) * ucast bp) = unat subsidy * unat bp"
    by (simp add: unat_word_ariths us ub)
  then have d: "unat (((ucast subsidy :: 128 word) * ucast bp) div 10000) = unat subsidy * unat bp div 10000"
    by (simp add: unat_div_distrib)
  have le: "unat subsidy * unat bp div 10000 \<le> unat subsidy"
    using prod by (metis div_le_mono div_mult_self_is_m zero_less_numeral)
  then show e: "unat pool = unat subsidy * unat bp div 10000"
    using s d by (simp add: pool_def unsigned_ucast_eq take_bit_nat_eq_self)
  have "pool \<le> subsidy" using le e by (simp add: word_le_nat_alt)
  then show "unat pool + unat (subsidy - pool) = unat subsidy"
    by (simp add: unat_sub word_le_nat_alt)
qed

lemma lengths_zip_sum:
  "length ws = length as \<Longrightarrow> (\<Sum>(_, a) \<leftarrow> zip ws as. unat a) = sum_list (map unat as)"
  by (induction ws as rule: list_induct2) simp_all

text \<open>Everything a successful build went through.\<close>

lemma build_coinbase_payouts_cases:
  assumes "build_coinbase_payouts hs snapshot plan subsidy operator_fees mandatory fee_destination profile = Inr cp"
  obtains work service first_key first outs where
    "cp_service_pool cp = ucast (((ucast subsidy :: 128 word) * ucast (pf_service_basis_points profile)) div 10000)"
    "cp_work_pool cp = subsidy - cp_service_pool cp"
    "unat (pf_service_basis_points profile) \<le> 10000"
    "length (pp_work_winners plan) = unat (pf_work_ticket_count profile)"
    "length (pp_service_winners plan) = unat (pf_service_ticket_count profile)"
    "pf_work_ticket_count profile \<noteq> 0 \<or> cp_work_pool cp = 0"
    "pf_service_ticket_count profile \<noteq> 0 \<or> cp_service_pool cp = 0"
    "combine_winners (pp_work_winners plan) (ticket_values (cp_work_pool cp) (pf_work_ticket_count profile))
       (work_destination_map (ps_work_buckets snapshot)) = Inr work"
    "combine_winners (pp_service_winners plan) (ticket_values (cp_service_pool cp) (pf_service_ticket_count profile))
       (service_destination_map (ps_service_buckets snapshot)) = Inr service"
    "bt_get work first_key = Some first"
    "sk_first_work_or_fallback (cp_skeleton cp) = first"
    "sk_remaining_work_outputs (cp_skeleton cp) = map snd (filter (\<lambda>(key, _). key \<noteq> first_key) work)"
    "sk_service_outputs (cp_skeleton cp) = map snd service"
    "sk_mandatory_claim_airdrop_outputs (cp_skeleton cp) = mandatory"
    "(case sk_operator_fee_output (cp_skeleton cp) of None \<Rightarrow> 0 | Some out \<Rightarrow> unat (po_value out)) = unat operator_fees"
    "ordered_outputs (cp_skeleton cp) = Inr outs"
    "length outs \<le> unat (pf_maximum_coinbase_outputs profile)"
    "cp_total_subsidy cp = subsidy \<and> cp_operator_fees cp = operator_fees"
proof -
  define sp :: u64 where "sp = ucast (((ucast subsidy :: 128 word) * ucast (pf_service_basis_points profile)) div 10000)"
  note assms [unfolded build_coinbase_payouts_def Let_def, folded sp_def]
  then obtain work service d first fee outs where
    checks: "pf_service_basis_points profile \<le> pf_maximum_service_basis_points profile"
      "pf_maximum_service_basis_points profile \<le> 10000"
      "length (pp_work_winners plan) = unat (pf_work_ticket_count profile)"
      "length (pp_service_winners plan) = unat (pf_service_ticket_count profile)"
      "pf_work_ticket_count profile \<noteq> 0 \<or> subsidy - sp = 0"
      "pf_service_ticket_count profile \<noteq> 0 \<or> sp = 0"
    and maps: "combine_winners (pp_work_winners plan) (ticket_values (subsidy - sp) (pf_work_ticket_count profile))
        (work_destination_map (ps_work_buckets snapshot)) = Inr work"
      "combine_winners (pp_service_winners plan) (ticket_values sp (pf_service_ticket_count profile))
        (service_destination_map (ps_service_buckets snapshot)) = Inr service"
      "bt_get work (destination_key d) = Some first"
    and fee: "(if operator_fees = 0 then Inr None
          else case fee_destination of
            Some (version, hash) \<Rightarrow> Inr (Some \<lparr>po_hns_address_version = version,
              po_hns_address_hash = hash, po_value = operator_fees\<rparr>)
          | None \<Rightarrow> Inl ConflictingBucketMetadata) = Inr fee"
    and cp: "ordered_outputs (cp_skeleton cp) = Inr outs"
      "length outs \<le> unat (pf_maximum_coinbase_outputs profile)"
      "cp = \<lparr>cp_skeleton = \<lparr>sk_first_work_or_fallback = first,
          sk_mandatory_claim_airdrop_outputs = mandatory,
          sk_remaining_work_outputs = map snd (filter (\<lambda>(key, _). key \<noteq> destination_key d) work),
          sk_service_outputs = map snd service, sk_operator_fee_output = fee\<rparr>,
        cp_work_pool = subsidy - sp, cp_service_pool = sp, cp_total_subsidy = subsidy,
        cp_operator_fees = operator_fees\<rparr>"
    by (auto simp: res_simps bt_values_def not_less)
  have "unat (pf_service_basis_points profile) \<le> 10000"
    using checks(1,2) by (simp add: word_le_nat_alt)
  moreover have "(case fee of None \<Rightarrow> 0 | Some out \<Rightarrow> unat (po_value out)) = unat operator_fees"
    using fee by (auto split: if_splits option.splits)
  ultimately show ?thesis
    by (intro that [of work service "destination_key d" first outs])
      (use checks maps cp in \<open>simp_all add: sp_def\<close>)
qed

text \<open>C4: the coinbase pays exactly what was won. When building the payouts succeeds, the outputs add up to
  the subsidy, the operator fees and the mandatory outputs, and their number respects the policy; the
  service pool is the service fraction of the subsidy rounded down and the work pool is the rest; and
  the work (service) outputs pay each destination the sum of the work (service) tickets that the
  plan's winners hold for it.\<close>

theorem coinbase_pays_tickets:
  assumes "build_coinbase_payouts hs snapshot plan subsidy operator_fees mandatory fee_destination profile = Inr cp"
  shows "\<exists>outs. ordered_outputs (cp_skeleton cp) = Inr outs \<and>
    length outs \<le> unat (pf_maximum_coinbase_outputs profile) \<and>
    paid outs = unat subsidy + unat operator_fees + paid mandatory \<and>
    unat (cp_service_pool cp) = unat subsidy * unat (pf_service_basis_points profile) div 10000 \<and>
    unat (cp_service_pool cp) + unat (cp_work_pool cp) = unat subsidy \<and>
    (\<forall>key. paid_to (sk_first_work_or_fallback (cp_skeleton cp) # sk_remaining_work_outputs (cp_skeleton cp)) key =
      won (work_destination_map (ps_work_buckets snapshot))
        (zip (pp_work_winners plan) (ticket_values (cp_work_pool cp) (pf_work_ticket_count profile))) key) \<and>
    (\<forall>key. paid_to (sk_service_outputs (cp_skeleton cp)) key =
      won (service_destination_map (ps_service_buckets snapshot))
        (zip (pp_service_winners plan) (ticket_values (cp_service_pool cp) (pf_service_ticket_count profile))) key)"
proof -
  from build_coinbase_payouts_cases [OF assms] obtain work service first_key first outs where
    pools: "cp_service_pool cp = ucast (((ucast subsidy :: 128 word) * ucast (pf_service_basis_points profile)) div 10000)"
      "cp_work_pool cp = subsidy - cp_service_pool cp" "unat (pf_service_basis_points profile) \<le> 10000"
    and counts: "length (pp_work_winners plan) = unat (pf_work_ticket_count profile)"
      "length (pp_service_winners plan) = unat (pf_service_ticket_count profile)"
      "pf_work_ticket_count profile \<noteq> 0 \<or> cp_work_pool cp = 0"
      "pf_service_ticket_count profile \<noteq> 0 \<or> cp_service_pool cp = 0"
    and work: "combine_winners (pp_work_winners plan) (ticket_values (cp_work_pool cp) (pf_work_ticket_count profile))
       (work_destination_map (ps_work_buckets snapshot)) = Inr work"
    and service: "combine_winners (pp_service_winners plan) (ticket_values (cp_service_pool cp) (pf_service_ticket_count profile))
       (service_destination_map (ps_service_buckets snapshot)) = Inr service"
    and first: "bt_get work first_key = Some first"
    and sk: "sk_first_work_or_fallback (cp_skeleton cp) = first"
      "sk_remaining_work_outputs (cp_skeleton cp) = map snd (filter (\<lambda>(key, _). key \<noteq> first_key) work)"
      "sk_service_outputs (cp_skeleton cp) = map snd service"
      "sk_mandatory_claim_airdrop_outputs (cp_skeleton cp) = mandatory"
      "(case sk_operator_fee_output (cp_skeleton cp) of None \<Rightarrow> 0 | Some out \<Rightarrow> unat (po_value out)) = unat operator_fees"
    and outs: "ordered_outputs (cp_skeleton cp) = Inr outs"
      "length outs \<le> unat (pf_maximum_coinbase_outputs profile)" .
  note mw = combine_winners_merged [OF work_destinations_fresh work]
  note ms = combine_winners_merged [OF service_destinations_fresh service]
  have pw: "paid (map snd work) = unat (cp_work_pool cp)"
    using mw ticket_values_sum [OF counts(3)] counts(1)
    by (simp add: merged_def lengths_zip_sum length_ticket_values)
  have ps: "paid (map snd service) = unat (cp_service_pool cp)"
    using ms ticket_values_sum [OF counts(4)] counts(2)
    by (simp add: merged_def lengths_zip_sum length_ticket_values)
  have "paid outs = paid (first # map snd (filter (\<lambda>(key, _). key \<noteq> first_key) work)) + paid mandatory +
      paid (map snd service) + unat operator_fees"
    using outs(1) sk(5) by (auto simp: ordered_outputs_def res_simps sk(1-4) paid_def split: option.splits)
  then have "paid outs = unat subsidy + unat operator_fees + paid mandatory"
    using paid_to_split(2) [OF mw first] pw ps service_pool_exact(2) [OF pools(3), of subsidy] pools(1,2)
    by simp
  moreover have "paid_to (first # map snd (filter (\<lambda>(key, _). key \<noteq> first_key) work)) key =
      won (work_destination_map (ps_work_buckets snapshot))
        (zip (pp_work_winners plan) (ticket_values (cp_work_pool cp) (pf_work_ticket_count profile))) key" for key
    unfolding paid_to_split(1) [OF mw first] using mw unfolding merged_def by blast
  moreover have "paid_to (map snd service) key = won (service_destination_map (ps_service_buckets snapshot))
        (zip (pp_service_winners plan) (ticket_values (cp_service_pool cp) (pf_service_ticket_count profile))) key" for key
    using ms unfolding merged_def by blast
  ultimately show ?thesis
    using outs service_pool_exact [OF pools(3), of subsidy] pools(1,2) sk by auto
qed

text \<open>Without a work ticket there is no first output: no fallback takes its place.\<close>

lemma no_work_ticket_no_coinbase:
  assumes "pf_work_ticket_count profile = 0"
  shows "\<exists>e. build_coinbase_payouts hs snapshot plan subsidy operator_fees mandatory fee_destination profile = Inl e"
proof (cases "build_coinbase_payouts hs snapshot plan subsidy operator_fees mandatory fee_destination profile")
  case (Inr cp)
  from build_coinbase_payouts_cases [OF this] obtain work first_key first where
    "length (pp_work_winners plan) = unat (pf_work_ticket_count profile)"
    and work: "combine_winners (pp_work_winners plan) (ticket_values (cp_work_pool cp) (pf_work_ticket_count profile))
       (work_destination_map (ps_work_buckets snapshot)) = Inr work"
    and "bt_get work first_key = Some first" .
  then show ?thesis using assms by (simp add: combine_winners_def)
qed simp

section \<open>Plans verify exactly if they are recomputed\<close>

lemma select_weighted_winners:
  assumes "select_weighted hs seed cls count buckets = Inr (winners, counters)"
  shows "length winners = unat count \<and> set winners \<subseteq> fst ` set buckets"
proof (cases "count = 0")
  case False
  with assms obtain draws where
    draws: "res_mapM (\<lambda>ticket_index. draw_winner hs seed cls buckets (of_nat ticket_index)) [0..<unat count] = Inr draws"
    and w: "winners = map fst draws"
    by (auto simp: select_weighted_def res_simps split: if_splits)
  have "winner \<in> fst ` set buckets" if "draw_winner hs seed cls buckets i = Inr (winner, c)" for winner c i
    using that by (auto simp: draw_winner_def Let_def res_simps split: if_splits)
  with draws have "set (map fst draws) \<subseteq> fst ` set buckets"
    by (force simp: res_mapM_Inr_iff list_all2_conv_all_nth in_set_conv_nth)
  then show ?thesis using res_mapM_length [OF draws] w by simp
qed (use assms in \<open>simp add: select_weighted_def\<close>)

text \<open>The signers of a plan do not enter the computation.\<close>

lemma build_plan_signers:
  "build_payout_plan_with_snapshot_id hs snapshot snapshot_id start hashes beacon profile signers =
    map_sum id (\<lambda>plan. plan\<lparr>pp_signer_set := signers\<rparr>)
      (build_payout_plan_with_snapshot_id hs snapshot snapshot_id start hashes beacon profile signers')"
  by (auto simp: build_payout_plan_with_snapshot_id_def Let_def res_bind_def split: sum.splits)

lemma encode_unsigned_signers [simp]:
  "encode_unsigned_PayoutPlanV2 (plan\<lparr>pp_signer_set := signers\<rparr>) = encode_unsigned_PayoutPlanV2 plan"
  by (simp add: encode_unsigned_PayoutPlanV2_def)

lemma build_plan_fields:
  assumes "build_payout_plan_with_snapshot_id hs snapshot snapshot_id start hashes beacon profile signers = Inr plan"
  shows "pp_snapshot_id plan = snapshot_id \<and> pp_plan_sequence plan = ps_snapshot_sequence snapshot \<and>
    pp_entropy_anchor_start plan = start \<and> pp_entropy_hashes plan = hashes \<and> pp_prior_beacon plan = beacon \<and>
    unat (pp_entropy_anchor_count plan) = length hashes \<and> pp_signer_set plan = signers \<and>
    pp_work_ticket_count plan = pf_work_ticket_count profile \<and>
    pp_service_ticket_count plan = pf_service_ticket_count profile \<and>
    length (pp_work_winners plan) = unat (pf_work_ticket_count profile) \<and>
    length (pp_service_winners plan) = unat (pf_service_ticket_count profile) \<and>
    set (pp_work_winners plan) \<subseteq> set (map wb_bucket_id (ps_work_buckets snapshot)) \<and>
    set (pp_service_winners plan) \<subseteq> set (map sb_bucket_id (ps_service_buckets snapshot))"
proof -
  from assms obtain seed ww wc sw sc where
    work: "select_work_winners hs seed 0 (pf_work_ticket_count profile) (ps_work_buckets snapshot) = Inr (ww, wc)"
    and service: "(if pf_service_ticket_count profile = 0 then Inr ([], [])
          else select_service_winners hs seed 1 (pf_service_ticket_count profile)
            (ps_service_buckets snapshot)) = Inr (sw, sc)"
    and len: "length hashes \<le> 0xffff"
    and plan: "pp_snapshot_id plan = snapshot_id" "pp_plan_sequence plan = ps_snapshot_sequence snapshot"
      "pp_entropy_anchor_start plan = start" "pp_entropy_hashes plan = hashes" "pp_prior_beacon plan = beacon"
      "pp_entropy_anchor_count plan = of_nat (length hashes)" "pp_signer_set plan = signers"
      "pp_work_ticket_count plan = pf_work_ticket_count profile"
      "pp_service_ticket_count plan = pf_service_ticket_count profile"
      "pp_work_winners plan = ww" "pp_service_winners plan = sw"
    by (auto simp: build_payout_plan_with_snapshot_id_def Let_def res_bind_Inr_iff if_Inl_Inr_iff not_less
        simp del: not_gr_zero)
  have "unat (of_nat (length hashes) :: u16) = length hashes"
    using len by (simp add: unsigned_of_nat take_bit_nat_eq_self)
  moreover have "length ww = unat (pf_work_ticket_count profile) \<and>
      set ww \<subseteq> set (map wb_bucket_id (ps_work_buckets snapshot))"
    using select_weighted_winners work unfolding select_work_winners_def by fastforce
  moreover have "length sw = unat (pf_service_ticket_count profile) \<and>
      set sw \<subseteq> set (map sb_bucket_id (ps_service_buckets snapshot))"
  proof (cases "pf_service_ticket_count profile = 0")
    case False
    with service show ?thesis
      using select_weighted_winners unfolding select_service_winners_def by fastforce
  qed (use service in simp)
  ultimately show ?thesis using plan by simp
qed

lemma built_plan_verifies:
  assumes "build_payout_plan hs snapshot start hashes beacon profile signers = Inr plan"
  shows "verify_payout_plan hs snapshot plan profile = Inr ()"
proof -
  note fields = build_plan_fields [OF assms [unfolded build_payout_plan_def]]
  obtain unsigned where "build_payout_plan_with_snapshot_id hs snapshot
      (object_id_PayoutSnapshotV2 (hash_blake2b_256 hs) snapshot) start hashes beacon profile empty_ed25519 = Inr unsigned"
    and "unsigned = plan\<lparr>pp_signer_set := empty_ed25519\<rparr>"
    using assms unfolding build_payout_plan_def
    by (simp add: build_plan_signers [where signers = empty_ed25519 and signers' = signers])
  then show ?thesis using fields by (simp add: verify_payout_plan_def Let_def)
qed

text \<open>C6: plan verification is recomputation. Every plan built from a snapshot verifies against it, whoever
  signs; and a plan that verifies has, byte for byte, the encoding and the identifier of the plan
  built from the snapshot with the same entropy, prior beacon and signers.\<close>

theorem plan_verifies_iff_recomputed:
  "(build_payout_plan hs snapshot start hashes beacon profile signers = Inr plan \<longrightarrow>
      verify_payout_plan hs snapshot plan profile = Inr ()) \<and>
   (verify_payout_plan hs snapshot plan profile = Inr () \<longrightarrow>
      (\<exists>expected. build_payout_plan hs snapshot (pp_entropy_anchor_start plan) (pp_entropy_hashes plan)
          (pp_prior_beacon plan) profile (pp_signer_set plan) = Inr expected \<and>
        encode_PayoutPlanV2 expected = encode_PayoutPlanV2 plan \<and>
        object_id_PayoutPlanV2 (hash_blake2b_256 hs) expected = object_id_PayoutPlanV2 (hash_blake2b_256 hs) plan))"
proof (intro conjI impI)
  assume "build_payout_plan hs snapshot start hashes beacon profile signers = Inr plan"
  then show "verify_payout_plan hs snapshot plan profile = Inr ()" by (rule built_plan_verifies)
next
  assume "verify_payout_plan hs snapshot plan profile = Inr ()"
  then obtain unsigned where unsigned: "build_payout_plan_with_snapshot_id hs snapshot
      (object_id_PayoutSnapshotV2 (hash_blake2b_256 hs) snapshot) (pp_entropy_anchor_start plan)
      (pp_entropy_hashes plan) (pp_prior_beacon plan) profile empty_ed25519 = Inr unsigned"
    and bytes: "encode_unsigned_PayoutPlanV2 unsigned = encode_unsigned_PayoutPlanV2 plan"
    by (auto simp: verify_payout_plan_def Let_def res_simps split: if_splits)
  have "build_payout_plan hs snapshot (pp_entropy_anchor_start plan) (pp_entropy_hashes plan)
      (pp_prior_beacon plan) profile (pp_signer_set plan) = Inr (unsigned\<lparr>pp_signer_set := pp_signer_set plan\<rparr>)"
    unfolding build_payout_plan_def
    using unsigned build_plan_signers [where signers = "pp_signer_set plan" and signers' = empty_ed25519] by simp
  then show "\<exists>expected. build_payout_plan hs snapshot (pp_entropy_anchor_start plan) (pp_entropy_hashes plan)
          (pp_prior_beacon plan) profile (pp_signer_set plan) = Inr expected \<and>
        encode_PayoutPlanV2 expected = encode_PayoutPlanV2 plan \<and>
        object_id_PayoutPlanV2 (hash_blake2b_256 hs) expected = object_id_PayoutPlanV2 (hash_blake2b_256 hs) plan"
    using bytes by (simp add: encode_PayoutPlanV2_def object_id_PayoutPlanV2_def)
qed

lemma combine_winners_ok:
  assumes "fresh_destinations destinations" and "set winners \<subseteq> dom (bt_get destinations)"
    and "(\<Sum>(_, a) \<leftarrow> zip winners amounts. unat a) < 2 ^ 64"
  shows "\<exists>outputs. combine_winners winners amounts destinations = Inr outputs"
proof (rule ccontr)
  assume "\<nexists>outputs. combine_winners winners amounts destinations = Inr outputs"
  then obtain e where e: "combine_winners winners amounts destinations = Inl e"
    by (metis sumE)
  have step: "e = ArithmeticOverflow" if "res_foldM (combine_winner destinations) outputs tickets = Inl e"
    "fst ` set tickets \<subseteq> dom (bt_get destinations)" for outputs tickets
    using that
  proof (induction tickets arbitrary: outputs)
    case (Cons t tickets)
    obtain w a where t: "t = (w, a)" by force
    with Cons.prems(2) obtain out where "bt_get destinations w = Some out" by auto
    with Cons show ?case
      by (auto simp: t combine_winner_def Let_def res_bind_Inl_iff ok_or_def split: option.splits)
  qed simp
  have "fst ` set (zip winners amounts) \<subseteq> dom (bt_get destinations)"
    using assms(2) by (auto dest!: set_zip_leftD)
  then have "e = ArithmeticOverflow"
    using step [of "[]" "zip winners amounts"] e by (simp add: combine_winners_def)
  then show False
    using combine_winners_fold_no_overflow [OF assms(1) merged_Nil, of "zip winners amounts"] assms(3) e
    by (simp add: combine_winners_def)
qed

lemma dom_work_destinations: "dom (bt_get (work_destination_map buckets)) = set (map wb_bucket_id buckets)"
  by (simp add: work_destination_map_def bt_from_list dom_map_of_conv_image_fst image_image)

lemma dom_service_destinations:
  "dom (bt_get (service_destination_map buckets)) = set (map sb_bucket_id buckets)"
  by (simp add: service_destination_map_def bt_from_list dom_map_of_conv_image_fst image_image)

lemma class_outputs_ok:
  assumes "fresh_destinations destinations" and "set winners \<subseteq> dom (bt_get destinations)"
    and "length winners = unat count" and "count \<noteq> 0 \<or> pool = 0"
  obtains outputs where "combine_winners winners (ticket_values pool count) destinations = Inr outputs"
    and "merged destinations (zip winners (ticket_values pool count)) outputs"
proof -
  have "(\<Sum>(_, a) \<leftarrow> zip winners (ticket_values pool count). unat a) = unat pool"
    using assms(3,4) by (simp add: lengths_zip_sum length_ticket_values ticket_values_sum)
  moreover have "unat pool < 2 ^ 64" using unsigned_less [of pool] by simp
  ultimately obtain outputs where "combine_winners winners (ticket_values pool count) destinations = Inr outputs"
    using combine_winners_ok [OF assms(1,2)] by metis
  then show ?thesis using that combine_winners_merged [OF assms(1)] by blast
qed

text \<open>The outputs of both classes can be combined for a built plan, and the first winner is among them.\<close>

lemma built_plan_outputs:
  assumes "build_payout_plan hs snapshot start hashes beacon profile signers = Inr plan"
    and "pf_work_ticket_count profile \<noteq> 0" and "pf_service_ticket_count profile \<noteq> 0 \<or> sp = 0"
  obtains work service w ws d where
    "combine_winners (pp_work_winners plan) (ticket_values (subsidy - sp) (pf_work_ticket_count profile))
       (work_destination_map (ps_work_buckets snapshot)) = Inr work"
    "combine_winners (pp_service_winners plan) (ticket_values sp (pf_service_ticket_count profile))
       (service_destination_map (ps_service_buckets snapshot)) = Inr service"
    "pp_work_winners plan = w # ws" "bt_get (work_destination_map (ps_work_buckets snapshot)) w = Some d"
    "bt_get work (destination_key d) \<noteq> None"
    "\<And>P. destinations_sorted (map snd (filter P work))" "destinations_sorted (bt_values service)"
proof -
  note fields = build_plan_fields [OF assms(1) [unfolded build_payout_plan_def]]
  let ?wd = "work_destination_map (ps_work_buckets snapshot)"
  let ?sd = "service_destination_map (ps_service_buckets snapshot)"
  have winners: "set (pp_work_winners plan) \<subseteq> dom (bt_get ?wd)" "set (pp_service_winners plan) \<subseteq> dom (bt_get ?sd)"
    using fields by (simp_all add: dom_work_destinations dom_service_destinations)
  have counts: "length (pp_work_winners plan) = unat (pf_work_ticket_count profile)"
    "length (pp_service_winners plan) = unat (pf_service_ticket_count profile)"
    using fields by simp_all
  obtain work where work: "combine_winners (pp_work_winners plan)
      (ticket_values (subsidy - sp) (pf_work_ticket_count profile)) ?wd = Inr work"
    and mw: "merged ?wd (zip (pp_work_winners plan)
      (ticket_values (subsidy - sp) (pf_work_ticket_count profile))) work"
    by (rule class_outputs_ok [OF work_destinations_fresh winners(1) counts(1), of "subsidy - sp"])
      (simp add: assms(2))
  obtain service where service: "combine_winners (pp_service_winners plan)
      (ticket_values sp (pf_service_ticket_count profile)) ?sd = Inr service"
    and ms: "merged ?sd (zip (pp_service_winners plan)
      (ticket_values sp (pf_service_ticket_count profile))) service"
    by (rule class_outputs_ok [OF service_destinations_fresh winners(2) counts(2) assms(3)])
  obtain w ws where ww: "pp_work_winners plan = w # ws"
    using fields assms(2) by (cases "pp_work_winners plan") (auto simp: unat_eq_0)
  obtain v vs where vv: "ticket_values (subsidy - sp) (pf_work_ticket_count profile) = v # vs"
    using length_ticket_values [of "subsidy - sp" "pf_work_ticket_count profile"] assms(2)
    by (cases "ticket_values (subsidy - sp) (pf_work_ticket_count profile)") (auto simp: unat_eq_0)
  obtain d where d: "bt_get ?wd w = Some d" and first: "bt_get work (destination_key d) \<noteq> None"
    using mw unfolding merged_def ww vv pays_def by fastforce
  show thesis
    using that [OF work service ww d first] merged_sorted [OF mw] merged_sorted [OF ms, of "\<lambda>_. True"]
    by (simp add: bt_values_def)
qed

text \<open>The test for uneconomic tickets, on the words of the code, is the one on the numbers they stand for.\<close>

lemma uneconomic_iff:
  fixes subsidy minimum :: u64 and bp work_count service_count :: u16
  assumes "unat bp \<le> 10000"
    and "sp = ucast (((ucast subsidy :: 128 word) * ucast bp) div 10000)"
    and "service_pool = unat subsidy * unat bp div 10000" "work_pool = unat subsidy - service_pool"
  shows "(0 < subsidy - sp \<and> (subsidy - sp) div ucast work_count < minimum \<or>
      0 < sp \<and> sp div ucast service_count < minimum) \<longleftrightarrow>
    (0 < work_pool \<and> work_pool div unat work_count < unat minimum \<or>
      0 < service_pool \<and> service_pool div unat service_count < unat minimum)"
proof -
  have "service_pool = unat sp" "work_pool = unat (subsidy - sp)"
    using service_pool_exact [OF assms(1), of subsidy] assms(2-4) by simp_all
  moreover have "unat (ucast x :: u64) = unat x" for x :: u16
    using unsigned_less [of x] by (simp add: unsigned_ucast_eq take_bit_nat_eq_self)
  ultimately show ?thesis by (simp add: word_less_nat_alt unat_div)
qed

text \<open>C33: a plan built from a snapshot can be paid. Assume a sound profile, at least one work ticket, and service
  tickets wherever there is a service fraction. Building the coinbase from a built plan is refused as
  uneconomic exactly if a pool that is not empty gives less than the minimum per ticket. Otherwise, if there
  are operator fees and no destination for them, it is refused as conflicting metadata; and in the remaining
  cases it succeeds, or is refused because there are more outputs than the policy admits. So no overflow, no
  unknown winner, no missing ticket and no ordering failure occurs.\<close>

theorem built_plan_is_payable:
  assumes "build_payout_plan hs snapshot start hashes beacon profile signers = Inr plan"
    and "pf_service_basis_points profile \<le> pf_maximum_service_basis_points profile"
    and "pf_maximum_service_basis_points profile \<le> 10000"
    and "pf_maximum_coinbase_outputs profile \<noteq> 0" and "pf_work_ticket_count profile \<noteq> 0"
    and "pf_service_ticket_count profile \<noteq> 0 \<or> pf_service_basis_points profile = 0"
    and "service_pool = unat subsidy * unat (pf_service_basis_points profile) div 10000"
    and "work_pool = unat subsidy - service_pool"
    and "result = build_coinbase_payouts hs snapshot plan subsidy operator_fees mandatory fee_destination profile"
  shows "if 0 < work_pool \<and> work_pool div unat (pf_work_ticket_count profile) < unat (pf_minimum_ticket_value profile) \<or>
      0 < service_pool \<and> service_pool div unat (pf_service_ticket_count profile) < unat (pf_minimum_ticket_value profile)
    then result = Inl UneconomicTicket
    else if operator_fees \<noteq> 0 \<and> fee_destination = None then result = Inl ConflictingBucketMetadata
    else result = Inl CoinbaseOutputPolicy \<or> (\<exists>cp. result = Inr cp)"
proof -
  note fields = build_plan_fields [OF assms(1) [unfolded build_payout_plan_def]]
  define sp :: u64 where "sp = ucast (((ucast subsidy :: 128 word) * ucast (pf_service_basis_points profile)) div 10000)"
  have sp: "pf_service_ticket_count profile \<noteq> 0 \<or> sp = 0" using assms(6) by (auto simp: sp_def)
  then have tickets: "sp = 0 \<or> pf_service_ticket_count profile \<noteq> 0" by blast
  have bp: "unat (pf_service_basis_points profile) \<le> 10000" using assms(2,3) by (simp add: word_le_nat_alt)
  define fee where "fee = (if operator_fees = 0 then Inr None else case fee_destination of
      Some (version, hash) \<Rightarrow> Inr (Some \<lparr>po_hns_address_version = version,
        po_hns_address_hash = hash, po_value = operator_fees\<rparr>)
      | None \<Rightarrow> Inl ConflictingBucketMetadata)"
  have fee_cases: "if operator_fees \<noteq> 0 \<and> fee_destination = None then fee = Inl ConflictingBucketMetadata
      else \<exists>out. fee = Inr out"
    by (auto simp: fee_def split: option.splits prod.splits)
  obtain work service w ws d where outputs: "combine_winners (pp_work_winners plan)
        (ticket_values (subsidy - sp) (pf_work_ticket_count profile)) (work_destination_map (ps_work_buckets snapshot)) = Inr work"
      "combine_winners (pp_service_winners plan) (ticket_values sp (pf_service_ticket_count profile))
        (service_destination_map (ps_service_buckets snapshot)) = Inr service"
      and first: "pp_work_winners plan = w # ws" "bt_get (work_destination_map (ps_work_buckets snapshot)) w = Some d"
        "bt_get work (destination_key d) \<noteq> None"
      and sorted: "\<And>P. destinations_sorted (map snd (filter P work))" "destinations_sorted (bt_values service)"
      by (rule built_plan_outputs [OF assms(1,5) sp, of subsidy]) blast
  note result = assms(9) [unfolded build_coinbase_payouts_def Let_def sp_def [symmetric] outputs fee_def [symmetric]]
  let ?uneconomic = "0 < subsidy - sp \<and> (subsidy - sp) div ucast (pf_work_ticket_count profile) <
      pf_minimum_ticket_value profile \<or>
    0 < sp \<and> sp div ucast (pf_service_ticket_count profile) < pf_minimum_ticket_value profile"
  have "result = Inl UneconomicTicket" if ?uneconomic
    using that fields assms(2-5) tickets unfolding result by (simp add: not_less)
  moreover have "result = Inl err" if "\<not> ?uneconomic" "fee = Inl err" for err
    using that fields assms(2-5) tickets first unfolding result by (auto simp: not_less)
  moreover have "result = Inl CoinbaseOutputPolicy \<or> (\<exists>cp. result = Inr cp)" if "\<not> ?uneconomic" "fee = Inr out" for out
    using that fields assms(2-5) tickets first sorted unfolding result
    by (auto simp: not_less validate_sorted_def ordered_outputs_def)
  ultimately show ?thesis
    unfolding uneconomic_iff [OF bp sp_def assms(7,8), symmetric] using fee_cases by (auto split: if_splits)
qed

section \<open>Examples\<close>

definition example_work_leaf :: "u8 \<Rightarrow> u8 \<Rightarrow> WorkBucketLeaf" where
  "example_work_leaf i w = \<lparr>wb_bucket_id = replicate 32 i, wb_operator_pubkey = replicate 32 i,
     wb_hns_address_version = 0, wb_hns_address_hash = replicate 20 i,
     wb_credited_work = replicate 63 0 @ [w]\<rparr>"

definition example_service_leaf :: "u8 \<Rightarrow> u8 \<Rightarrow> ServiceBucketLeaf" where
  "example_service_leaf i w = \<lparr>sb_bucket_id = replicate 32 i, sb_operator_pubkey = replicate 32 i,
     sb_hns_address_version = 0, sb_hns_address_hash = replicate 20 i,
     sb_certified_service_credit = replicate 63 0 @ [w]\<rparr>"

definition example_snapshot :: PayoutSnapshotV2 where
  "example_snapshot = \<lparr>ps_protocol_version = 2, ps_network_id = 0, ps_snapshot_sequence = 1,
     ps_previous_snapshot_id = replicate 32 0, ps_first_session_close_id = replicate 32 1,
     ps_last_session_close_id = replicate 32 1, ps_close_anchor_height = 10,
     ps_work_window_target = replicate 63 0 @ [4], ps_actual_work_in_window = replicate 63 0 @ [4],
     ps_work_buckets = [example_work_leaf 7 1, example_work_leaf 9 3],
     ps_service_buckets = [example_service_leaf 7 1, example_service_leaf 9 3],
     ps_share_set_root = replicate 32 2, ps_service_set_root = replicate 32 2,
     ps_settlement_committee_id = replicate 32 3, ps_signer_set = empty_ed25519\<rparr>"

definition example_profile :: PayoutProfile where
  "example_profile = \<lparr>pf_work_ticket_count = 2, pf_service_ticket_count = 1, pf_service_basis_points = 100,
     pf_maximum_service_basis_points = 500, pf_minimum_ticket_value = 1, pf_maximum_coinbase_outputs = 4\<rparr>"

definition example_build :: "SettlementError + PayoutPlanV2" where
  "example_build = build_payout_plan example_ticket_hashes example_snapshot 11 [replicate 32 4] (replicate 32 3)
     example_profile empty_ed25519"

definition example_plan :: PayoutPlanV2 where
  "example_plan = the_Inr example_build"

lemma example_select:
  "select_work_winners example_ticket_hashes seed 0 2 (ps_work_buckets example_snapshot) =
     Inr ([replicate 32 9, replicate 32 9], [0, 0])"
  "select_service_winners example_ticket_hashes seed 1 1 (ps_service_buckets example_snapshot) =
     Inr ([replicate 32 9], [0])"
  using example_draw
  by (simp_all add: select_work_winners_def select_service_winners_def select_weighted_def example_snapshot_def
      example_work_leaf_def example_service_leaf_def upt_rec)

lemma example_plan_built:
  "example_build = Inr example_plan \<and> pp_work_winners example_plan = [replicate 32 9, replicate 32 9] \<and>
    pp_service_winners example_plan = [replicate 32 9]"
proof -
  have "\<exists>plan. example_build = Inr plan \<and> pp_work_winners plan = [replicate 32 9, replicate 32 9] \<and>
      pp_service_winners plan = [replicate 32 9]"
    by (simp add: example_build_def build_payout_plan_def build_payout_plan_with_snapshot_id_def Let_def
        example_profile_def example_select) (simp add: example_snapshot_def)
  then obtain plan where plan: "example_build = Inr plan" "pp_work_winners plan = [replicate 32 9, replicate 32 9]"
      "pp_service_winners plan = [replicate 32 9]" by blast
  moreover have "example_plan = plan" unfolding example_plan_def plan(1) the_Inr_def by simp
  ultimately show ?thesis by simp
qed

theorem plan_verifies_iff_recomputed_witness:
  "verify_payout_plan example_ticket_hashes example_snapshot example_plan example_profile = Inr () \<and>
    (\<exists>expected. build_payout_plan example_ticket_hashes example_snapshot (pp_entropy_anchor_start example_plan)
        (pp_entropy_hashes example_plan) (pp_prior_beacon example_plan) example_profile
        (pp_signer_set example_plan) = Inr expected \<and>
      encode_PayoutPlanV2 expected = encode_PayoutPlanV2 example_plan)"
proof -
  note built = conjunct1 [OF example_plan_built, unfolded example_build_def]
  from plan_verifies_iff_recomputed [of example_ticket_hashes example_snapshot 11 "[replicate 32 4]" "replicate 32 3"
      example_profile empty_ed25519 example_plan] built
  show ?thesis by blast
qed

theorem built_plan_is_payable_witness:
  "(let r = build_coinbase_payouts example_ticket_hashes example_snapshot example_plan 1001 5 []
      (Some (0, replicate 20 8)) example_profile in r = Inl CoinbaseOutputPolicy \<or> (\<exists>cp. r = Inr cp)) \<and>
   build_coinbase_payouts example_ticket_hashes example_snapshot example_plan 1001 5 [] None example_profile =
     Inl ConflictingBucketMetadata \<and>
   build_coinbase_payouts example_ticket_hashes example_snapshot example_plan 1 5 [] None example_profile =
     Inl UneconomicTicket"
proof -
  note built = conjunct1 [OF example_plan_built, unfolded example_build_def]
  note payable = built_plan_is_payable [OF built _ _ _ _ _ refl refl refl]
  show ?thesis
    using payable [of 1001 5 "[]" "Some (0, replicate 20 8)"] payable [of 1001 5 "[]" None] payable [of 1 5 "[]" None]
    by (simp add: example_profile_def Let_def)
qed

lemma example_coinbase:
  "\<exists>cp. build_coinbase_payouts example_ticket_hashes example_snapshot example_plan 1001 5 []
      (Some (0, replicate 20 8)) example_profile = Inr cp"
proof -
  note fields = build_plan_fields [OF conjunct1 [OF example_plan_built,
      unfolded example_build_def build_payout_plan_def]]
  have vals: "ticket_values 991 2 = [496, 495]" "ticket_values 10 1 = [10]" by code_simp+
  have maps: "combine_winners [replicate 32 9, replicate 32 9] [496, 495]
      (work_destination_map (ps_work_buckets example_snapshot)) =
      Inr [((0, replicate 20 9), \<lparr>po_hns_address_version = 0, po_hns_address_hash = replicate 20 9, po_value = 991\<rparr>)]"
    "combine_winners [replicate 32 9] [10] (service_destination_map (ps_service_buckets example_snapshot)) =
      Inr [((0, replicate 20 9), \<lparr>po_hns_address_version = 0, po_hns_address_hash = replicate 20 9, po_value = 10\<rparr>)]"
    "bt_get (work_destination_map (ps_work_buckets example_snapshot)) (replicate 32 9) =
      Some \<lparr>po_hns_address_version = 0, po_hns_address_hash = replicate 20 9, po_value = 0\<rparr>"
    by code_simp+
  show ?thesis
    using fields example_plan_built
    by (simp add: build_coinbase_payouts_def Let_def example_profile_def vals maps maps(3) [unfolded bt_get_def] destination_key_def
        bt_get_def bt_values_def validate_sorted_def ordered_outputs_def destinations_sorted_def)
qed

theorem coinbase_pays_tickets_witness:
  "\<exists>cp outs. build_coinbase_payouts example_ticket_hashes example_snapshot example_plan 1001 5 []
      (Some (0, replicate 20 8)) example_profile = Inr cp \<and>
    ordered_outputs (cp_skeleton cp) = Inr outs \<and> paid outs = 1006 \<and>
    unat (cp_service_pool cp) = 10 \<and> unat (cp_work_pool cp) = 991"
proof -
  obtain cp where cp: "build_coinbase_payouts example_ticket_hashes example_snapshot example_plan 1001 5 []
      (Some (0, replicate 20 8)) example_profile = Inr cp" using example_coinbase ..
  from coinbase_pays_tickets [OF cp] cp show ?thesis
    by (auto simp: example_profile_def paid_def)
qed

end
