(* ===== verification/Settlement_Credits.thy ===== *)
theory Settlement_Credits
  imports Settlement_Snapshot Settlement_Payouts
begin

text \<open>
  What a snapshot says of the sessions it covers, the ledger that certifies service credit and the
  switch from bootstrap to normal payouts (\<^verbatim>\<open>crates/meshmine-settlement/src/lib.rs\<close>).
\<close>

definition SERVICE_CREDIT_DOMAIN :: string where "SERVICE_CREDIT_DOMAIN = ''meshmine/service-credit/v2''"
definition SERVICE_ACTION_DOMAIN :: string where "SERVICE_ACTION_DOMAIN = ''meshmine/service-action/v2''"

section \<open>Service credit\<close>

datatype ServiceRole = MaskSetup | MaskOpening | ReceiptBatch | AvailabilityChallenge | SettlementSignature

text \<open>The discriminant of a role, \<^verbatim>\<open>role as u8\<close>; the derived order of the enum is the order of these.\<close>

fun role_u8 :: "ServiceRole \<Rightarrow> u8" where
  "role_u8 MaskSetup = 0"
| "role_u8 MaskOpening = 1"
| "role_u8 ReceiptBatch = 2"
| "role_u8 AvailabilityChallenge = 3"
| "role_u8 SettlementSignature = 4"

lemma role_u8_inject [simp]: "role_u8 r = role_u8 r' \<longleftrightarrow> r = r'"
  by (cases r; cases r') simp_all

instantiation ServiceRole :: linorder
begin

definition less_eq_ServiceRole :: "ServiceRole \<Rightarrow> ServiceRole \<Rightarrow> bool" where
  "less_eq_ServiceRole r r' \<longleftrightarrow> role_u8 r \<le> role_u8 r'"

definition less_ServiceRole :: "ServiceRole \<Rightarrow> ServiceRole \<Rightarrow> bool" where
  "less_ServiceRole r r' \<longleftrightarrow> role_u8 r < role_u8 r'"

instance
  by standard (auto simp: less_eq_ServiceRole_def less_ServiceRole_def order.strict_iff_order)

end

record ServiceCreditPolicy =
  sp_maximum_per_event :: "(ServiceRole, U512) btmap"
  sp_maximum_per_role_per_snapshot :: "(ServiceRole, U512) btmap"

record ServiceCreditEvent =
  ev_protocol_version :: u16
  ev_network_id :: u8
  ev_role :: ServiceRole
  ev_subject_id :: hash256
  ev_beneficiary_bucket_id :: hash256
  ev_observed_height :: u32
  ev_credit :: U512

record ServiceCreditLedger =
  lg_observed_actions :: "hash256 set"
  lg_totals_by_role :: "(ServiceRole, nat) btmap"
  lg_credits :: "BucketCredit list"

definition ServiceCreditLedger_default :: ServiceCreditLedger where
  "ServiceCreditLedger_default = \<lparr>lg_observed_actions = {}, lg_totals_by_role = [], lg_credits = []\<rparr>"

definition event_id :: "(bytes \<Rightarrow> hash256) \<Rightarrow> ServiceCreditEvent \<Rightarrow> hash256" where
  "event_id H event = domain_hash H SERVICE_CREDIT_DOMAIN (enc_u16 (ev_protocol_version event) @
     enc_u8 (ev_network_id event) @ enc_u8 (role_u8 (ev_role event)) @ enc_fixed (ev_subject_id event) @
     enc_fixed (ev_beneficiary_bucket_id event) @ enc_u32 (ev_observed_height event) @
     enc_fixed (ev_credit event))"

definition action_id :: "(bytes \<Rightarrow> hash256) \<Rightarrow> ServiceCreditEvent \<Rightarrow> hash256" where
  "action_id H event = domain_hash H SERVICE_ACTION_DOMAIN (enc_u16 (ev_protocol_version event) @
     enc_u8 (ev_network_id event) @ enc_u8 (role_u8 (ev_role event)) @ enc_fixed (ev_subject_id event))"

definition certify ::
  "(bytes \<Rightarrow> hash256) \<Rightarrow> ServiceCreditPolicy \<Rightarrow> ServiceCreditEvent \<Rightarrow> PayoutBucketV2 \<Rightarrow> ServiceCreditLedger \<Rightarrow>
   SettlementError + ServiceCreditLedger" where
  "certify H policy event bucket ledger =
     (if ev_protocol_version event \<noteq> 2 \<or> ev_network_id event \<noteq> pb_network_id bucket
         \<or> ev_beneficiary_bucket_id event \<noteq> object_id_PayoutBucketV2 H bucket
         \<or> ev_subject_id event = replicate 32 0
      then Inl ConflictingBucketMetadata
      else
        let action = action_id H event; role = ev_role event; amount = from_be (ev_credit event)
        in if amount = 0 then Inl ZeroServiceCredit
           else
           res_bind (ok_or MissingServiceCreditCap (map_option from_be
             (bt_get (sp_maximum_per_event policy) role))) (\<lambda>per_event.
           res_bind (ok_or MissingServiceCreditCap (map_option from_be
             (bt_get (sp_maximum_per_role_per_snapshot policy) role))) (\<lambda>per_snapshot.
           if amount > per_event then Inl ServiceEventCap
           else if action \<in> lg_observed_actions ledger then Inl DuplicateServiceEvent
           else
             let next_total = (case bt_get (lg_totals_by_role ledger) role of None \<Rightarrow> 0 | Some t \<Rightarrow> t) + amount
             in if next_total > per_snapshot then Inl ServiceRoleCap
                else Inr \<lparr>lg_observed_actions = insert action (lg_observed_actions ledger),
                  lg_totals_by_role = bt_insert role next_total (lg_totals_by_role ledger),
                  lg_credits = lg_credits ledger @ [\<lparr>bk_bucket = bucket, bk_credit = ev_credit event\<rparr>]\<rparr>)))"

definition into_credits :: "ServiceCreditLedger \<Rightarrow> BucketCredit list" where
  "into_credits ledger = lg_credits ledger"

section \<open>Bootstrap\<close>

record BootstrapPayoutPolicy =
  bp_final_bootstrap_height :: u32
  bp_first_normal_height :: u32
  bp_first_normal_session_close_id :: hash256
  bp_bootstrap_allocation_commitment :: hash256

datatype PayoutMode = Bootstrap hash256 | Normal

definition payout_mode :: "BootstrapPayoutPolicy \<Rightarrow> u32 \<Rightarrow> hash256 option \<Rightarrow> SettlementError + PayoutMode" where
  "payout_mode policy candidate_height first_finalized_session_close_id =
     (if bp_first_normal_height policy \<noteq> saturating_add (bp_final_bootstrap_height policy) 1
      then Inl InvalidBootstrapTransition
      else if candidate_height \<le> bp_final_bootstrap_height policy
      then Inr (Bootstrap (bp_bootstrap_allocation_commitment policy))
      else if first_finalized_session_close_id \<noteq> Some (bp_first_normal_session_close_id policy)
      then Inl NormalSnapshotUnavailable
      else Inr Normal)"

section \<open>The ledger\<close>

text \<open>The ledgers that certifying events under one policy can produce, with the events certified.\<close>

inductive ledger_reachable ::
  "(bytes \<Rightarrow> hash256) \<Rightarrow> ServiceCreditPolicy \<Rightarrow> ServiceCreditLedger \<Rightarrow> (ServiceCreditEvent \<times> PayoutBucketV2) list \<Rightarrow> bool"
  for H policy where
  ledger_start: "ledger_reachable H policy ServiceCreditLedger_default []"
| ledger_certify: "ledger_reachable H policy ledger events \<Longrightarrow> certify H policy event bucket ledger = Inr ledger' \<Longrightarrow>
    ledger_reachable H policy ledger' (events @ [(event, bucket)])"

definition role_credit :: "(ServiceCreditEvent \<times> PayoutBucketV2) list \<Rightarrow> ServiceRole \<Rightarrow> nat" where
  "role_credit events role = (\<Sum>(event, _) \<leftarrow> events. if ev_role event = role then from_be (ev_credit event) else 0)"

definition role_total :: "ServiceCreditLedger \<Rightarrow> ServiceRole \<Rightarrow> nat" where
  "role_total ledger role = (case bt_get (lg_totals_by_role ledger) role of None \<Rightarrow> 0 | Some t \<Rightarrow> t)"

definition role_cap :: "(ServiceRole, U512) btmap \<Rightarrow> ServiceRole \<Rightarrow> nat" where
  "role_cap caps role = (case bt_get caps role of None \<Rightarrow> 0 | Some cap \<Rightarrow> from_be cap)"

definition ledger_inv ::
  "(bytes \<Rightarrow> hash256) \<Rightarrow> ServiceCreditPolicy \<Rightarrow> ServiceCreditLedger \<Rightarrow> (ServiceCreditEvent \<times> PayoutBucketV2) list \<Rightarrow> bool" where
  "ledger_inv H policy ledger events \<longleftrightarrow>
     bt_wf (lg_totals_by_role ledger) \<and>
     lg_observed_actions ledger = set (map (\<lambda>(event, _). action_id H event) events) \<and>
     distinct (map (\<lambda>(event, _). action_id H event) events) \<and>
     (\<forall>role. role_total ledger role = role_credit events role \<and>
       role_credit events role \<le> role_cap (sp_maximum_per_role_per_snapshot policy) role) \<and>
     into_credits ledger = map (\<lambda>(event, bucket). \<lparr>bk_bucket = bucket, bk_credit = ev_credit event\<rparr>) events \<and>
     (\<forall>(event, bucket) \<in> set events. ev_beneficiary_bucket_id event = object_id_PayoutBucketV2 H bucket \<and>
       0 < from_be (ev_credit event) \<and>
       from_be (ev_credit event) \<le> role_cap (sp_maximum_per_event policy) (ev_role event))"

lemma certify_cases:
  assumes "certify H policy event bucket ledger = Inr ledger'"
  shows "ev_beneficiary_bucket_id event = object_id_PayoutBucketV2 H bucket \<and> 0 < from_be (ev_credit event) \<and>
    from_be (ev_credit event) \<le> role_cap (sp_maximum_per_event policy) (ev_role event) \<and>
    action_id H event \<notin> lg_observed_actions ledger \<and>
    role_total ledger (ev_role event) + from_be (ev_credit event) \<le>
      role_cap (sp_maximum_per_role_per_snapshot policy) (ev_role event) \<and>
    ledger' = \<lparr>lg_observed_actions = insert (action_id H event) (lg_observed_actions ledger),
      lg_totals_by_role = bt_insert (ev_role event)
        (role_total ledger (ev_role event) + from_be (ev_credit event)) (lg_totals_by_role ledger),
      lg_credits = lg_credits ledger @ [\<lparr>bk_bucket = bucket, bk_credit = ev_credit event\<rparr>]\<rparr>"
  using assms unfolding certify_def Let_def role_total_def [symmetric]
  by (auto simp: res_simps role_cap_def split: if_splits)

lemma ledger_reachable_inv: "ledger_reachable H policy ledger events \<Longrightarrow> ledger_inv H policy ledger events"
proof (induction rule: ledger_reachable.induct)
  case ledger_start
  then show ?case
    by (simp add: ledger_inv_def ServiceCreditLedger_default_def role_total_def role_credit_def into_credits_def)
next
  case (ledger_certify ledger events event bucket ledger')
  note step = certify_cases [OF ledger_certify.hyps(2)]
  have wf: "bt_wf (lg_totals_by_role ledger)" using ledger_certify.IH by (simp add: ledger_inv_def)
  have total': "role_total ledger' role = (if role = ev_role event then role_total ledger role + from_be (ev_credit event)
      else role_total ledger role)" for role
    using step by (simp add: role_total_def bt_get_insert [OF wf])
  have credit': "role_credit (events @ [(event, bucket)]) role =
      (if role = ev_role event then role_credit events role + from_be (ev_credit event) else role_credit events role)" for role
    by (simp add: role_credit_def)
  have IH: "role_total ledger role = role_credit events role"
    "role_credit events role \<le> role_cap (sp_maximum_per_role_per_snapshot policy) role" for role
    using ledger_certify.IH unfolding ledger_inv_def by blast+
  have "\<forall>role. role_total ledger' role = role_credit (events @ [(event, bucket)]) role \<and>
      role_credit (events @ [(event, bucket)]) role \<le> role_cap (sp_maximum_per_role_per_snapshot policy) role"
    using step IH unfolding total' credit' by simp
  moreover have "bt_wf (lg_totals_by_role ledger')" using step bt_wf_insert [OF wf] by simp
  moreover have "lg_observed_actions ledger' = insert (action_id H event) (lg_observed_actions ledger)"
    "into_credits ledger' = into_credits ledger @ [\<lparr>bk_bucket = bucket, bk_credit = ev_credit event\<rparr>]"
    using step by (simp_all add: into_credits_def)
  moreover have "action_id H event \<notin> lg_observed_actions ledger" using step by blast
  moreover have "ev_beneficiary_bucket_id event = object_id_PayoutBucketV2 H bucket \<and> 0 < from_be (ev_credit event) \<and>
      from_be (ev_credit event) \<le> role_cap (sp_maximum_per_event policy) (ev_role event)" using step by blast
  ultimately show ?case
    using ledger_certify.IH unfolding ledger_inv_def by (simp add: ball_Un)
qed

text \<open>
  C32: service credit is capped and paid once. In every ledger reached under a policy each role's total is the
  sum of the credits of its certified events and stays within the role's cap, every event is positive
  and within its own cap, no two events share network, role and subject, and the credits handed to
  settlement are exactly those of the events, each for the bucket the event names.
\<close>

theorem service_credit_capped:
  assumes "ledger_reachable H policy ledger events"
  shows "(\<forall>role. role_total ledger role = role_credit events role \<and>
      role_credit events role \<le> role_cap (sp_maximum_per_role_per_snapshot policy) role) \<and>
    (\<forall>(event, bucket) \<in> set events. 0 < from_be (ev_credit event) \<and>
      from_be (ev_credit event) \<le> role_cap (sp_maximum_per_event policy) (ev_role event) \<and>
      ev_beneficiary_bucket_id event = object_id_PayoutBucketV2 H bucket) \<and>
    distinct (map (\<lambda>(event, _). (ev_protocol_version event, ev_network_id event, ev_role event, ev_subject_id event)) events) \<and>
    into_credits ledger = map (\<lambda>(event, bucket). \<lparr>bk_bucket = bucket, bk_credit = ev_credit event\<rparr>) events"
proof -
  have inv: "ledger_inv H policy ledger events" using assms by (rule ledger_reachable_inv)
  let ?key = "\<lambda>(event, _ :: PayoutBucketV2). (ev_protocol_version event, ev_network_id event, ev_role event, ev_subject_id event)"
  let ?hash = "\<lambda>(v, n, r, s). domain_hash H SERVICE_ACTION_DOMAIN (enc_u16 v @ enc_u8 n @ enc_u8 (role_u8 r) @ enc_fixed s)"
  have "map (\<lambda>(event, _). action_id H event) events = map ?hash (map ?key events)"
    by (simp add: action_id_def case_prod_beta comp_def)
  moreover have "distinct (map (\<lambda>(event, _). action_id H event) events)" using inv by (simp add: ledger_inv_def)
  ultimately have "distinct (map ?hash (map ?key events))" by (simp only:)
  then have "distinct (map ?key events)" by (simp only: distinct_map [of ?hash])
  moreover have "role_total ledger role = role_credit events role \<and>
      role_credit events role \<le> role_cap (sp_maximum_per_role_per_snapshot policy) role" for role
    using inv unfolding ledger_inv_def by blast
  moreover have "\<forall>(event, bucket) \<in> set events. 0 < from_be (ev_credit event) \<and>
      from_be (ev_credit event) \<le> role_cap (sp_maximum_per_event policy) (ev_role event) \<and>
      ev_beneficiary_bucket_id event = object_id_PayoutBucketV2 H bucket"
    using inv unfolding ledger_inv_def by blast
  ultimately show ?thesis using inv unfolding ledger_inv_def by blast
qed

section \<open>What a snapshot contains\<close>

definition credited :: "(bytes \<Rightarrow> hash256) \<Rightarrow> BucketCredit list \<Rightarrow> hash256 \<Rightarrow> nat" where
  "credited H credits i =
     (\<Sum>c \<leftarrow> credits. if object_id_PayoutBucketV2 H (bk_bucket c) = i then from_be (bk_credit c) else 0)"

definition bucket_ids :: "(bytes \<Rightarrow> hash256) \<Rightarrow> BucketCredit list \<Rightarrow> hash256 set" where
  "bucket_ids H credits = (\<lambda>c. object_id_PayoutBucketV2 H (bk_bucket c)) ` set credits"

definition credits_merged :: "(bytes \<Rightarrow> hash256) \<Rightarrow> BucketCredit list \<Rightarrow> credit_map \<Rightarrow> bool" where
  "credits_merged H credits m \<longleftrightarrow> bt_wf m \<and> dom (bt_get m) = bucket_ids H credits \<and>
     (\<forall>i b t. bt_get m i = Some (b, t) \<longrightarrow> t = credited H credits i) \<and>
     sum_list (map snd (map snd m)) = sum_credits credits"

lemma credited_outside: "i \<notin> bucket_ids H credits \<Longrightarrow> credited H credits i = 0"
  unfolding credited_def bucket_ids_def by (intro sum_list_0 [THEN subst] arg_cong [where f = sum_list]) (induction credits; auto)

lemma merge_credit_step:
  assumes "credits_merged H credits m" and "merge_credit H m c = Inr m'"
  shows "credits_merged H (credits @ [c]) m'"
proof -
  let ?i = "object_id_PayoutBucketV2 H (bk_bucket c)"
  define prev where "prev = bt_get m ?i"
  define old where "old = (case prev of None \<Rightarrow> 0 | Some (b, t) \<Rightarrow> t)"
  have wf: "bt_wf m" and dom: "dom (bt_get m) = bucket_ids H credits"
    and tot: "\<And>i b t. bt_get m i = Some (b, t) \<Longrightarrow> t = credited H credits i"
    and sum: "sum_list (map snd (map snd m)) = sum_credits credits"
    using assms(1) unfolding credits_merged_def by blast+
  obtain b where m': "m' = bt_insert ?i (b, old + from_be (bk_credit c)) m"
    using assms(2) by (auto simp: merge_credit_def Let_def old_def prev_def split: option.splits if_splits)
  have old: "old = credited H credits ?i"
  proof (cases prev)
    case None
    then have "?i \<notin> bucket_ids H credits" using dom by (auto simp: prev_def)
    then show ?thesis using None by (simp add: old_def credited_outside)
  next
    case (Some e)
    then show ?thesis using tot [of ?i "fst e" "snd e"] by (cases e) (simp add: old_def prev_def)
  qed
  have "bt_wf m'" using bt_wf_insert [OF wf] by (simp add: m')
  moreover have "dom (bt_get m') = bucket_ids H (credits @ [c])"
    using dom by (auto simp: m' bt_get_insert [OF wf] bucket_ids_def)
  moreover have "t = credited H (credits @ [c]) i" if "bt_get m' i = Some (b', t)" for i b' t
    using that tot [of i b' t] old by (auto simp: m' bt_get_insert [OF wf] credited_def split: if_splits)
  moreover have "sum_list (map snd (map snd m')) = sum_credits (credits @ [c])"
    using sum_bt_insert [OF wf, where f = snd and k = ?i and v = "(b, old + from_be (bk_credit c))"] sum
    by (simp add: m' sum_credits_def old_def prev_def split: option.splits prod.splits)
  ultimately show ?thesis unfolding credits_merged_def by blast
qed

lemma merge_credits:
  assumes "res_foldM (merge_credit H) m credits' = Inr m'" and "credits_merged H credits m"
  shows "credits_merged H (credits @ credits') m'"
  using assms
proof (induction credits' arbitrary: credits m)
  case (Cons c cs)
  then obtain mid where "merge_credit H m c = Inr mid" "res_foldM (merge_credit H) mid cs = Inr m'"
    by (auto simp: res_simps)
  with Cons.IH [of mid "credits @ [c]"] merge_credit_step [OF Cons.prems(2)] show ?case by simp
qed simp

lemma merge_credits_Nil: "credits_merged H [] []"
  by (simp add: credits_merged_def bucket_ids_def sum_credits_def)

text \<open>Reading the entries of a merged map as leaves.\<close>

lemma merged_leaves:
  assumes "credits_merged H credits m" and "map f leaves = map (\<lambda>(i, b, t). (i, t)) m"
  shows "sorted_wrt (<) (map (\<lambda>l. fst (f l)) leaves) \<and>
    set (map (\<lambda>l. fst (f l)) leaves) = bucket_ids H credits \<and>
    (\<forall>l \<in> set leaves. snd (f l) = credited H credits (fst (f l))) \<and>
    (\<Sum>l \<leftarrow> leaves. snd (f l)) = sum_credits credits"
proof -
  have ids: "map (\<lambda>l. fst (f l)) leaves = map fst m"
    using arg_cong [OF assms(2), of "map fst"] by (simp add: comp_def case_prod_beta)
  have amounts: "map (\<lambda>l. snd (f l)) leaves = map snd (map snd m)"
    using arg_cong [OF assms(2), of "map snd"] by (simp add: comp_def case_prod_beta)
  have wf: "bt_wf m" and dom: "dom (bt_get m) = bucket_ids H credits"
    and tot: "\<And>i b t. bt_get m i = Some (b, t) \<Longrightarrow> t = credited H credits i"
    and sum: "sum_list (map snd (map snd m)) = sum_credits credits"
    using assms(1) unfolding credits_merged_def by blast+
  have "snd (f l) = credited H credits (fst (f l))" if "l \<in> set leaves" for l
  proof -
    have "f l \<in> set (map (\<lambda>(i, b, t). (i, t)) m)" using that assms(2) by (metis image_eqI list.set_map)
    then obtain i b t where "(i, b, t) \<in> set m" "f l = (i, t)" by auto
    then show ?thesis using tot wf by (simp add: bt_get_iff)
  qed
  moreover have "set (map fst m) = bucket_ids H credits"
    using dom dom_map_of_conv_image_fst [of m] by (simp add: bt_get_def [abs_def])
  ultimately show ?thesis using ids amounts sum wf by (simp add: bt_wf_def)
qed

lemma aggregate_work_merged:
  assumes "aggregate_work H sessions = Inr leaves"
  shows "sorted_wrt (<) (map wb_bucket_id leaves) \<and>
    set (map wb_bucket_id leaves) = bucket_ids H (concat (map cs_work sessions)) \<and>
    (\<forall>l \<in> set leaves. from_be (wb_credited_work l) = credited H (concat (map cs_work sessions)) (wb_bucket_id l)) \<and>
    (\<Sum>l \<leftarrow> leaves. from_be (wb_credited_work l)) = sum_credits (concat (map cs_work sessions))"
proof -
  from assms obtain m where m: "res_foldM (merge_credit H) [] (concat (map cs_work sessions)) = Inr m"
    and leaves: "list_all2 (\<lambda>e l. (case e of (bucket_id, bucket, credit) \<Rightarrow> res_bind (big_to_u512 credit) (\<lambda>amount.
       Inr \<lparr>wb_bucket_id = bucket_id, wb_operator_pubkey = pb_operator_pubkey bucket,
         wb_hns_address_version = pb_hns_address_version bucket,
         wb_hns_address_hash = pb_hns_address_hash bucket, wb_credited_work = amount\<rparr>)) = Inr l) m leaves"
    unfolding aggregate_work_def res_bind_Inr_iff res_mapM_Inr_iff by blast
  have "map (\<lambda>l. (wb_bucket_id l, from_be (wb_credited_work l))) leaves = map (\<lambda>(i, b, t). (i, t)) m"
    using leaves
    by (induction rule: list_all2_induct) (auto simp: from_be_be_pad big_to_u512_eq split: if_splits)
  from merged_leaves [OF _ this] merge_credits [OF m merge_credits_Nil] show ?thesis by simp
qed

lemma aggregate_service_merged:
  assumes "aggregate_service H sessions = Inr leaves"
  shows "sorted_wrt (<) (map sb_bucket_id leaves) \<and>
    set (map sb_bucket_id leaves) = bucket_ids H (concat (map cs_service sessions)) \<and>
    (\<forall>l \<in> set leaves. from_be (sb_certified_service_credit l) =
      credited H (concat (map cs_service sessions)) (sb_bucket_id l)) \<and>
    (\<Sum>l \<leftarrow> leaves. from_be (sb_certified_service_credit l)) = sum_credits (concat (map cs_service sessions))"
proof -
  from assms obtain m where m: "res_foldM (merge_credit H) [] (concat (map cs_service sessions)) = Inr m"
    and leaves: "list_all2 (\<lambda>e l. (case e of (bucket_id, bucket, credit) \<Rightarrow> res_bind (big_to_u512 credit) (\<lambda>amount.
       Inr \<lparr>sb_bucket_id = bucket_id, sb_operator_pubkey = pb_operator_pubkey bucket,
         sb_hns_address_version = pb_hns_address_version bucket,
         sb_hns_address_hash = pb_hns_address_hash bucket, sb_certified_service_credit = amount\<rparr>)) = Inr l) m leaves"
    unfolding aggregate_service_def res_bind_Inr_iff res_mapM_Inr_iff by blast
  have "map (\<lambda>l. (sb_bucket_id l, from_be (sb_certified_service_credit l))) leaves = map (\<lambda>(i, b, t). (i, t)) m"
    using leaves
    by (induction rule: list_all2_induct) (auto simp: from_be_be_pad big_to_u512_eq split: if_splits)
  from merged_leaves [OF _ this] merge_credits [OF m merge_credits_Nil] show ?thesis by simp
qed

lemma sum_credits_concat: "sum_credits (concat (map cs_work sessions)) = window_total sessions"
  by (induction sessions) (simp_all add: sum_credits_def)

text \<open>The selected sessions: the shortest suffix that fills the window, or everything.\<close>

lemma select_recent_take:
  assumes "w < window" and "ys \<noteq> []" and "select_recent window w ys = (sel, w')"
  shows "\<exists>n. sel = take (Suc n) ys \<and> n < length ys \<and> w' = w + window_total (take (Suc n) ys) \<and>
    w + window_total (take n ys) < window \<and> (window \<le> w' \<or> Suc n = length ys)"
  using assms
proof (induction ys arbitrary: w sel)
  case (Cons y ys)
  let ?w = "w + session_work y"
  consider "window \<le> ?w" | "?w < window" "ys = []" | "?w < window" "ys \<noteq> []" by force
  then show ?case
  proof cases
    case 3
    then obtain sel' where sel': "select_recent window ?w ys = (sel', w')" "sel = y # sel'"
      using Cons.prems(3) by (auto simp: Let_def split: prod.splits)
    from Cons.IH [OF 3 sel'(1)] obtain n where "sel' = take (Suc n) ys" "n < length ys"
      "w' = ?w + window_total (take (Suc n) ys)" "?w + window_total (take n ys) < window"
      "window \<le> w' \<or> Suc n = length ys" by blast
    then show ?thesis using sel'(2) by (intro exI [of _ "Suc n"]) auto
  qed (use Cons.prems in \<open>auto simp: Let_def intro!: exI [of _ 0]\<close>)
qed simp

definition shortest_window :: "nat \<Rightarrow> ClosedSessionCredits list \<Rightarrow> ClosedSessionCredits list \<Rightarrow> bool" where
  "shortest_window window sessions selected \<longleftrightarrow> selected \<noteq> [] \<and>
     (\<exists>older. sessions = older @ selected \<and> (window \<le> window_total selected \<or> older = [])) \<and>
     window_total (tl selected) < window"

lemma select_recent_shortest:
  assumes "0 < window" and "xs \<noteq> []" and "select_recent window 0 (rev xs) = (recent, total_work)"
  shows "shortest_window window xs (rev recent) \<and> total_work = window_total (rev recent)"
proof -
  from select_recent_take [OF assms(1) _ assms(3)] assms(2) obtain n where
    n: "recent = take (Suc n) (rev xs)" "n < length xs" "total_work = window_total (take (Suc n) (rev xs))"
    "window_total (take n (rev xs)) < window" "window \<le> total_work \<or> Suc n = length xs" by auto
  let ?k = "length xs - Suc n"
  have rev: "rev recent = drop ?k xs" using n by (simp add: take_rev)
  have "take n (rev xs) = rev (drop (Suc ?k) xs)" using n by (simp add: take_rev Suc_diff_Suc)
  then have "window_total (tl (drop ?k xs)) < window" using n(4) by (simp add: tl_drop drop_Suc)
  moreover have "xs = take ?k xs @ drop ?k xs" by simp
  moreover have "window \<le> window_total (drop ?k xs) \<or> take ?k xs = []"
    using n by (auto simp: rev [symmetric])
  ultimately show ?thesis
    unfolding shortest_window_def rev using n by (auto simp: rev [symmetric])
qed

lemma build_snapshot_contents:
  assumes "0 < sa_pplns_window_work acc" and "sessions \<noteq> []"
    and "build_snapshot H acc sessions signers = Inr snap"
  obtains selected where "shortest_window (sa_pplns_window_work acc) sessions selected"
    "from_be (ps_actual_work_in_window snap) = window_total selected"
    "aggregate_work H selected = Inr (ps_work_buckets snap)"
    "aggregate_service H selected = Inr (ps_service_buckets snap)"
    "ps_share_set_root snap = merkle_root H (map cs_session_close_id selected)"
    "ps_last_session_close_id snap = cs_session_close_id (last sessions)"
    "ps_close_anchor_height snap = cs_close_anchor_height (last sessions)"
    "ps_snapshot_sequence snap = sa_next_sequence acc"
    "ps_previous_snapshot_id snap = sa_previous_snapshot_id acc"
proof -
  obtain recent total_work where recent: "select_recent (sa_pplns_window_work acc) 0 (rev sessions) = (recent, total_work)"
    by force
  note shortest = select_recent_shortest [OF assms(1,2) recent]
  then have last: "last (rev recent) = last sessions"
    by (auto simp: shortest_window_def)
  show ?thesis
    by (rule that [of "rev recent"])
      (use assms(3) shortest last in \<open>auto simp: build_snapshot_def recent Let_def res_simps big_to_u512_eq from_be_be_pad
        split: if_splits\<close>)
qed

text \<open>
  C7: a snapshot says what was earned. The snapshot produced when a session closes covers the shortest run of
  most recent sessions that fills the work window (or all retained ones); its work buckets are sorted,
  are exactly the buckets credited in those sessions, each with the sum of its credits, and add up to the
  recorded work of the window; its service buckets likewise; it commits to the covered sessions and to
  the previous snapshot.
\<close>

theorem snapshot_contents:
  assumes "acc_inv sz acc" and "add_closed_session H sz acc s signers = Some (Inr (acc', Some snap))"
  shows "\<exists>selected. shortest_window (sa_pplns_window_work acc) (sa_closed_sessions acc @ [s]) selected \<and>
    from_be (ps_actual_work_in_window snap) = window_total selected \<and>
    (\<Sum>l \<leftarrow> ps_work_buckets snap. from_be (wb_credited_work l)) = window_total selected \<and>
    sorted_wrt (<) (map wb_bucket_id (ps_work_buckets snap)) \<and>
    set (map wb_bucket_id (ps_work_buckets snap)) = bucket_ids H (concat (map cs_work selected)) \<and>
    (\<forall>l \<in> set (ps_work_buckets snap).
      from_be (wb_credited_work l) = credited H (concat (map cs_work selected)) (wb_bucket_id l)) \<and>
    sorted_wrt (<) (map sb_bucket_id (ps_service_buckets snap)) \<and>
    set (map sb_bucket_id (ps_service_buckets snap)) = bucket_ids H (concat (map cs_service selected)) \<and>
    (\<forall>l \<in> set (ps_service_buckets snap).
      from_be (sb_certified_service_credit l) = credited H (concat (map cs_service selected)) (sb_bucket_id l)) \<and>
    ps_share_set_root snap = merkle_root H (map cs_session_close_id selected) \<and>
    ps_last_session_close_id snap = cs_session_close_id s \<and>
    ps_snapshot_sequence snap = sa_next_sequence acc \<and>
    ps_previous_snapshot_id snap = sa_previous_snapshot_id acc \<and>
    sa_previous_snapshot_id acc' = object_id_PayoutSnapshotV2 H snap"
proof -
  have counters: "counters_exact sz acc" and window: "0 < sa_pplns_window_work acc" using assms(1) by (simp_all add: acc_inv_def)
  have built: "build_snapshot H acc (sa_closed_sessions acc @ [s]) signers = Inr snap \<and>
      sa_previous_snapshot_id acc' = object_id_PayoutSnapshotV2 H snap"
    by (rule add_closed_session_cases [OF counters window assms(2)]) simp
  obtain selected where "shortest_window (sa_pplns_window_work acc) (sa_closed_sessions acc @ [s]) selected"
    "from_be (ps_actual_work_in_window snap) = window_total selected"
    and work: "aggregate_work H selected = Inr (ps_work_buckets snap)"
    and service: "aggregate_service H selected = Inr (ps_service_buckets snap)"
    and "ps_share_set_root snap = merkle_root H (map cs_session_close_id selected)"
    "ps_last_session_close_id snap = cs_session_close_id s"
    "ps_snapshot_sequence snap = sa_next_sequence acc" "ps_previous_snapshot_id snap = sa_previous_snapshot_id acc"
    using build_snapshot_contents [OF window _ conjunct1 [OF built]] by auto
  then show ?thesis
    using aggregate_work_merged [OF work] aggregate_service_merged [OF service] built
    by (intro exI [of _ selected]) (simp add: sum_credits_concat)
qed

section \<open>Examples\<close>

lemma example_acc_inv: "acc_inv 200 example_accumulator"
  by (rule new_with_limits_inv [OF _ _ example_usable example_new]) simp_all

lemma example_two_sessions:
  "\<exists>acc1 acc2 snap. add_closed_session example_hash 200 example_accumulator (example_closed 1) empty_ed25519 = Some (Inr (acc1, None)) \<and>
    add_closed_session example_hash 200 acc1 (example_closed 2) empty_ed25519 = Some (Inr (acc2, Some snap))"
proof -
  obtain acc' snap where r: "example_run_result = Some (Inr (acc', [snap]))" using example_run_result by blast
  have "\<exists>acc1. add_closed_session example_hash 200 example_accumulator (example_closed 1) empty_ed25519 = Some (Inr (acc1, None))"
    by (simp add: add_closed_session_def compact_session_allocations_def
        retention_projection_def session_bucket_credit_count_def session_payload_bytes_def usize_checked_add_def
        usize_checked_mul_def usize_max_def example_closed_def example_credit_def sum_credits_def
        ensure_projection_within_limits_def ensure_retention_limits_def example_defs)
  then obtain acc1 where a: "add_closed_session example_hash 200 example_accumulator (example_closed 1) empty_ed25519 = Some (Inr (acc1, None))" ..
  with r show ?thesis by (auto simp: example_run_result_def res_simps split: option.splits prod.splits)
qed

theorem snapshot_contents_witness:
  "\<exists>acc1 acc2 snap selected.
    add_closed_session example_hash 200 acc1 (example_closed 2) empty_ed25519 = Some (Inr (acc2, Some snap)) \<and>
    shortest_window (sa_pplns_window_work acc1) (sa_closed_sessions acc1 @ [example_closed 2]) selected \<and>
    from_be (ps_actual_work_in_window snap) = window_total selected"
proof -
  from example_two_sessions obtain acc1 acc2 snap where
    first: "add_closed_session example_hash 200 example_accumulator (example_closed 1) empty_ed25519 = Some (Inr (acc1, None))"
    and second: "add_closed_session example_hash 200 acc1 (example_closed 2) empty_ed25519 = Some (Inr (acc2, Some snap))" by blast
  have "acc_inv 200 acc1" using example_acc_inv first by (rule add_closed_session_inv)
  from snapshot_contents [OF this second] second show ?thesis by blast
qed

definition example_policy :: ServiceCreditPolicy where
  "example_policy = \<lparr>sp_maximum_per_event = [(MaskOpening, replicate 63 0 @ [9])],
     sp_maximum_per_role_per_snapshot = [(MaskOpening, replicate 63 0 @ [12])]\<rparr>"

definition example_event :: "u8 \<Rightarrow> ServiceCreditEvent" where
  "example_event i = \<lparr>ev_protocol_version = 2, ev_network_id = 0, ev_role = MaskOpening, ev_subject_id = replicate 32 i,
     ev_beneficiary_bucket_id = object_id_PayoutBucketV2 example_hash (bk_bucket (example_credit 1 5)),
     ev_observed_height = 7, ev_credit = replicate 63 0 @ [8]\<rparr>"

theorem service_credit_capped_witness:
  "\<exists>ledger. ledger_reachable example_hash example_policy ledger [(example_event 3, bk_bucket (example_credit 1 5))] \<and>
    role_total ledger MaskOpening = 8 \<and>
    certify example_hash example_policy (example_event 4) (bk_bucket (example_credit 1 5)) ledger = Inl ServiceRoleCap"
proof -
  have "case certify example_hash example_policy (example_event 3) (bk_bucket (example_credit 1 5))
      ServiceCreditLedger_default of Inl _ \<Rightarrow> False | Inr ledger \<Rightarrow>
      certify example_hash example_policy (example_event 4) (bk_bucket (example_credit 1 5)) ledger = Inl ServiceRoleCap"
    by code_simp
  then obtain ledger where l: "certify example_hash example_policy (example_event 3) (bk_bucket (example_credit 1 5))
      ServiceCreditLedger_default = Inr ledger"
    and full: "certify example_hash example_policy (example_event 4) (bk_bucket (example_credit 1 5)) ledger = Inl ServiceRoleCap"
    by (auto split: sum.splits)
  have reach: "ledger_reachable example_hash example_policy ledger [(example_event 3, bk_bucket (example_credit 1 5))]"
    using ledger_certify [OF ledger_start l] by simp
  from service_credit_capped [OF reach] have "role_total ledger MaskOpening = 8"
    by (simp add: role_credit_def example_event_def)
  with reach full show ?thesis by blast
qed

end
