(* ===== verification/Settlement_Durable.thy ===== *)
theory Settlement_Durable
  imports Settlement_Credits
begin

text \<open>
  The durable variants of the settlement operations, which write snapshots and plans to the protocol
  journal before they take effect (\<^verbatim>\<open>crates/meshmine-settlement/src/lib.rs\<close>). The store calls run among
  other writers that keep the journal's discipline.
\<close>

section \<open>Durable variants\<close>

text \<open>The journal's errors are embedded by \<^verbatim>\<open>SettlementError::Durable\<close>.\<close>

definition durable_err :: "(DurableInvariantError + 'a) \<times> 's \<Rightarrow> (SettlementError + 'a) \<times> 's" where
  "durable_err = (\<lambda>(r, w). (map_err Durable r, w))"

definition add_closed_session_durable ::
  "(bytes \<Rightarrow> hash256) \<Rightarrow> nat \<Rightarrow> Hex \<Rightarrow> 'st store_ops \<Rightarrow> 'st env \<Rightarrow> SnapshotAccumulator \<Rightarrow>
   ClosedSessionCredits \<Rightarrow> SignatureSet \<Rightarrow> 'st \<times> nat \<Rightarrow>
   ((SettlementError + PayoutSnapshotV2 option) \<times> SnapshotAccumulator \<times> ('st \<times> nat)) option" where
  "add_closed_session_durable H sz hx ops env self session signer_set w =
     (case add_closed_session H sz self session signer_set of
        None \<Rightarrow> None
      | Some (Inl e) \<Rightarrow> Some (Inl e, self, w)
      | Some (Inr (staged, None)) \<Rightarrow> Some (Inr None, staged, w)
      | Some (Inr (staged, Some snapshot)) \<Rightarrow>
          (case durable_err (persist hx ops env PayoutSnapshot (object_id_PayoutSnapshotV2 H snapshot)
              (encode_PayoutSnapshotV2 snapshot) w) of
             (Inl e, w) \<Rightarrow> Some (Inl e, self, w)
           | (Inr _, w) \<Rightarrow> Some (Inr (Some snapshot), staged, w)))"

definition build_payout_plan_durable ::
  "Hashes \<Rightarrow> Hex \<Rightarrow> 'st store_ops \<Rightarrow> 'st env \<Rightarrow> PayoutSnapshotV2 \<Rightarrow> u32 \<Rightarrow> hash256 list \<Rightarrow> hash256 \<Rightarrow>
   PayoutProfile \<Rightarrow> SignatureSet \<Rightarrow> 'st \<times> nat \<Rightarrow> (SettlementError + PayoutPlanV2) \<times> ('st \<times> nat)" where
  "build_payout_plan_durable hs hx ops env snapshot entropy_anchor_start entropy_hashes prior_beacon
       profile signer_set w =
     (case build_payout_plan hs snapshot entropy_anchor_start entropy_hashes prior_beacon profile signer_set of
        Inl e \<Rightarrow> (Inl e, w)
      | Inr plan \<Rightarrow>
          (case durable_err (persist hx ops env PayoutPlan (object_id_PayoutPlanV2 (hash_blake2b_256 hs) plan)
              (encode_PayoutPlanV2 plan) w) of
             (Inl e, w) \<Rightarrow> (Inl e, w)
           | (Inr _, w) \<Rightarrow> (Inr plan, w)))"

section \<open>One record\<close>

text \<open>Persisting one record without conditions either leaves it in the journal or finds other bytes there.\<close>

lemma persist_memory:
  assumes "env_disciplined mem_live ms_view env" "mem_live st" "hex_ok hx"
    and "persist hx memory_ops env kind key v (st, n) = (r, (st', n'))"
  shows "mem_live st' \<and> journal_le (ms_view st) (ms_view st') \<and>
    (case r of Inr _ \<Rightarrow> journal_load hx memory_ops st' kind key = Inr (Some v)
     | Inl e \<Rightarrow> env_only env (st, n) (st', n') \<and> e = ImmutableConflict \<and>
         (\<exists>u. u \<noteq> v \<and> journal_load hx memory_ops st' kind key = Inr (Some u)))"
proof -
  let ?q = "JournalBatchRecord_new kind key v"
  let ?p = "prepared_record hx ?q"
  obtain out w' where run: "persist_records_with_conditions_and_batch hx memory_ops env [?q] [] [] (st, n) = (out, w')"
    by (rule prod.exhaust)
  have valid: "invalid_request hx [?q] [] [] = None" by (simp add: invalid_request_def)
  have "store_failure memory_ops mem_live (map (prepared_record hx) [?q]) [] [] = (\<lambda>e. False)"
    using memory_never_fails [OF assms(3), of "[]" "[]" "[?q]"] by (simp add: fun_eq_iff)
  then have sound: "rounds_outcome mem_live (\<lambda>e. False) ms_view env [?p] [] [] (st, n) out w'"
    using live.persist_records_sound [OF assms(1) _ run valid] assms(2) by (simp del: split_paired_Ex)
  have live': "mem_live (fst w')" using live.persist_records_inv [OF assms(1) _ run] assms(2) by simp
  have le: "journal_le (ms_view st) (ms_view (fst w'))"
    using live.persist_records_guarantee [OF assms(1) _ run] assms(2) by simp
  have w': "w' = (st', n')" and r: "r = (case out of Inl e \<Rightarrow> Inl e | Inr PreconditionMismatch \<Rightarrow> Inl ImmutableConflict
      | Inr _ \<Rightarrow> Inr ())"
    using assms(4) run
    by (auto simp: persist_def persist_with_batch_def persist_with_conditions_and_batch_def act_bind_def
        act_return_def act_err_def split: sum.splits JournalBatchOutcome.splits)
  have load: "journal_load hx memory_ops st' kind key = Inr (ms_view st' (kind_namespace kind) (hex_encode hx key))"
    using load_live [OF assms(3)] live' w' by simp
  have p: "?p = (kind_namespace kind, hex_encode hx key, v)"
    by (simp add: prepared_record_def JournalBatchRecord_new_def)
  have commit: "exact_in (fold view_operation (journal_operations [?p] []) m) ?p" for m
    by (rule fold_puts_exact) (simp_all add: journal_keys_def p is_journal_namespace_def)
  have "case r of Inr _ \<Rightarrow> journal_load hx memory_ops st' kind key = Inr (Some v)
     | Inl e \<Rightarrow> env_only env (st, n) (st', n') \<and> e = ImmutableConflict \<and>
         (\<exists>u. u \<noteq> v \<and> journal_load hx memory_ops st' kind key = Inr (Some u))"
    using sound commit unfolding r load w'
    by (auto simp: rounds_outcome_def exact_in_def conflicts_in_def conditions_hold_def p
        split: sum.splits JournalBatchOutcome.splits)
  with live' le w' show ?thesis by simp
qed

lemma journal_load_mono:
  assumes "hex_ok hx" "mem_live st" "mem_live st'" "journal_le (ms_view st) (ms_view st')"
    and "journal_load hx memory_ops st kind key = Inr (Some v)"
  shows "journal_load hx memory_ops st' kind key = Inr (Some v)"
  using assms(2-5) load_live [OF assms(1)] by (auto simp: journal_le_def is_journal_namespace_def)

lemma persist_again:
  assumes "env_disciplined mem_live ms_view env" "mem_live st" "hex_ok hx"
    and "journal_load hx memory_ops st kind key = Inr (Some v)"
  shows "\<exists>w. persist hx memory_ops env kind key v (st, n) = (Inr (), w)"
proof -
  obtain r st' n' where run: "persist hx memory_ops env kind key v (st, n) = (r, (st', n'))"
    by (metis prod.exhaust)
  note out = persist_memory [OF assms(1-3) run]
  have "journal_load hx memory_ops st' kind key = Inr (Some v)"
    using out journal_load_mono [OF assms(3,2) _ _ assms(4)] by blast
  with out run show ?thesis by (cases r) auto
qed

section \<open>Snapshots\<close>

lemma add_durable_cases:
  assumes "add_closed_session H sz acc s signers = Some (Inr (staged, Some snap))"
    and "persist hx ops env PayoutSnapshot (object_id_PayoutSnapshotV2 H snap) (encode_PayoutSnapshotV2 snap) w = (r, w')"
  shows "add_closed_session_durable H sz hx ops env acc s signers w = Some
    (case r of Inl e \<Rightarrow> (Inl (Durable e), acc, w') | Inr _ \<Rightarrow> (Inr (Some snap), staged, w'))"
  using assms by (simp add: add_closed_session_durable_def durable_err_def split: sum.splits)

text \<open>A panic of the plain step is passed on; the invariant rules it out.\<close>

lemma add_durable_no_panic:
  "acc_inv sz acc \<Longrightarrow> add_closed_session_durable H sz hx ops env acc s signers w \<noteq> None"
  using add_closed_session_no_panic [of sz acc H s signers]
  by (auto simp: add_closed_session_durable_def split: option.splits sum.splits prod.splits)

text \<open>
  C8: a snapshot takes effect only once it is recorded. When the durable step reports a snapshot, the
  accumulator advanced as the plain step would and the journal holds the snapshot's encoding under its
  identifier; when it reports none, nothing was written; when it fails, the accumulator is unchanged,
  either because the plain step fails with that error or because the journal already holds other bytes
  under the identifier. Records present before are still present.
\<close>

theorem durable_snapshot_recorded:
  assumes "env_disciplined mem_live ms_view env" "mem_live st" "hex_ok hx"
    and "add_closed_session_durable H sz hx memory_ops env acc s signers (st, n) = Some (r, acc', (st', n'))"
  shows "(case r of
      Inr (Some snap) \<Rightarrow> add_closed_session H sz acc s signers = Some (Inr (acc', Some snap)) \<and>
        journal_load hx memory_ops st' PayoutSnapshot (object_id_PayoutSnapshotV2 H snap) =
          Inr (Some (encode_PayoutSnapshotV2 snap))
    | Inr None \<Rightarrow> add_closed_session H sz acc s signers = Some (Inr (acc', None)) \<and> st' = st
    | Inl e \<Rightarrow> acc' = acc \<and> (add_closed_session H sz acc s signers = Some (Inl e) \<and> st' = st \<or>
        e = Durable ImmutableConflict \<and> (\<exists>staged snap u. add_closed_session H sz acc s signers = Some (Inr (staged, Some snap)) \<and>
          u \<noteq> encode_PayoutSnapshotV2 snap \<and>
          journal_load hx memory_ops st' PayoutSnapshot (object_id_PayoutSnapshotV2 H snap) = Inr (Some u)))) \<and>
    mem_live st' \<and> journal_le (ms_view st) (ms_view st')"
proof -
  consider "add_closed_session H sz acc s signers = None"
    | e where "add_closed_session H sz acc s signers = Some (Inl e)"
    | staged where "add_closed_session H sz acc s signers = Some (Inr (staged, None))"
    | staged snap where "add_closed_session H sz acc s signers = Some (Inr (staged, Some snap))"
    by (metis option.exhaust prod.exhaust sum.exhaust)
  then show ?thesis
  proof cases
    case 4
    obtain pr st2 n2 where run: "persist hx memory_ops env PayoutSnapshot (object_id_PayoutSnapshotV2 H snap)
        (encode_PayoutSnapshotV2 snap) (st, n) = (pr, (st2, n2))" by (metis prod.exhaust)
    note out = persist_memory [OF assms(1-3) run]
    show ?thesis
      using add_durable_cases [OF 4 run] assms(4) out 4 by (cases pr) auto
  qed (use assms in \<open>auto simp: add_closed_session_durable_def journal_le_refl\<close>)
qed

text \<open>
  C31: an identical retry is idempotent. Suppose the durable step reported a snapshot but its effect on memory
  was lost, and other writers have gone on since; running the same step again from the old accumulator
  reports the same snapshot and reaches the same accumulator.
\<close>

theorem durable_retry_idempotent:
  assumes "env_disciplined mem_live ms_view env" "mem_live st" "hex_ok hx"
    and "add_closed_session_durable H sz hx memory_ops env acc s signers (st, n) = Some (Inr (Some snap), acc', (st', n'))"
    and "env_disciplined mem_live ms_view env2" "mem_live st2" "journal_le (ms_view st') (ms_view st2)"
  shows "\<exists>w. add_closed_session_durable H sz hx memory_ops env2 acc s signers (st2, m) = Some (Inr (Some snap), acc', w)"
proof -
  from assms(4) obtain w where add: "add_closed_session H sz acc s signers = Some (Inr (acc', Some snap))"
    and "persist hx memory_ops env PayoutSnapshot (object_id_PayoutSnapshotV2 H snap)
      (encode_PayoutSnapshotV2 snap) (st, n) = (Inr (), (st', n'))"
    by (auto simp: add_closed_session_durable_def durable_err_def map_err_Inr_iff split: sum.splits option.splits prod.splits)
  from persist_memory [OF assms(1-3) this(2)]
  have live: "mem_live st'" and load: "journal_load hx memory_ops st' PayoutSnapshot (object_id_PayoutSnapshotV2 H snap) =
      Inr (Some (encode_PayoutSnapshotV2 snap))" by simp_all
  then have "journal_load hx memory_ops st2 PayoutSnapshot (object_id_PayoutSnapshotV2 H snap) =
      Inr (Some (encode_PayoutSnapshotV2 snap))"
    using journal_load_mono [OF assms(3) _ assms(6,7)] by blast
  from persist_again [OF assms(5,6,3) this, of m] obtain w2 where
    "persist hx memory_ops env2 PayoutSnapshot (object_id_PayoutSnapshotV2 H snap)
      (encode_PayoutSnapshotV2 snap) (st2, m) = (Inr (), w2)" by blast
  from add_durable_cases [OF add this] show ?thesis by simp
qed

text \<open>
  C36: a plan is returned only once it is recorded, and a recorded plan verifies: the durable plan is the plan
  computed from the snapshot, the journal holds its encoding under its identifier, and it passes
  verification against the snapshot.
\<close>

theorem durable_plan_recorded:
  assumes "env_disciplined mem_live ms_view env" "mem_live st" "hex_ok hx"
    and "build_payout_plan_durable hs hx memory_ops env snapshot start hashes beacon profile signers (st, n) = (Inr plan, (st', n'))"
  shows "build_payout_plan hs snapshot start hashes beacon profile signers = Inr plan \<and>
    journal_load hx memory_ops st' PayoutPlan (object_id_PayoutPlanV2 (hash_blake2b_256 hs) plan) =
      Inr (Some (encode_PayoutPlanV2 plan)) \<and>
    journal_le (ms_view st) (ms_view st') \<and> verify_payout_plan hs snapshot plan profile = Inr ()"
proof -
  from assms(4) obtain pr where built: "build_payout_plan hs snapshot start hashes beacon profile signers = Inr plan"
    and run: "persist hx memory_ops env PayoutPlan (object_id_PayoutPlanV2 (hash_blake2b_256 hs) plan)
      (encode_PayoutPlanV2 plan) (st, n) = (Inr (), (st', n'))"
    by (auto simp: build_payout_plan_durable_def durable_err_def map_err_Inr_iff split: sum.splits prod.splits)
  from persist_memory [OF assms(1-3) run] built built_plan_verifies [OF built] show ?thesis by simp
qed

section \<open>Examples\<close>

definition example_small_limits :: SnapshotAccumulatorLimits where
  "example_small_limits = \<lparr>sl_max_retained_sessions = 4, sl_max_retained_bucket_credits = 8,
     sl_max_retained_payload_bytes = 100\<rparr>"

definition example_ready :: SnapshotAccumulator where
  "example_ready = the_Inr (new_with_limits 0 1 (replicate 32 0) (replicate 63 0 @ [4]) (replicate 63 0 @ [4])
     (replicate 32 3) example_small_limits)"

definition alone :: "MemoryStore env" where
  "alone n st = st"

lemma alone_disciplined: "env_disciplined mem_live ms_view alone"
  by (simp add: env_disciplined_def alone_def journal_le_refl)

definition example_durable_run ::
  "((SettlementError + PayoutSnapshotV2 option) \<times> SnapshotAccumulator \<times> (MemoryStore \<times> nat)) option" where
  "example_durable_run = add_closed_session_durable example_hash 10 lower_hex memory_ops alone example_ready
     (example_closed 1) empty_ed25519 (example_store, 0)"

lemma example_durable_ok: "case example_durable_run of Some (Inr (Some _), _) \<Rightarrow> True | _ \<Rightarrow> False"
  by code_simp

lemma example_durable_cases:
  obtains snap acc' st' n' where "example_durable_run = Some (Inr (Some snap), acc', (st', n'))"
  using example_durable_ok by (auto split: prod.splits sum.splits option.splits)

theorem durable_snapshot_recorded_witness:
  "\<exists>snap acc' st' n'. example_durable_run = Some (Inr (Some snap), acc', (st', n')) \<and>
    journal_load lower_hex memory_ops st' PayoutSnapshot (object_id_PayoutSnapshotV2 example_hash snap) =
      Inr (Some (encode_PayoutSnapshotV2 snap))"
proof -
  obtain snap acc' st' n' where run: "example_durable_run = Some (Inr (Some snap), acc', (st', n'))"
    by (rule example_durable_cases)
  from durable_snapshot_recorded [OF alone_disciplined example_live hex_ok_lower_hex run [unfolded example_durable_run_def]] run
  show ?thesis by auto
qed

theorem durable_retry_idempotent_witness:
  "\<exists>snap acc' st' n' w. example_durable_run = Some (Inr (Some snap), acc', (st', n')) \<and>
    add_closed_session_durable example_hash 10 lower_hex memory_ops alone example_ready
      (example_closed 1) empty_ed25519 (st', 7) = Some (Inr (Some snap), acc', w)"
proof -
  obtain snap acc' st' n' where run: "example_durable_run = Some (Inr (Some snap), acc', (st', n'))"
    by (rule example_durable_cases)
  note run' = run [unfolded example_durable_run_def]
  have "mem_live st'"
  proof -
    have "\<exists>pr. persist lower_hex memory_ops alone PayoutSnapshot (object_id_PayoutSnapshotV2 example_hash snap)
        (encode_PayoutSnapshotV2 snap) (example_store, 0) = (pr, (st', n'))"
      using run' by (auto simp: add_closed_session_durable_def durable_err_def split: sum.splits option.splits prod.splits)
    then show ?thesis using persist_memory [OF alone_disciplined example_live hex_ok_lower_hex] by blast
  qed
  from durable_retry_idempotent [OF alone_disciplined example_live hex_ok_lower_hex run' alone_disciplined this journal_le_refl, of 7] run
  show ?thesis by blast
qed

definition blank_store :: MemoryStore where
  "blank_store = \<lparr>ms_records = [], ms_poisoned = False\<rparr>"

lemma blank_live: "mem_live blank_store"
  by (simp add: blank_store_def mem_live_def ms_inv_def)

lemma persist_blank: "\<exists>w. persist lower_hex memory_ops alone kind key v (blank_store, 0) = (Inr (), w)"
proof -
  obtain r st' n' where run: "persist lower_hex memory_ops alone kind key v (blank_store, 0) = (r, (st', n'))"
    by (metis prod.exhaust)
  note out = persist_memory [OF alone_disciplined blank_live hex_ok_lower_hex run]
  have alone: "fold alone ns st = st" for ns st by (induction ns) (simp_all add: alone_def)
  have "journal_load lower_hex memory_ops blank_store kind key = Inr None"
    by (simp add: load_live [OF hex_ok_lower_hex blank_live]) (simp add: blank_store_def ms_view_def split: sum.splits)
  with out run show ?thesis by (cases r) (auto simp: env_only_def alone)
qed

theorem durable_plan_recorded_witness:
  "\<exists>st' n'. build_payout_plan_durable example_ticket_hashes lower_hex memory_ops alone example_snapshot 11
      [replicate 32 4] (replicate 32 3) example_profile empty_ed25519 (blank_store, 0) = (Inr example_plan, (st', n')) \<and>
    journal_load lower_hex memory_ops st' PayoutPlan
      (object_id_PayoutPlanV2 (hash_blake2b_256 example_ticket_hashes) example_plan) =
      Inr (Some (encode_PayoutPlanV2 example_plan))"
proof -
  note built = conjunct1 [OF example_plan_built, unfolded example_build_def]
  obtain st' n' where "persist lower_hex memory_ops alone PayoutPlan
      (object_id_PayoutPlanV2 (hash_blake2b_256 example_ticket_hashes) example_plan)
      (encode_PayoutPlanV2 example_plan) (blank_store, 0) = (Inr (), (st', n'))"
    using persist_blank by (metis prod.exhaust)
  then have run: "build_payout_plan_durable example_ticket_hashes lower_hex memory_ops alone example_snapshot 11
      [replicate 32 4] (replicate 32 3) example_profile empty_ed25519 (blank_store, 0) = (Inr example_plan, (st', n'))"
    by (simp add: build_payout_plan_durable_def built durable_err_def)
  from durable_plan_recorded [OF alone_disciplined blank_live hex_ok_lower_hex run] run show ?thesis by blast
qed

end
