(* ===== verification/Crypto.thy ===== *)
theory Crypto
  imports Object_Ids Journal_Recovery "HOL-Library.Multiset"
begin

text \<open>
  Signing and certificates (\<^verbatim>\<open>crates/meshmine-crypto/src/lib.rs\<close>). The Ed25519 implementation is the record of
  functions \<^verbatim>\<open>Ed25519\<close>; the contract \<^verbatim>\<open>ed_ok\<close> states its documented behaviour: keys and signatures have
  their fixed sizes and a signature made with a key verifies under the key's public half. An object
  of the trait \<^verbatim>\<open>UnsignedObject\<close> is its domain tag with its unsigned bytes.
\<close>

record Ed25519 =
  ed_public :: "bytes \<Rightarrow> bytes"
  ed_sign :: "bytes \<Rightarrow> bytes \<Rightarrow> bytes"
  ed_valid_public :: "bytes \<Rightarrow> bool"
  ed_verify :: "bytes \<Rightarrow> bytes \<Rightarrow> bytes \<Rightarrow> bool"

definition ed_ok :: "Ed25519 \<Rightarrow> bool" where
  "ed_ok ed \<longleftrightarrow> (\<forall>key. length (ed_public ed key) = 32 \<and> ed_valid_public ed (ed_public ed key) \<and>
     (\<forall>message. length (ed_sign ed key message) = 64 \<and>
       ed_verify ed (ed_public ed key) message (ed_sign ed key message)))"

record UnsignedObject =
  uo_domain_tag :: string
  uo_unsigned_bytes :: bytes

definition object_id :: "(bytes \<Rightarrow> hash256) \<Rightarrow> UnsignedObject \<Rightarrow> hash256" where
  "object_id H obj = domain_hash H (uo_domain_tag obj) (uo_unsigned_bytes obj)"

datatype CryptoError =
  UnsupportedSuite u16 | InvalidPublicKey | InvalidSignatureLength nat | VerificationFailed |
  DuplicateSigner | DurableSigning DurableInvariantError

definition SIGNATURE_CONTEXT :: string where "SIGNATURE_CONTEXT = ''meshmine/signature-context/v2''"

definition signature_message :: "(bytes \<Rightarrow> hash256) \<Rightarrow> u8 \<Rightarrow> UnsignedObject \<Rightarrow> hash256" where
  "signature_message H network_id obj = domain_hash H SIGNATURE_CONTEXT (enc_u16 CORE_V2 @ enc_u8 network_id @
     enc_bytes (str_bytes (uo_domain_tag obj)) @ enc_fixed (object_id H obj))"

definition sign_object :: "(bytes \<Rightarrow> hash256) \<Rightarrow> Ed25519 \<Rightarrow> bytes \<Rightarrow> u8 \<Rightarrow> UnsignedObject \<Rightarrow> SignatureBytes" where
  "sign_object H ed signing_key network_id obj = ed_sign ed signing_key (signature_message H network_id obj)"

definition verify_message :: "Ed25519 \<Rightarrow> bytes \<Rightarrow> u16 \<Rightarrow> SignatureBytes \<Rightarrow> bytes \<Rightarrow> CryptoError + unit" where
  "verify_message ed verifying_key signature_suite signature message =
     (if signature_suite \<noteq> ED25519_SUITE then Inl (UnsupportedSuite signature_suite)
      else if \<not> ed_valid_public ed verifying_key then Inl InvalidPublicKey
      else if length signature \<noteq> 64 then Inl (InvalidSignatureLength (length signature))
      else if \<not> ed_verify ed verifying_key message signature then Inl VerificationFailed
      else Inr ())"

definition verify_object ::
  "(bytes \<Rightarrow> hash256) \<Rightarrow> Ed25519 \<Rightarrow> bytes \<Rightarrow> u16 \<Rightarrow> SignatureBytes \<Rightarrow> u8 \<Rightarrow> UnsignedObject \<Rightarrow> CryptoError + unit" where
  "verify_object H ed verifying_key signature_suite signature network_id obj =
     verify_message ed verifying_key signature_suite signature (signature_message H network_id obj)"

definition sign_certificate :: "(bytes \<Rightarrow> hash256) \<Rightarrow> Ed25519 \<Rightarrow> bytes \<Rightarrow> u8 \<Rightarrow> UnsignedObject \<Rightarrow> SignerSignature" where
  "sign_certificate H ed signing_key network_id obj =
     \<lparr>sgs_signer_pubkey = ed_public ed signing_key, sgs_signature = sign_object H ed signing_key network_id obj\<rparr>"

definition guarded_sign_certificate ::
  "(bytes \<Rightarrow> hash256) \<Rightarrow> Ed25519 \<Rightarrow> Hex \<Rightarrow> 'st store_ops \<Rightarrow> 'st env \<Rightarrow> bytes \<Rightarrow> u8 \<Rightarrow> UnsignedObject \<Rightarrow> string \<Rightarrow>
   bytes \<Rightarrow> u64 \<Rightarrow> 'st \<times> nat \<Rightarrow> (CryptoError + SignerSignature) \<times> ('st \<times> nat)" where
  "guarded_sign_certificate H ed hx ops env signing_key network_id obj role scope sequence w =
     (case authorize hx ops env role scope sequence (object_id H obj) w of
        (Inl e, w') \<Rightarrow> (Inl (DurableSigning e), w')
      | (Inr _, w') \<Rightarrow> (Inr (sign_certificate H ed signing_key network_id obj), w'))"

definition assemble_ed25519_set :: "SignerSignature list \<Rightarrow> CryptoError + SignatureSet" where
  "assemble_ed25519_set signatures0 =
     (let signatures = sort_key sgs_signer_pubkey signatures0
      in if windows2_any (\<lambda>a b. sgs_signer_pubkey a = sgs_signer_pubkey b) signatures then Inl DuplicateSigner
         else Inr \<lparr>sset_signature_suite = ED25519_SUITE, sset_signatures = signatures\<rparr>)"

definition verify_certificate ::
  "(bytes \<Rightarrow> hash256) \<Rightarrow> Ed25519 \<Rightarrow> SignatureSet \<Rightarrow> u8 \<Rightarrow> UnsignedObject \<Rightarrow> CryptoError + unit" where
  "verify_certificate H ed signer_set network_id obj =
     (if sset_signature_suite signer_set \<noteq> ED25519_SUITE
      then Inl (UnsupportedSuite (sset_signature_suite signer_set))
      else
        res_bind (map_err (\<lambda>_. DuplicateSigner) (validate_order signer_set)) (\<lambda>_.
        let message = signature_message H network_id obj
        in res_foldM (\<lambda>_ entry. verify_message ed (sgs_signer_pubkey entry)
             (sset_signature_suite signer_set) (sgs_signature entry) message) () (sset_signatures signer_set)))"

section \<open>What a certificate proves\<close>

definition signed_by :: "(bytes \<Rightarrow> hash256) \<Rightarrow> Ed25519 \<Rightarrow> u8 \<Rightarrow> UnsignedObject \<Rightarrow> SignerSignature \<Rightarrow> bool" where
  "signed_by H ed network_id obj entry \<longleftrightarrow> ed_valid_public ed (sgs_signer_pubkey entry) \<and>
     length (sgs_signature entry) = 64 \<and>
     ed_verify ed (sgs_signer_pubkey entry) (signature_message H network_id obj) (sgs_signature entry)"

lemma verify_message_iff [res_simps]:
  "verify_message ed key suite signature message = Inr u \<longleftrightarrow> suite = ED25519_SUITE \<and> ed_valid_public ed key \<and>
     length signature = 64 \<and> ed_verify ed key message signature"
  by (auto simp: verify_message_def)

lemma verify_all_iff:
  "res_foldM (\<lambda>_ entry. verify_message ed (sgs_signer_pubkey entry) suite (sgs_signature entry) message) () entries = Inr () \<longleftrightarrow>
    (\<forall>entry \<in> set entries. verify_message ed (sgs_signer_pubkey entry) suite (sgs_signature entry) message = Inr ())"
  by (induction entries) (auto simp: res_simps)

lemma verify_certificate_iff:
  "verify_certificate H ed signer_set network_id obj = Inr () \<longleftrightarrow>
    sset_signature_suite signer_set = ED25519_SUITE \<and>
    sorted_wrt (<) (map sgs_signer_pubkey (sset_signatures signer_set)) \<and>
    (\<forall>entry \<in> set (sset_signatures signer_set). signed_by H ed network_id obj entry)"
  by (auto simp: verify_certificate_def res_simps verify_all_iff verify_message_iff signed_by_def Let_def
      validate_order_def windows2_any_strict split: if_splits)

lemma sorted_distinct_strict: "sorted xs \<Longrightarrow> distinct xs \<Longrightarrow> sorted_wrt (<) (xs :: 'a::linorder list)"
  by (simp add: strict_sorted_iff)

lemma sort_key_distinct: "distinct (map f (sort_key f xs)) = distinct (map f xs)"
proof -
  have "mset (map f (sort_key f xs)) = mset (map f xs)" by simp
  then show ?thesis by (rule mset_eq_imp_distinct_iff)
qed

lemma assemble_iff:
  "assemble_ed25519_set signatures = Inr set_of \<longleftrightarrow> distinct (map sgs_signer_pubkey signatures) \<and>
    set_of = \<lparr>sset_signature_suite = ED25519_SUITE, sset_signatures = sort_key sgs_signer_pubkey signatures\<rparr>"
  using windows2_any_equal [of sgs_signer_pubkey "sort_key sgs_signer_pubkey signatures"]
  by (auto simp: assemble_ed25519_set_def Let_def sort_key_distinct)

text \<open>
  C39: certificates round trip. Signatures of any keys with distinct public halves, collected in any order,
  assemble into a set that verifies for the object and network they were made for.
\<close>

theorem certificate_round_trip:
  assumes "ed_ok ed" and "distinct (map (ed_public ed) keys)"
  shows "\<exists>signer_set. assemble_ed25519_set (map (\<lambda>key. sign_certificate H ed key network_id obj) keys) = Inr signer_set \<and>
    verify_certificate H ed signer_set network_id obj = Inr () \<and>
    set (map sgs_signer_pubkey (sset_signatures signer_set)) = set (map (ed_public ed) keys)"
proof -
  let ?sigs = "map (\<lambda>key. sign_certificate H ed key network_id obj) keys"
  have pubs: "map sgs_signer_pubkey ?sigs = map (ed_public ed) keys" by (simp add: sign_certificate_def)
  then have d: "distinct (map sgs_signer_pubkey ?sigs)" using assms(2) by (simp only:)
  then have "distinct (map sgs_signer_pubkey (sort_key sgs_signer_pubkey ?sigs))" by (simp only: sort_key_distinct)
  then have "sorted_wrt (<) (map sgs_signer_pubkey (sort_key sgs_signer_pubkey ?sigs))"
    by (rule sorted_distinct_strict [rotated]) (rule sorted_sort_key)
  moreover have "signed_by H ed network_id obj entry" if "entry \<in> set (sort_key sgs_signer_pubkey ?sigs)" for entry
    using that assms(1) by (auto simp: signed_by_def sign_certificate_def sign_object_def ed_ok_def)
  ultimately show ?thesis
    using d by (auto simp: assemble_iff verify_certificate_iff sign_certificate_def image_image)
qed

text \<open>
  A stand-in for the signature scheme, to show that its contract can be met: a signature is the key
  and the message, folded to 64 bytes.
\<close>

definition toy_ed :: Ed25519 where
  "toy_ed = \<lparr>ed_public = (\<lambda>key. take 32 (key @ replicate 32 0)),
     ed_sign = (\<lambda>key message. take 32 (key @ replicate 32 0) @ take 32 (message @ replicate 32 0)),
     ed_valid_public = (\<lambda>key. length key = 32),
     ed_verify = (\<lambda>key message signature. signature = key @ take 32 (message @ replicate 32 0))\<rparr>"

lemma toy_ed_ok: "ed_ok toy_ed"
  by (auto simp: ed_ok_def toy_ed_def)

definition example_object :: UnsignedObject where
  "example_object = \<lparr>uo_domain_tag = ''meshmine/example'', uo_unsigned_bytes = [1, 2, 3]\<rparr>"

theorem certificate_round_trip_witness:
  "\<exists>signer_set. assemble_ed25519_set (map (\<lambda>key. sign_certificate (\<lambda>bs. take 32 (rev bs @ replicate 32 0)) toy_ed key 2 example_object) [[9], [4]]) =
      Inr signer_set \<and>
    verify_certificate (\<lambda>bs. take 32 (rev bs @ replicate 32 0)) toy_ed signer_set 2 example_object = Inr ()"
proof -
  have "distinct (map (ed_public toy_ed) [[9], [4]])" by (simp add: toy_ed_def)
  from certificate_round_trip [OF toy_ed_ok this] show ?thesis by blast
qed

text \<open>
  C40: guarded signing never equivocates. Among writers that keep reservations, if two guarded signatures for
  one role, scope and sequence are both issued, with any keys, then both are for the same object
  identifier.
\<close>

theorem guarded_signing_never_equivocates:
  assumes "env_guarded mem_live ms_view env" "mem_live st"
    and "guarded_sign_certificate H ed hx memory_ops env key network_id obj role scope sequence (st, n) = (Inr cert, w1)"
    and "env_only env w1 w2"
    and "guarded_sign_certificate H ed hx memory_ops env key' network_id' obj' role scope sequence w2 = (Inr cert', w3)"
  shows "object_id H obj' = object_id H obj \<and> cert = sign_certificate H ed key network_id obj \<and>
    cert' = sign_certificate H ed key' network_id' obj'"
proof -
  have a1: "authorize hx memory_ops env role scope sequence (object_id H obj) (st, n) = (Inr (), w1)"
    and a2: "authorize hx memory_ops env role scope sequence (object_id H obj') w2 = (Inr (), w3)"
    and certs: "cert = sign_certificate H ed key network_id obj" "cert' = sign_certificate H ed key' network_id' obj'"
    using assms(3,5) by (auto simp: guarded_sign_certificate_def split: prod.splits sum.splits)
  note r1 = live.authorize_reserves [OF assms(1) _ a1]
  note e2 = env_only_guarded [OF assms(1) _ assms(4)]
  note r3 = live.authorize_reserves [OF assms(1) _ a2]
  show ?thesis using r1 e2 r3 assms(2) certs by (auto simp: guard_le_def)
qed

definition toy_hash :: "bytes \<Rightarrow> hash256" where
  "toy_hash bs = take 32 (rev bs @ replicate 32 0)"

definition example_guarded ::
  "UnsignedObject \<Rightarrow> MemoryStore \<times> nat \<Rightarrow> (CryptoError + SignerSignature) \<times> (MemoryStore \<times> nat)" where
  "example_guarded obj w = guarded_sign_certificate toy_hash toy_ed lower_hex memory_ops sequential [9] 2 obj ''receipt'' [7] 12 w"

lemma example_guarded_eval:
  "fst (example_guarded example_object (empty_store, 0)) = Inr (sign_certificate toy_hash toy_ed [9] 2 example_object)"
  "fst (example_guarded example_object (snd (example_guarded example_object (empty_store, 0)))) =
    Inr (sign_certificate toy_hash toy_ed [9] 2 example_object)"
  "fst (example_guarded (example_object\<lparr>uo_unsigned_bytes := [4]\<rparr>) (snd (example_guarded example_object (empty_store, 0)))) =
    Inl (DurableSigning ConflictingSignature)"
  by code_simp+

theorem guarded_signing_never_equivocates_witness:
  "\<exists>w1. example_guarded example_object (empty_store, 0) = (Inr (sign_certificate toy_hash toy_ed [9] 2 example_object), w1) \<and>
    {object_id toy_hash obj | obj cert w3. example_guarded obj w1 = (Inr cert, w3)} = {object_id toy_hash example_object}"
proof -
  let ?cert = "sign_certificate toy_hash toy_ed [9] 2 example_object"
  obtain w1 w3 where w1: "example_guarded example_object (empty_store, 0) = (Inr ?cert, w1)"
    and w3: "example_guarded example_object w1 = (Inr ?cert, w3)"
    using example_guarded_eval(1,2) by (metis prod.collapse)
  have "object_id toy_hash obj = object_id toy_hash example_object" if "example_guarded obj w1 = (Inr cert, w3')" for obj cert w3'
    using guarded_signing_never_equivocates [OF sequential_guarded empty_store_live w1 [unfolded example_guarded_def]
      env_only_refl that [unfolded example_guarded_def]] by blast
  with w1 w3 show ?thesis by blast
qed

end
