(* ===== verification/Recovery_Checkpoint.thy ===== *)
theory Recovery_Checkpoint
  imports Settlement_Durable Crypto
begin

text \<open>
  Payout-recovery checkpoints (\<^verbatim>\<open>crates/meshmine-settlement/src/recovery.rs\<close>): the source fence, the sealed
  checkpoint with its canonical encoding and structural validation, the committee policy that
  authenticates it, and the per-network head. A set of member keys is a set; the in-memory size of a
  credit (\<open>sz\<close>) is a parameter as in the snapshot accumulator.
\<close>

definition PAYOUT_RECOVERY_CHECKPOINT_V1 :: u16 where "PAYOUT_RECOVERY_CHECKPOINT_V1 = 1"
definition PAYOUT_RECOVERY_HEAD_NAMESPACE :: string where
  "PAYOUT_RECOVERY_HEAD_NAMESPACE = ''payout-recovery-checkpoint-head/v1''"
definition PAYOUT_RECOVERY_SOURCE_FENCE_NAMESPACE :: string where
  "PAYOUT_RECOVERY_SOURCE_FENCE_NAMESPACE = ''payout-recovery-source-fence/v1''"
definition MAX_EXPECTED_PAYOUT_PLANS :: nat where "MAX_EXPECTED_PAYOUT_PLANS = 100000"
definition MAX_CANONICAL_PLAN_BINDINGS :: nat where "MAX_CANONICAL_PLAN_BINDINGS = 100000"
definition MAX_PAYOUT_RECOVERY_COMMITTEE_MEMBERS :: nat where "MAX_PAYOUT_RECOVERY_COMMITTEE_MEMBERS = 256"
definition MAX_PAYOUT_CHECKPOINT_BYTES :: nat where "MAX_PAYOUT_CHECKPOINT_BYTES = 64 * 1024 * 1024"
definition PAYOUT_RECOVERY_HEAD_MAGIC :: bytes where "PAYOUT_RECOVERY_HEAD_MAGIC = str_bytes ''MMCH''"
definition PAYOUT_RECOVERY_SOURCE_FENCE_MAGIC :: bytes where "PAYOUT_RECOVERY_SOURCE_FENCE_MAGIC = str_bytes ''MMSF''"
definition PAYOUT_RECOVERY_WRAPPER_DOMAIN :: string where
  "PAYOUT_RECOVERY_WRAPPER_DOMAIN = ''meshmine/payout-recovery-wrapper/v1''"

section \<open>Data\<close>

record PayoutRecoverySourceFenceV1 =
  sf_disposition_count :: u64
  sf_disposition_commitment :: hash256
  sf_snapshot_count :: u64
  sf_snapshot_head_id :: hash256
  sf_plan_count :: u64
  sf_plan_head_id :: hash256
  sf_canonical_event_count :: u64
  sf_canonical_event_commitment :: hash256

record ExpectedPayoutPlanV1 =
  ep_plan_sequence :: u64
  ep_snapshot_id :: hash256

record CanonicalPlanBindingV1 =
  cb_plan_sequence :: u64
  cb_payout_plan_id :: hash256
  cb_payout_snapshot_id :: hash256

record PayoutRecoveryCommitteePolicyV1 =
  rp_network_id :: u8
  rp_settlement_committee_id :: hash256
  rp_payout_policy_fingerprint :: hash256
  rp_threshold :: u16
  rp_members :: "bytes set"

datatype PayoutRecoveryPersistOutcome = CheckpointCommitted | AlreadyCurrent

record PayoutRecoveryCheckpointV1 =
  rc_core_protocol_version :: u16
  rc_checkpoint_version :: u16
  rc_network_id :: u8
  rc_checkpoint_sequence :: u64
  rc_previous_checkpoint_id :: hash256
  rc_payout_policy_fingerprint :: hash256
  rc_source_fence :: PayoutRecoverySourceFenceV1
  rc_accumulator :: SnapshotAccumulatorCheckpoint
  rc_expected_plans :: "ExpectedPayoutPlanV1 list"
  rc_canonical_plan_bindings :: "CanonicalPlanBindingV1 list"
  rc_signer_set :: SignatureSet

datatype PayoutRecoveryError =
  InvalidCheckpoint | Sequence | InvalidHead | MissingCheckpoint | NonCanonicalCheckpoint |
  CheckpointTooLarge | InvalidCommitteePolicy | InvalidCertificate | InvalidSourceFence |
  SourceFenceMismatch | SourceFenceRegression | PolicyChange | ConcurrentUpdate |
  DurableRecovery DurableInvariantError

section \<open>The source fence\<close>

definition encode_PayoutRecoverySourceFenceV1 :: "PayoutRecoverySourceFenceV1 \<Rightarrow> bytes" where
  "encode_PayoutRecoverySourceFenceV1 v =
     enc_u64 (sf_disposition_count v) @ enc_fixed (sf_disposition_commitment v) @
     enc_u64 (sf_snapshot_count v) @ enc_fixed (sf_snapshot_head_id v) @
     enc_u64 (sf_plan_count v) @ enc_fixed (sf_plan_head_id v) @
     enc_u64 (sf_canonical_event_count v) @ enc_fixed (sf_canonical_event_commitment v)"

definition decode_PayoutRecoverySourceFenceV1 :: "PayoutRecoverySourceFenceV1 decode" where
  "decode_PayoutRecoverySourceFenceV1 =
     dbind dec_u64 (\<lambda>disposition_count.
     dbind (dec_array 32) (\<lambda>disposition_commitment.
     dbind dec_u64 (\<lambda>snapshot_count.
     dbind (dec_array 32) (\<lambda>snapshot_head_id.
     dbind dec_u64 (\<lambda>plan_count.
     dbind (dec_array 32) (\<lambda>plan_head_id.
     dbind dec_u64 (\<lambda>canonical_event_count.
     dbind (dec_array 32) (\<lambda>canonical_event_commitment.
     dreturn \<lparr>sf_disposition_count = disposition_count, sf_disposition_commitment = disposition_commitment,
       sf_snapshot_count = snapshot_count, sf_snapshot_head_id = snapshot_head_id,
       sf_plan_count = plan_count, sf_plan_head_id = plan_head_id,
       sf_canonical_event_count = canonical_event_count,
       sf_canonical_event_commitment = canonical_event_commitment\<rparr>))))))))"

definition zero_count_has_nonzero_head :: "u64 \<Rightarrow> hash256 \<Rightarrow> bool" where
  "zero_count_has_nonzero_head n head \<longleftrightarrow>
     (n = 0 \<and> head \<noteq> replicate 32 0) \<or> (n \<noteq> 0 \<and> head = replicate 32 0)"

definition validate_coherence :: "PayoutRecoverySourceFenceV1 \<Rightarrow> PayoutRecoveryError + unit" where
  "validate_coherence f =
     (if zero_count_has_nonzero_head (sf_disposition_count f) (sf_disposition_commitment f) \<or>
         zero_count_has_nonzero_head (sf_snapshot_count f) (sf_snapshot_head_id f) \<or>
         zero_count_has_nonzero_head (sf_plan_count f) (sf_plan_head_id f) \<or>
         zero_count_has_nonzero_head (sf_canonical_event_count f) (sf_canonical_event_commitment f) \<or>
         sf_plan_count f > sf_snapshot_count f \<or>
         sf_disposition_count f < sf_snapshot_count f
      then Inl InvalidCheckpoint else Inr ())"

definition component_is_monotonic :: "u64 \<Rightarrow> hash256 \<Rightarrow> u64 \<Rightarrow> hash256 \<Rightarrow> bool" where
  "component_is_monotonic previous_count previous_head next_count next_head \<longleftrightarrow>
     next_count > previous_count \<and> next_head \<noteq> previous_head \<or>
     next_count = previous_count \<and> next_head = previous_head"

definition validate_monotonic_after ::
  "PayoutRecoverySourceFenceV1 \<Rightarrow> PayoutRecoverySourceFenceV1 \<Rightarrow> PayoutRecoveryError + unit" where
  "validate_monotonic_after f previous =
     (if \<not> component_is_monotonic (sf_disposition_count previous) (sf_disposition_commitment previous)
            (sf_disposition_count f) (sf_disposition_commitment f) \<or>
         \<not> component_is_monotonic (sf_snapshot_count previous) (sf_snapshot_head_id previous)
            (sf_snapshot_count f) (sf_snapshot_head_id f) \<or>
         \<not> component_is_monotonic (sf_plan_count previous) (sf_plan_head_id previous)
            (sf_plan_count f) (sf_plan_head_id f) \<or>
         \<not> component_is_monotonic (sf_canonical_event_count previous) (sf_canonical_event_commitment previous)
            (sf_canonical_event_count f) (sf_canonical_event_commitment f)
      then Inl SourceFenceRegression else Inr ())"

definition encode_source_fence :: "u8 \<Rightarrow> PayoutRecoverySourceFenceV1 \<Rightarrow> bytes" where
  "encode_source_fence network_id fence =
     enc_fixed PAYOUT_RECOVERY_SOURCE_FENCE_MAGIC @ enc_u16 PAYOUT_RECOVERY_CHECKPOINT_V1 @
     enc_u8 network_id @ encode_PayoutRecoverySourceFenceV1 fence"

definition decode_source_fence :: "u8 \<Rightarrow> bytes \<Rightarrow> PayoutRecoveryError + PayoutRecoverySourceFenceV1" where
  "decode_source_fence network_id bs =
     res_bind (map_err (\<lambda>_. InvalidSourceFence) (decoder_new bs \<lparr>max_object_bytes = 192, max_vector_items = 0\<rparr>)) (\<lambda>d.
     res_bind (map_err (\<lambda>_. InvalidSourceFence) (dec_array 4 d)) (\<lambda>(magic, d).
     if magic \<noteq> PAYOUT_RECOVERY_SOURCE_FENCE_MAGIC then Inl InvalidSourceFence else
     res_bind (map_err (\<lambda>_. InvalidSourceFence) (dec_u16 d)) (\<lambda>(version, d).
     if version \<noteq> PAYOUT_RECOVERY_CHECKPOINT_V1 then Inl InvalidSourceFence else
     res_bind (map_err (\<lambda>_. InvalidSourceFence) (dec_u8 d)) (\<lambda>(network, d).
     if network \<noteq> network_id then Inl InvalidSourceFence else
     res_bind (map_err (\<lambda>_. InvalidSourceFence) (decode_PayoutRecoverySourceFenceV1 d)) (\<lambda>(fence, d).
     res_bind (map_err (\<lambda>_. InvalidSourceFence) (dec_finish d)) (\<lambda>_.
     res_bind (map_err (\<lambda>_. InvalidSourceFence) (validate_coherence fence)) (\<lambda>_. Inr fence)))))))"

definition payout_recovery_source_fence_transition ::
  "u8 \<Rightarrow> PayoutRecoverySourceFenceV1 option \<Rightarrow> PayoutRecoverySourceFenceV1 \<Rightarrow>
   PayoutRecoveryError + BatchCondition \<times> BatchOperation" where
  "payout_recovery_source_fence_transition network_id previous next_fence =
     res_bind (validate_coherence next_fence) (\<lambda>_.
     res_bind (case previous of None \<Rightarrow> Inr ()
       | Some previous \<Rightarrow> res_bind (validate_coherence previous) (\<lambda>_. validate_monotonic_after next_fence previous)) (\<lambda>_.
     let key = decimal (unat network_id)
     in Inr (BatchCondition_new PAYOUT_RECOVERY_SOURCE_FENCE_NAMESPACE key
               (map_option (encode_source_fence network_id) previous),
             Put PAYOUT_RECOVERY_SOURCE_FENCE_NAMESPACE key (encode_source_fence network_id next_fence))))"

section \<open>Codecs\<close>

definition encode_ExpectedPayoutPlanV1 :: "ExpectedPayoutPlanV1 \<Rightarrow> bytes" where
  "encode_ExpectedPayoutPlanV1 v = enc_u64 (ep_plan_sequence v) @ enc_fixed (ep_snapshot_id v)"

definition decode_ExpectedPayoutPlanV1 :: "ExpectedPayoutPlanV1 decode" where
  "decode_ExpectedPayoutPlanV1 =
     dbind dec_u64 (\<lambda>plan_sequence.
     dbind (dec_array 32) (\<lambda>snapshot_id.
     dreturn \<lparr>ep_plan_sequence = plan_sequence, ep_snapshot_id = snapshot_id\<rparr>))"

definition encode_CanonicalPlanBindingV1 :: "CanonicalPlanBindingV1 \<Rightarrow> bytes" where
  "encode_CanonicalPlanBindingV1 v =
     enc_u64 (cb_plan_sequence v) @ enc_fixed (cb_payout_plan_id v) @ enc_fixed (cb_payout_snapshot_id v)"

definition decode_CanonicalPlanBindingV1 :: "CanonicalPlanBindingV1 decode" where
  "decode_CanonicalPlanBindingV1 =
     dbind dec_u64 (\<lambda>plan_sequence.
     dbind (dec_array 32) (\<lambda>payout_plan_id.
     dbind (dec_array 32) (\<lambda>payout_snapshot_id.
     dreturn \<lparr>cb_plan_sequence = plan_sequence, cb_payout_plan_id = payout_plan_id,
       cb_payout_snapshot_id = payout_snapshot_id\<rparr>)))"

definition encode_bucket_credit :: "BucketCredit \<Rightarrow> bytes" where
  "encode_bucket_credit credit = encode_PayoutBucketV2 (bk_bucket credit) @ encode_u512 (bk_credit credit)"

definition decode_bucket_credit :: "BucketCredit decode" where
  "decode_bucket_credit =
     dbind decode_PayoutBucketV2 (\<lambda>bucket.
     dbind decode_u512 (\<lambda>credit.
     dreturn \<lparr>bk_bucket = bucket, bk_credit = credit\<rparr>))"

definition encode_bucket_credits :: "BucketCredit list \<Rightarrow> bytes" where
  "encode_bucket_credits = enc_vec encode_bucket_credit"

definition decode_bucket_credits :: "BucketCredit list decode" where
  "decode_bucket_credits = dec_vec DEFAULT_MAX_RETAINED_BUCKET_CREDITS decode_bucket_credit"

definition encode_closed_session :: "ClosedSessionCredits \<Rightarrow> bytes" where
  "encode_closed_session session =
     enc_fixed (cs_session_close_id session) @ enc_u32 (cs_close_anchor_height session) @
     encode_bucket_credits (cs_work session) @ encode_bucket_credits (cs_service session)"

definition decode_closed_session :: "ClosedSessionCredits decode" where
  "decode_closed_session =
     dbind (dec_array 32) (\<lambda>session_close_id.
     dbind dec_u32 (\<lambda>close_anchor_height.
     dbind decode_bucket_credits (\<lambda>work.
     dbind decode_bucket_credits (\<lambda>service.
     dreturn \<lparr>cs_session_close_id = session_close_id, cs_close_anchor_height = close_anchor_height,
       cs_work = work, cs_service = service\<rparr>))))"

definition encode_SnapshotAccumulatorCheckpoint :: "SnapshotAccumulatorCheckpoint \<Rightarrow> bytes" where
  "encode_SnapshotAccumulatorCheckpoint v =
     enc_u8 (ck_network_id v) @ enc_u64 (ck_next_sequence v) @ enc_fixed (ck_previous_snapshot_id v) @
     encode_u512 (ck_snapshot_step_work v) @ encode_u512 (ck_pplns_window_work v) @
     enc_fixed (ck_settlement_committee_id v) @ enc_vec encode_closed_session (ck_closed_sessions v) @
     encode_u512 (ck_new_work_since_snapshot v)"

definition decode_SnapshotAccumulatorCheckpoint :: "SnapshotAccumulatorCheckpoint decode" where
  "decode_SnapshotAccumulatorCheckpoint =
     dbind dec_u8 (\<lambda>network_id.
     dbind dec_u64 (\<lambda>next_sequence.
     dbind (dec_array 32) (\<lambda>previous_snapshot_id.
     dbind decode_u512 (\<lambda>snapshot_step_work.
     dbind decode_u512 (\<lambda>pplns_window_work.
     dbind (dec_array 32) (\<lambda>settlement_committee_id.
     dbind (dec_vec DEFAULT_MAX_RETAINED_SESSIONS decode_closed_session) (\<lambda>closed_sessions.
     dbind decode_u512 (\<lambda>new_work_since_snapshot.
     dreturn \<lparr>ck_network_id = network_id, ck_next_sequence = next_sequence,
       ck_previous_snapshot_id = previous_snapshot_id, ck_snapshot_step_work = snapshot_step_work,
       ck_pplns_window_work = pplns_window_work, ck_settlement_committee_id = settlement_committee_id,
       ck_closed_sessions = closed_sessions, ck_new_work_since_snapshot = new_work_since_snapshot\<rparr>))))))))"

definition encode_unsigned_PayoutRecoveryCheckpointV1 :: "PayoutRecoveryCheckpointV1 \<Rightarrow> bytes" where
  "encode_unsigned_PayoutRecoveryCheckpointV1 v =
     enc_u16 (rc_core_protocol_version v) @ enc_u16 (rc_checkpoint_version v) @ enc_u8 (rc_network_id v) @
     enc_u64 (rc_checkpoint_sequence v) @ enc_fixed (rc_previous_checkpoint_id v) @
     enc_fixed (rc_payout_policy_fingerprint v) @
     encode_PayoutRecoverySourceFenceV1 (rc_source_fence v) @
     encode_SnapshotAccumulatorCheckpoint (rc_accumulator v) @
     enc_vec encode_ExpectedPayoutPlanV1 (rc_expected_plans v) @
     enc_vec encode_CanonicalPlanBindingV1 (rc_canonical_plan_bindings v)"

definition encode_PayoutRecoveryCheckpointV1 :: "PayoutRecoveryCheckpointV1 \<Rightarrow> bytes" where
  "encode_PayoutRecoveryCheckpointV1 v =
     encode_unsigned_PayoutRecoveryCheckpointV1 v @ encode_SignatureSet (rc_signer_set v)"

definition decode_PayoutRecoveryCheckpointV1 :: "PayoutRecoveryCheckpointV1 decode" where
  "decode_PayoutRecoveryCheckpointV1 =
     dbind dec_u16 (\<lambda>core_protocol_version.
     dbind dec_u16 (\<lambda>checkpoint_version.
     dbind dec_u8 (\<lambda>network_id.
     dbind dec_u64 (\<lambda>checkpoint_sequence.
     dbind (dec_array 32) (\<lambda>previous_checkpoint_id.
     dbind (dec_array 32) (\<lambda>payout_policy_fingerprint.
     dbind decode_PayoutRecoverySourceFenceV1 (\<lambda>source_fence.
     dbind decode_SnapshotAccumulatorCheckpoint (\<lambda>accumulator.
     dbind (dec_vec MAX_EXPECTED_PAYOUT_PLANS decode_ExpectedPayoutPlanV1) (\<lambda>expected_plans.
     dbind (dec_vec MAX_CANONICAL_PLAN_BINDINGS decode_CanonicalPlanBindingV1) (\<lambda>canonical_plan_bindings.
     dbind decode_SignatureSet (\<lambda>signer_set.
     dreturn \<lparr>rc_core_protocol_version = core_protocol_version, rc_checkpoint_version = checkpoint_version,
       rc_network_id = network_id, rc_checkpoint_sequence = checkpoint_sequence,
       rc_previous_checkpoint_id = previous_checkpoint_id,
       rc_payout_policy_fingerprint = payout_policy_fingerprint, rc_source_fence = source_fence,
       rc_accumulator = accumulator, rc_expected_plans = expected_plans,
       rc_canonical_plan_bindings = canonical_plan_bindings, rc_signer_set = signer_set\<rparr>)))))))))))"

definition checkpoint_object :: "PayoutRecoveryCheckpointV1 \<Rightarrow> UnsignedObject" where
  "checkpoint_object v = \<lparr>uo_domain_tag = ''meshmine/payout-recovery-checkpoint/v1'',
     uo_unsigned_bytes = encode_unsigned_PayoutRecoveryCheckpointV1 v\<rparr>"

section \<open>Validation\<close>

text \<open>
  Restoring the sealed accumulator panics on no checkpoint with 64-byte integers, see
  \<open>restored_accumulator_total\<close> below; the branch for a panic answers like an error.
\<close>

definition canonical_accumulator ::
  "nat \<Rightarrow> SnapshotAccumulatorCheckpoint \<Rightarrow> PayoutRecoveryError + SnapshotAccumulatorCheckpoint" where
  "canonical_accumulator sz ck =
     (case from_checkpoint sz ck SnapshotAccumulatorLimits_default of
        Some (Inr restored_accumulator) \<Rightarrow> map_err (\<lambda>_. InvalidCheckpoint) (checkpoint restored_accumulator)
      | _ \<Rightarrow> Inl InvalidCheckpoint)"

definition validate_structure :: "nat \<Rightarrow> PayoutRecoveryCheckpointV1 \<Rightarrow> PayoutRecoveryError + unit" where
  "validate_structure sz cp =
     (let fence = rc_source_fence cp; accumulator = rc_accumulator cp; expected_plans = rc_expected_plans cp;
          bindings = rc_canonical_plan_bindings cp in
      res_bind (validate_coherence fence) (\<lambda>_.
      res_bind (ok_or InvalidCheckpoint (if sf_plan_count fence \<le> sf_snapshot_count fence
          then Some (unat (sf_snapshot_count fence - sf_plan_count fence)) else None)) (\<lambda>expected_queue_length.
      res_bind (ok_or InvalidCheckpoint (checked_add (sf_snapshot_count fence) 1)) (\<lambda>expected_next_snapshot.
      res_bind (ok_or InvalidCheckpoint (checked_add (sf_plan_count fence) 1)) (\<lambda>expected_plan_start.
      let expected_sequences_are_contiguous = list_all (\<lambda>(offset, entry).
            Option.bind (u64_try_from offset) (checked_add expected_plan_start) = Some (ep_plan_sequence entry))
            (enumerate 0 expected_plans);
          canonical_sequences = set (map cb_plan_sequence bindings);
          canonical_plan_ids = set (map cb_payout_plan_id bindings);
          canonical_snapshot_ids = set (map cb_payout_snapshot_id bindings);
          expected_snapshot_ids = set (map ep_snapshot_id expected_plans) in
      res_bind (canonical_accumulator sz accumulator) (\<lambda>canonical.
      if rc_core_protocol_version cp \<noteq> CORE_V2 \<or>
         rc_checkpoint_version cp \<noteq> PAYOUT_RECOVERY_CHECKPOINT_V1 \<or>
         rc_checkpoint_sequence cp = 0 \<or>
         rc_payout_policy_fingerprint cp = replicate 32 0 \<or>
         ck_network_id accumulator \<noteq> rc_network_id cp \<or>
         ck_next_sequence accumulator \<noteq> expected_next_snapshot \<or>
         ck_previous_snapshot_id accumulator \<noteq> sf_snapshot_head_id fence \<or>
         ck_snapshot_step_work accumulator = replicate 64 0 \<or>
         ck_pplns_window_work accumulator = replicate 64 0 \<or>
         length (ck_closed_sessions accumulator) > DEFAULT_MAX_RETAINED_SESSIONS \<or>
         length expected_plans > MAX_EXPECTED_PAYOUT_PLANS \<or>
         length expected_plans \<noteq> expected_queue_length \<or>
         length bindings > MAX_CANONICAL_PLAN_BINDINGS \<or>
         canonical \<noteq> accumulator \<or>
         \<not> expected_sequences_are_contiguous \<or>
         windows2_any (\<lambda>a b. ep_plan_sequence a \<ge> ep_plan_sequence b) expected_plans \<or>
         list_ex (\<lambda>entry. ep_plan_sequence entry = 0 \<or> ep_snapshot_id entry = replicate 32 0) expected_plans \<or>
         windows2_any (\<lambda>a b. cb_plan_sequence a \<ge> cb_plan_sequence b) bindings \<or>
         list_ex (\<lambda>entry. cb_plan_sequence entry = 0 \<or> cb_plan_sequence entry > sf_plan_count fence \<or>
           cb_payout_plan_id entry = replicate 32 0 \<or> cb_payout_snapshot_id entry = replicate 32 0) bindings \<or>
         card canonical_sequences \<noteq> length bindings \<or>
         card canonical_plan_ids \<noteq> length bindings \<or>
         card canonical_snapshot_ids \<noteq> length bindings \<or>
         card expected_snapshot_ids \<noteq> length expected_plans \<or>
         list_ex (\<lambda>entry. cb_payout_snapshot_id entry \<in> expected_snapshot_ids) bindings \<or>
         (sf_plan_count fence = 0 \<and> bindings \<noteq> []) \<or>
         (sf_plan_count fence \<noteq> 0 \<and> (bindings = [] \<or>
            cb_plan_sequence (last bindings) \<noteq> sf_plan_count fence \<or>
            cb_payout_plan_id (last bindings) \<noteq> sf_plan_head_id fence)) \<or>
         (sf_snapshot_count fence \<noteq> sf_plan_count fence \<and> (expected_plans = [] \<or>
            ep_snapshot_id (last expected_plans) \<noteq> sf_snapshot_head_id fence)) \<or>
         (sf_snapshot_count fence = sf_plan_count fence \<and> expected_plans \<noteq> []) \<or>
         validate_order (rc_signer_set cp) \<noteq> Inr ()
      then Inl InvalidCheckpoint else Inr ()))))))"

definition checkpoint_limits :: DecodeLimits where
  "checkpoint_limits = \<lparr>max_object_bytes = MAX_PAYOUT_CHECKPOINT_BYTES,
     max_vector_items = DEFAULT_MAX_RETAINED_BUCKET_CREDITS\<rparr>"

definition canonical_payload :: "nat \<Rightarrow> PayoutRecoveryCheckpointV1 \<Rightarrow> PayoutRecoveryError + bytes" where
  "canonical_payload sz cp =
     res_bind (validate_structure sz cp) (\<lambda>_.
     let payload = encode_PayoutRecoveryCheckpointV1 cp
     in if length payload > MAX_PAYOUT_CHECKPOINT_BYTES then Inl CheckpointTooLarge
        else
        res_bind (map_err (\<lambda>_. NonCanonicalCheckpoint)
          (from_canonical_bytes decode_PayoutRecoveryCheckpointV1 payload checkpoint_limits)) (\<lambda>decoded.
        if decoded \<noteq> cp \<or> encode_PayoutRecoveryCheckpointV1 decoded \<noteq> payload
        then Inl NonCanonicalCheckpoint else Inr payload))"

definition policy_validate :: "PayoutRecoveryCommitteePolicyV1 \<Rightarrow> PayoutRecoveryError + unit" where
  "policy_validate policy =
     (if rp_settlement_committee_id policy = replicate 32 0 \<or>
         rp_payout_policy_fingerprint policy = replicate 32 0 \<or>
         rp_members policy = {} \<or>
         card (rp_members policy) > MAX_PAYOUT_RECOVERY_COMMITTEE_MEMBERS \<or>
         rp_threshold policy = 0 \<or>
         unat (rp_threshold policy) > card (rp_members policy)
      then Inl InvalidCommitteePolicy else Inr ())"

definition verify_checkpoint ::
  "(bytes \<Rightarrow> hash256) \<Rightarrow> Ed25519 \<Rightarrow> PayoutRecoveryCommitteePolicyV1 \<Rightarrow> PayoutRecoveryCheckpointV1 \<Rightarrow>
   PayoutRecoveryError + unit" where
  "verify_checkpoint H ed policy cp =
     res_bind (policy_validate policy) (\<lambda>_.
     if rc_network_id cp \<noteq> rp_network_id policy \<or>
        ck_settlement_committee_id (rc_accumulator cp) \<noteq> rp_settlement_committee_id policy \<or>
        rc_payout_policy_fingerprint cp \<noteq> rp_payout_policy_fingerprint policy \<or>
        sset_signature_suite (rc_signer_set cp) \<noteq> ED25519_SUITE \<or>
        length (sset_signatures (rc_signer_set cp)) < unat (rp_threshold policy) \<or>
        list_ex (\<lambda>signature. sgs_signer_pubkey signature \<notin> rp_members policy) (sset_signatures (rc_signer_set cp)) \<or>
        verify_certificate H ed (rc_signer_set cp) (rc_network_id cp) (checkpoint_object cp) \<noteq> Inr ()
     then Inl InvalidCertificate else Inr ())"

section \<open>The head\<close>

record PayoutRecoveryHeadV1 =
  rh_network_id :: u8
  rh_checkpoint_sequence :: u64
  rh_checkpoint_id :: hash256
  rh_checkpoint_wrapper_id :: hash256

definition encode_head :: "PayoutRecoveryHeadV1 \<Rightarrow> bytes" where
  "encode_head head =
     enc_fixed PAYOUT_RECOVERY_HEAD_MAGIC @ enc_u16 PAYOUT_RECOVERY_CHECKPOINT_V1 @
     enc_u8 (rh_network_id head) @ enc_u64 (rh_checkpoint_sequence head) @
     enc_fixed (rh_checkpoint_id head) @ enc_fixed (rh_checkpoint_wrapper_id head)"

definition decode_head :: "u8 \<Rightarrow> bytes \<Rightarrow> PayoutRecoveryError + PayoutRecoveryHeadV1" where
  "decode_head network_id bs =
     res_bind (map_err (\<lambda>_. InvalidHead) (decoder_new bs \<lparr>max_object_bytes = 96, max_vector_items = 0\<rparr>)) (\<lambda>d.
     res_bind (map_err (\<lambda>_. InvalidHead) (dec_array 4 d)) (\<lambda>(magic, d).
     if magic \<noteq> PAYOUT_RECOVERY_HEAD_MAGIC then Inl InvalidHead else
     res_bind (map_err (\<lambda>_. InvalidHead) (dec_u16 d)) (\<lambda>(version, d).
     if version \<noteq> PAYOUT_RECOVERY_CHECKPOINT_V1 then Inl InvalidHead else
     res_bind (map_err (\<lambda>_. InvalidHead) (dec_u8 d)) (\<lambda>(network, d).
     res_bind (map_err (\<lambda>_. InvalidHead) (dec_u64 d)) (\<lambda>(checkpoint_sequence, d).
     res_bind (map_err (\<lambda>_. InvalidHead) (dec_array 32 d)) (\<lambda>(checkpoint_id, d).
     res_bind (map_err (\<lambda>_. InvalidHead) (dec_array 32 d)) (\<lambda>(checkpoint_wrapper_id, d).
     res_bind (map_err (\<lambda>_. InvalidHead) (dec_finish d)) (\<lambda>_.
     if network \<noteq> network_id \<or> checkpoint_sequence = 0 \<or> checkpoint_id = replicate 32 0 \<or>
        checkpoint_wrapper_id = replicate 32 0
     then Inl InvalidHead
     else Inr \<lparr>rh_network_id = network, rh_checkpoint_sequence = checkpoint_sequence,
       rh_checkpoint_id = checkpoint_id, rh_checkpoint_wrapper_id = checkpoint_wrapper_id\<rparr>))))))))"

section \<open>The codec contract\<close>

definition valid_fence :: "DecodeLimits \<Rightarrow> PayoutRecoverySourceFenceV1 \<Rightarrow> bool" where
  "valid_fence L v \<longleftrightarrow> valid_hash (sf_disposition_commitment v) \<and> valid_hash (sf_snapshot_head_id v) \<and>
     valid_hash (sf_plan_head_id v) \<and> valid_hash (sf_canonical_event_commitment v)"

definition valid_expected :: "DecodeLimits \<Rightarrow> ExpectedPayoutPlanV1 \<Rightarrow> bool" where
  "valid_expected L v \<longleftrightarrow> valid_hash (ep_snapshot_id v)"

definition valid_binding :: "DecodeLimits \<Rightarrow> CanonicalPlanBindingV1 \<Rightarrow> bool" where
  "valid_binding L v \<longleftrightarrow> valid_hash (cb_payout_plan_id v) \<and> valid_hash (cb_payout_snapshot_id v)"

definition valid_credit :: "DecodeLimits \<Rightarrow> BucketCredit \<Rightarrow> bool" where
  "valid_credit L v \<longleftrightarrow> valid_PayoutBucketV2 L (bk_bucket v) \<and> valid_u512 (bk_credit v)"

definition valid_session :: "DecodeLimits \<Rightarrow> ClosedSessionCredits \<Rightarrow> bool" where
  "valid_session L v \<longleftrightarrow> valid_hash (cs_session_close_id v) \<and>
     valid_vec DEFAULT_MAX_RETAINED_BUCKET_CREDITS valid_credit L (cs_work v) \<and>
     valid_vec DEFAULT_MAX_RETAINED_BUCKET_CREDITS valid_credit L (cs_service v)"

definition valid_accumulator :: "DecodeLimits \<Rightarrow> SnapshotAccumulatorCheckpoint \<Rightarrow> bool" where
  "valid_accumulator L v \<longleftrightarrow> valid_hash (ck_previous_snapshot_id v) \<and> valid_u512 (ck_snapshot_step_work v) \<and>
     valid_u512 (ck_pplns_window_work v) \<and> valid_hash (ck_settlement_committee_id v) \<and>
     valid_vec DEFAULT_MAX_RETAINED_SESSIONS valid_session L (ck_closed_sessions v) \<and>
     valid_u512 (ck_new_work_since_snapshot v)"

definition valid_recovery :: "DecodeLimits \<Rightarrow> PayoutRecoveryCheckpointV1 \<Rightarrow> bool" where
  "valid_recovery L v \<longleftrightarrow> valid_hash (rc_previous_checkpoint_id v) \<and>
     valid_hash (rc_payout_policy_fingerprint v) \<and> valid_fence L (rc_source_fence v) \<and>
     valid_accumulator L (rc_accumulator v) \<and>
     valid_vec MAX_EXPECTED_PAYOUT_PLANS valid_expected L (rc_expected_plans v) \<and>
     valid_vec MAX_CANONICAL_PLAN_BINDINGS valid_binding L (rc_canonical_plan_bindings v) \<and>
     valid_SignatureSet L (rc_signer_set v)"

lemmas recovery_max_defs = DEFAULT_MAX_RETAINED_BUCKET_CREDITS_def DEFAULT_MAX_RETAINED_SESSIONS_def
  MAX_EXPECTED_PAYOUT_PLANS_def MAX_CANONICAL_PLAN_BINDINGS_def usize_max_def

interpretation fence_codec:
  canonical_codec encode_PayoutRecoverySourceFenceV1 decode_PayoutRecoverySourceFenceV1 valid_fence
  unfolding encode_PayoutRecoverySourceFenceV1_def decode_PayoutRecoverySourceFenceV1_def valid_fence_def
  by unfold_locales (simp add: codec_rt valid_defs, auto simp: valid_defs elim!: codec_inv)

interpretation expected_codec:
  canonical_codec encode_ExpectedPayoutPlanV1 decode_ExpectedPayoutPlanV1 valid_expected
  unfolding encode_ExpectedPayoutPlanV1_def decode_ExpectedPayoutPlanV1_def valid_expected_def
  by unfold_locales (simp add: codec_rt valid_defs, auto simp: valid_defs elim!: codec_inv)

interpretation binding_codec:
  canonical_codec encode_CanonicalPlanBindingV1 decode_CanonicalPlanBindingV1 valid_binding
  unfolding encode_CanonicalPlanBindingV1_def decode_CanonicalPlanBindingV1_def valid_binding_def
  by unfold_locales (simp add: codec_rt valid_defs, auto simp: valid_defs elim!: codec_inv)

interpretation credit_codec: canonical_codec encode_bucket_credit decode_bucket_credit valid_credit
  unfolding encode_bucket_credit_def decode_bucket_credit_def valid_credit_def
  by unfold_locales (simp add: codec_rt payout_bucket_codec.dec_enc,
      auto elim!: codec_inv payout_bucket_codec.inv_dec)

interpretation credits_codec: canonical_codec encode_bucket_credits decode_bucket_credits
    "valid_vec DEFAULT_MAX_RETAINED_BUCKET_CREDITS valid_credit"
  unfolding encode_bucket_credits_def decode_bucket_credits_def
  by (rule credit_codec.vec_codec) (simp add: recovery_max_defs)

interpretation session_codec: canonical_codec encode_closed_session decode_closed_session valid_session
  unfolding encode_closed_session_def decode_closed_session_def valid_session_def
  by unfold_locales (simp add: codec_rt valid_defs credits_codec.dec_enc,
      auto simp: valid_defs elim!: codec_inv credits_codec.inv_dec)

interpretation sessions_codec: canonical_codec "enc_vec encode_closed_session"
    "dec_vec DEFAULT_MAX_RETAINED_SESSIONS decode_closed_session"
    "valid_vec DEFAULT_MAX_RETAINED_SESSIONS valid_session"
  by (rule session_codec.vec_codec) (simp add: recovery_max_defs)

interpretation accumulator_codec: canonical_codec encode_SnapshotAccumulatorCheckpoint
    decode_SnapshotAccumulatorCheckpoint valid_accumulator
  unfolding encode_SnapshotAccumulatorCheckpoint_def decode_SnapshotAccumulatorCheckpoint_def valid_accumulator_def
  by unfold_locales (simp add: codec_rt valid_defs sessions_codec.dec_enc,
      auto simp: valid_defs elim!: codec_inv sessions_codec.inv_dec)

interpretation expecteds_codec: canonical_codec "enc_vec encode_ExpectedPayoutPlanV1"
    "dec_vec MAX_EXPECTED_PAYOUT_PLANS decode_ExpectedPayoutPlanV1"
    "valid_vec MAX_EXPECTED_PAYOUT_PLANS valid_expected"
  by (rule expected_codec.vec_codec) (simp add: recovery_max_defs)

interpretation bindings_codec: canonical_codec "enc_vec encode_CanonicalPlanBindingV1"
    "dec_vec MAX_CANONICAL_PLAN_BINDINGS decode_CanonicalPlanBindingV1"
    "valid_vec MAX_CANONICAL_PLAN_BINDINGS valid_binding"
  by (rule binding_codec.vec_codec) (simp add: recovery_max_defs)

lemmas recovery_rt = fence_codec.dec_enc accumulator_codec.dec_enc expecteds_codec.dec_enc bindings_codec.dec_enc
lemmas recovery_inv = fence_codec.inv_dec accumulator_codec.inv_dec expecteds_codec.inv_dec bindings_codec.inv_dec

interpretation recovery_codec: canonical_codec encode_PayoutRecoveryCheckpointV1
    decode_PayoutRecoveryCheckpointV1 valid_recovery
  unfolding encode_PayoutRecoveryCheckpointV1_def encode_unsigned_PayoutRecoveryCheckpointV1_def
    decode_PayoutRecoveryCheckpointV1_def valid_recovery_def
  by unfold_locales (simp add: codec_rt valid_defs recovery_rt,
      auto simp: valid_defs elim!: codec_inv recovery_inv)

section \<open>Fences and heads as stored\<close>

lemma magic_lengths [simp]:
  "length PAYOUT_RECOVERY_SOURCE_FENCE_MAGIC = 4" "length PAYOUT_RECOVERY_HEAD_MAGIC = 4"
  by (simp_all add: PAYOUT_RECOVERY_SOURCE_FENCE_MAGIC_def PAYOUT_RECOVERY_HEAD_MAGIC_def str_bytes_def)

lemma decoder_new_iff: "decoder_new bs L = Inr d \<longleftrightarrow> length bs \<le> max_object_bytes L \<and> d = dec_at [] bs L"
  by (auto simp: decoder_new_def dec_at_def)

lemma decoder_new_at: "length bs \<le> max_object_bytes L \<Longrightarrow> decoder_new bs L = Inr (dec_at [] bs L)"
  by (simp add: decoder_new_iff)

lemma dec_finish_at [simp]: "dec_finish (dec_at pre rest L) = Inr () \<longleftrightarrow> rest = []"
  by (simp add: dec_finish_def dec_at_def)

lemma dec_finish_end [simp]: "dec_finish (dec_at pre [] L) = Inr ()"
  by (simp add: dec_finish_def dec_at_def)

lemma valid_fence_length: "valid_fence L f \<Longrightarrow> length (encode_source_fence n f) = 167"
  by (simp add: valid_fence_def valid_hash_def encode_source_fence_def encode_PayoutRecoverySourceFenceV1_def
      enc_u64_def enc_u16_def enc_u8_def)

lemma decode_source_fence_iff:
  "decode_source_fence n bs = Inr f \<longleftrightarrow>
    bs = encode_source_fence n f \<and> valid_fence default_limits f \<and> validate_coherence f = Inr ()"
proof
  assume "decode_source_fence n bs = Inr f"
  then show "bs = encode_source_fence n f \<and> valid_fence default_limits f \<and> validate_coherence f = Inr ()"
    unfolding decode_source_fence_def
    by (auto simp: res_simps map_err_Inr_iff decoder_new_iff encode_source_fence_def valid_fence_def
        split: if_splits elim!: codec_inv fence_codec.inv_dec)
next
  assume r: "bs = encode_source_fence n f \<and> valid_fence default_limits f \<and> validate_coherence f = Inr ()"
  then have "length bs = 167" "fits bs" using valid_fence_length by (auto simp: fits_def usize_max_def)
  moreover have "valid_fence \<lparr>max_object_bytes = 192, max_vector_items = 0\<rparr> f" using r by (simp add: valid_fence_def)
  ultimately show "decode_source_fence n bs = Inr f"
    using r by (simp add: decode_source_fence_def encode_source_fence_def decoder_new_at codec_rt
        fence_codec.dec_enc [where rest = "[]", simplified] map_err_def)
qed

lemma decode_head_iff:
  "decode_head n bs = Inr head \<longleftrightarrow> bs = encode_head head \<and> rh_network_id head = n \<and> rh_checkpoint_sequence head \<noteq> 0 \<and>
    valid_hash (rh_checkpoint_id head) \<and> rh_checkpoint_id head \<noteq> replicate 32 0 \<and>
    valid_hash (rh_checkpoint_wrapper_id head) \<and> rh_checkpoint_wrapper_id head \<noteq> replicate 32 0"
    (is "_ \<longleftrightarrow> ?r")
proof
  assume "decode_head n bs = Inr head"
  then show ?r
    unfolding decode_head_def
    by (auto simp: res_simps map_err_Inr_iff decoder_new_iff encode_head_def valid_hash_def
        split: if_splits elim!: codec_inv)
next
  assume r: ?r
  then have "length bs = 79" by (simp add: encode_head_def valid_hash_def enc_u64_def enc_u16_def enc_u8_def)
  then have "fits bs" by (simp add: fits_def usize_max_def)
  with r \<open>length bs = 79\<close> show "decode_head n bs = Inr head"
    by (cases head) (simp add: decode_head_def encode_head_def decoder_new_at codec_rt valid_hash_def
        dec_array_at [where rest = "[]", simplified] map_err_def)
qed

section \<open>What validation establishes\<close>

lemma checkpoint_limits_usize: "max_object_bytes checkpoint_limits \<le> usize_max"
  by (simp add: checkpoint_limits_def MAX_PAYOUT_CHECKPOINT_BYTES_def usize_max_def)

lemma canonical_payload_iff:
  "canonical_payload sz cp = Inr bs \<longleftrightarrow> validate_structure sz cp = Inr () \<and>
    bs = encode_PayoutRecoveryCheckpointV1 cp \<and> length bs \<le> MAX_PAYOUT_CHECKPOINT_BYTES \<and>
    valid_recovery checkpoint_limits cp"
  using recovery_codec.from_canonical_bytes_iff [OF checkpoint_limits_usize, of "encode_PayoutRecoveryCheckpointV1 cp"]
  by (auto simp: canonical_payload_def res_simps map_err_Inr_iff checkpoint_limits_def Let_def split: if_splits)

lemma default_limits_usable: "usable_limits SnapshotAccumulatorLimits_default"
  by (rule example_usable)

lemma restored_accumulator_total:
  assumes "valid_accumulator L ck"
  shows "from_checkpoint sz ck SnapshotAccumulatorLimits_default \<noteq> None"
  using from_checkpoint_inv [of ck SnapshotAccumulatorLimits_default sz] default_limits_usable assms
  by (auto simp: valid_accumulator_def valid_u512_def split: option.splits)

lemma canonical_accumulator_restores:
  assumes "canonical_accumulator sz ck = Inr ck" "valid_accumulator L ck"
  shows "\<exists>acc. from_checkpoint sz ck SnapshotAccumulatorLimits_default = Some (Inr acc) \<and> acc_inv sz acc \<and>
    checkpoint acc = Inr ck"
  using assms from_checkpoint_inv [of ck SnapshotAccumulatorLimits_default sz] default_limits_usable
  by (auto simp: canonical_accumulator_def map_err_Inr_iff valid_accumulator_def valid_u512_def
      split: option.splits sum.splits)

lemma verify_checkpoint_iff:
  "verify_checkpoint H ed policy cp = Inr () \<longleftrightarrow> policy_validate policy = Inr () \<and>
    rc_network_id cp = rp_network_id policy \<and>
    ck_settlement_committee_id (rc_accumulator cp) = rp_settlement_committee_id policy \<and>
    rc_payout_policy_fingerprint cp = rp_payout_policy_fingerprint policy \<and>
    unat (rp_threshold policy) \<le> length (sset_signatures (rc_signer_set cp)) \<and>
    sgs_signer_pubkey ` set (sset_signatures (rc_signer_set cp)) \<subseteq> rp_members policy \<and>
    verify_certificate H ed (rc_signer_set cp) (rc_network_id cp) (checkpoint_object cp) = Inr ()"
  by (auto simp: verify_checkpoint_def res_simps list_ex_iff verify_certificate_iff)

end
