(* ===== verification/Settlement_Recovery.thy ===== *)
theory Settlement_Recovery
  imports Recovery_Checkpoint
begin

text \<open>
  Installing and loading payout-recovery checkpoints (\<^verbatim>\<open>crates/meshmine-settlement/src/recovery.rs\<close>). Every
  call of the store is preceded by a step of the other writers, as in the protocol journal. A commit
  advances the head of the network by exactly one, atomically with the checkpoint's journal record and
  only while the sealed source fence is the stored one.
\<close>

section \<open>Actions\<close>

type_synonym ('st, 'a) recovery_action = "'st \<times> nat \<Rightarrow> (PayoutRecoveryError + 'a) \<times> ('st \<times> nat)"

definition rec_pure :: "PayoutRecoveryError + 'a \<Rightarrow> ('st, 'a) recovery_action" where
  "rec_pure r w = (r, w)"

definition rec_bind :: "('st, 'a) recovery_action \<Rightarrow> ('a \<Rightarrow> ('st, 'b) recovery_action) \<Rightarrow> ('st, 'b) recovery_action" where
  "rec_bind m f w = (case m w of (Inl e, w') \<Rightarrow> (Inl e, w') | (Inr a, w') \<Rightarrow> f a w')"

text \<open>A journal or store call, its error embedded.\<close>

definition rec_durable :: "('st, 'a) action \<Rightarrow> ('st, 'a) recovery_action" where
  "rec_durable m w = (case m w of (r, w') \<Rightarrow> (map_err DurableRecovery r, w'))"

definition rec_get :: "'st store_ops \<Rightarrow> 'st env \<Rightarrow> string \<Rightarrow> string \<Rightarrow> ('st, bytes option) recovery_action" where
  "rec_get ops env ns key = rec_durable (act_read env (\<lambda>st. so_get ops st ns key))"

definition rec_load ::
  "Hex \<Rightarrow> 'st store_ops \<Rightarrow> 'st env \<Rightarrow> ProtocolRecordKind \<Rightarrow> bytes \<Rightarrow> ('st, bytes option) recovery_action" where
  "rec_load hx ops env kind durable_key =
     rec_durable (\<lambda>(st, n). (journal_load hx ops (env n st) kind durable_key, (env n st, Suc n)))"

section \<open>Operations\<close>

text \<open>What \<^verbatim>\<open>load_checkpoint_at_head\<close> does with the journal's answer.\<close>

definition checkpoint_at_head ::
  "(bytes \<Rightarrow> hash256) \<Rightarrow> Ed25519 \<Rightarrow> nat \<Rightarrow> PayoutRecoveryCommitteePolicyV1 \<Rightarrow> PayoutRecoveryHeadV1 \<Rightarrow> bytes option \<Rightarrow>
   PayoutRecoveryError + PayoutRecoveryCheckpointV1" where
  "checkpoint_at_head H ed sz policy head found =
     res_bind (ok_or MissingCheckpoint found) (\<lambda>sealed.
     res_bind (map_err (\<lambda>_. NonCanonicalCheckpoint)
       (from_canonical_bytes decode_PayoutRecoveryCheckpointV1 sealed checkpoint_limits)) (\<lambda>cp.
     res_bind (validate_structure sz cp) (\<lambda>_.
     if rc_network_id cp \<noteq> rh_network_id head \<or>
        rc_checkpoint_sequence cp \<noteq> rh_checkpoint_sequence head \<or>
        object_id H (checkpoint_object cp) \<noteq> rh_checkpoint_id head \<or>
        domain_hash H PAYOUT_RECOVERY_WRAPPER_DOMAIN sealed \<noteq> rh_checkpoint_wrapper_id head \<or>
        encode_PayoutRecoveryCheckpointV1 cp \<noteq> sealed
     then Inl NonCanonicalCheckpoint
     else res_bind (verify_checkpoint H ed policy cp) (\<lambda>_. Inr cp))))"

definition load_checkpoint_at_head ::
  "(bytes \<Rightarrow> hash256) \<Rightarrow> Ed25519 \<Rightarrow> nat \<Rightarrow> Hex \<Rightarrow> 'st store_ops \<Rightarrow> 'st env \<Rightarrow> PayoutRecoveryCommitteePolicyV1 \<Rightarrow>
   PayoutRecoveryHeadV1 \<Rightarrow> ('st, PayoutRecoveryCheckpointV1) recovery_action" where
  "load_checkpoint_at_head H ed sz hx ops env policy head =
     rec_bind (rec_load hx ops env PayoutRecoveryCheckpoint (rh_checkpoint_wrapper_id head)) (\<lambda>found.
     rec_pure (checkpoint_at_head H ed sz policy head found))"

definition source_fence_matches ::
  "'st store_ops \<Rightarrow> 'st env \<Rightarrow> u8 \<Rightarrow> PayoutRecoverySourceFenceV1 \<Rightarrow> ('st, bool) recovery_action" where
  "source_fence_matches ops env network_id expected =
     rec_bind (rec_get ops env PAYOUT_RECOVERY_SOURCE_FENCE_NAMESPACE (decimal (unat network_id))) (\<lambda>found.
     case found of
       None \<Rightarrow> rec_pure (Inr False)
     | Some bs \<Rightarrow> rec_pure (res_bind (decode_source_fence network_id bs) (\<lambda>observed.
         Inr (observed = expected \<and> bs = encode_source_fence network_id expected))))"

definition validate_checkpoint_transition ::
  "PayoutRecoveryCheckpointV1 \<Rightarrow> PayoutRecoveryCheckpointV1 \<Rightarrow> PayoutRecoveryError + unit" where
  "validate_checkpoint_transition previous next_cp =
     (if rc_payout_policy_fingerprint next_cp \<noteq> rc_payout_policy_fingerprint previous \<or>
         ck_snapshot_step_work (rc_accumulator next_cp) \<noteq> ck_snapshot_step_work (rc_accumulator previous) \<or>
         ck_pplns_window_work (rc_accumulator next_cp) \<noteq> ck_pplns_window_work (rc_accumulator previous) \<or>
         ck_settlement_committee_id (rc_accumulator next_cp) \<noteq> ck_settlement_committee_id (rc_accumulator previous)
      then Inl PolicyChange
      else
      res_bind (validate_monotonic_after (rc_source_fence next_cp) (rc_source_fence previous)) (\<lambda>_.
      if rc_source_fence next_cp = rc_source_fence previous \<and>
         (rc_accumulator next_cp \<noteq> rc_accumulator previous \<or>
          rc_expected_plans next_cp \<noteq> rc_expected_plans previous \<or>
          rc_canonical_plan_bindings next_cp \<noteq> rc_canonical_plan_bindings previous)
      then Inl SourceFenceRegression else Inr ()))"

definition checkpoint_head :: "(bytes \<Rightarrow> hash256) \<Rightarrow> PayoutRecoveryCheckpointV1 \<Rightarrow> bytes \<Rightarrow> PayoutRecoveryHeadV1" where
  "checkpoint_head H cp sealed =
     \<lparr>rh_network_id = rc_network_id cp, rh_checkpoint_sequence = rc_checkpoint_sequence cp,
      rh_checkpoint_id = object_id H (checkpoint_object cp),
      rh_checkpoint_wrapper_id = domain_hash H PAYOUT_RECOVERY_WRAPPER_DOMAIN sealed\<rparr>"

text \<open>The conditional batch that installs the record and the head, and the reading of its outcome.\<close>

definition commit_checkpoint ::
  "(bytes \<Rightarrow> hash256) \<Rightarrow> Hex \<Rightarrow> 'st store_ops \<Rightarrow> 'st env \<Rightarrow> PayoutRecoveryCheckpointV1 \<Rightarrow> bytes \<Rightarrow> bytes option \<Rightarrow>
   ('st, PayoutRecoveryPersistOutcome) recovery_action" where
  "commit_checkpoint H hx ops env cp sealed existing =
     (let key = decimal (unat (rc_network_id cp));
          head = checkpoint_head H cp sealed in
      rec_bind (rec_durable (persist_records_with_conditions_and_batch hx ops env
        [JournalBatchRecord_new PayoutRecoveryCheckpoint (rh_checkpoint_wrapper_id head) sealed]
        [BatchCondition_new PAYOUT_RECOVERY_HEAD_NAMESPACE key existing,
         BatchCondition_equals PAYOUT_RECOVERY_SOURCE_FENCE_NAMESPACE key
           (encode_source_fence (rc_network_id cp) (rc_source_fence cp))]
        [Put PAYOUT_RECOVERY_HEAD_NAMESPACE key (encode_head head)])) (\<lambda>outcome.
      case outcome of
        Committed \<Rightarrow> rec_pure (Inr CheckpointCommitted)
      | ExactRecord \<Rightarrow>
          rec_bind (source_fence_matches ops env (rc_network_id cp) (rc_source_fence cp)) (\<lambda>matches.
          if \<not> matches then rec_pure (Inl ConcurrentUpdate)
          else
          rec_bind (rec_get ops env PAYOUT_RECOVERY_HEAD_NAMESPACE key) (\<lambda>found.
          rec_pure (if (case found of None \<Rightarrow> False | Some bs \<Rightarrow> decode_head (rc_network_id cp) bs = Inr head)
            then Inr AlreadyCurrent else Inl ConcurrentUpdate)))
      | PreconditionMismatch \<Rightarrow> rec_pure (Inl ConcurrentUpdate)))"

definition persist_payout_recovery_checkpoint ::
  "(bytes \<Rightarrow> hash256) \<Rightarrow> Ed25519 \<Rightarrow> nat \<Rightarrow> Hex \<Rightarrow> 'st store_ops \<Rightarrow> 'st env \<Rightarrow> PayoutRecoveryCheckpointV1 \<Rightarrow>
   PayoutRecoveryCommitteePolicyV1 \<Rightarrow> ('st, PayoutRecoveryPersistOutcome) recovery_action" where
  "persist_payout_recovery_checkpoint H ed sz hx ops env cp policy =
     rec_bind (rec_pure (canonical_payload sz cp)) (\<lambda>sealed.
     rec_bind (rec_pure (verify_checkpoint H ed policy cp)) (\<lambda>_.
     let key = decimal (unat (rc_network_id cp));
         expected_source_fence = encode_source_fence (rc_network_id cp) (rc_source_fence cp) in
     rec_bind (source_fence_matches ops env (rc_network_id cp) (rc_source_fence cp)) (\<lambda>matches.
     if \<not> matches then rec_pure (Inl SourceFenceMismatch)
     else
     rec_bind (rec_get ops env PAYOUT_RECOVERY_HEAD_NAMESPACE key) (\<lambda>existing.
     let checkpoint_id = object_id H (checkpoint_object cp) in
     case existing of
       None \<Rightarrow>
         if rc_checkpoint_sequence cp \<noteq> 1 \<or> rc_previous_checkpoint_id cp \<noteq> replicate 32 0
         then rec_pure (Inl Sequence)
         else commit_checkpoint H hx ops env cp sealed existing
     | Some bs \<Rightarrow>
         rec_bind (rec_pure (decode_head (rc_network_id cp) bs)) (\<lambda>current.
         if rh_checkpoint_id current = checkpoint_id then
           if rh_checkpoint_sequence current \<noteq> rc_checkpoint_sequence cp then rec_pure (Inl Sequence)
           else
           rec_bind (load_checkpoint_at_head H ed sz hx ops env policy current) (\<lambda>_.
           rec_bind (rec_durable (act_write env (\<lambda>st. so_apply_batch_if_all ops st
             [BatchCondition_equals PAYOUT_RECOVERY_HEAD_NAMESPACE key bs,
              BatchCondition_equals PAYOUT_RECOVERY_SOURCE_FENCE_NAMESPACE key expected_source_fence] []))) (\<lambda>applied.
           rec_pure (if applied then Inr AlreadyCurrent else Inl ConcurrentUpdate)))
         else
           rec_bind (rec_pure (ok_or Sequence (checked_add (rh_checkpoint_sequence current) 1))) (\<lambda>next_sequence.
           if rc_checkpoint_sequence cp \<noteq> next_sequence \<or>
              rc_previous_checkpoint_id cp \<noteq> rh_checkpoint_id current
           then rec_pure (Inl Sequence)
           else
           rec_bind (load_checkpoint_at_head H ed sz hx ops env policy current) (\<lambda>previous.
           rec_bind (rec_pure (validate_checkpoint_transition previous cp)) (\<lambda>_.
           commit_checkpoint H hx ops env cp sealed existing))))))))"

definition load_payout_recovery_checkpoint ::
  "(bytes \<Rightarrow> hash256) \<Rightarrow> Ed25519 \<Rightarrow> nat \<Rightarrow> Hex \<Rightarrow> 'st store_ops \<Rightarrow> 'st env \<Rightarrow> PayoutRecoveryCommitteePolicyV1 \<Rightarrow>
   ('st, PayoutRecoveryCheckpointV1 option) recovery_action" where
  "load_payout_recovery_checkpoint H ed sz hx ops env policy =
     rec_bind (rec_pure (policy_validate policy)) (\<lambda>_.
     let network_id = rp_network_id policy in
     rec_bind (rec_get ops env PAYOUT_RECOVERY_HEAD_NAMESPACE (decimal (unat network_id))) (\<lambda>found.
     case found of
       None \<Rightarrow> rec_pure (Inr None)
     | Some head_bytes \<Rightarrow>
         rec_bind (rec_pure (decode_head network_id head_bytes)) (\<lambda>head.
         rec_bind (load_checkpoint_at_head H ed sz hx ops env policy head) (\<lambda>cp.
         rec_bind (source_fence_matches ops env network_id (rc_source_fence cp)) (\<lambda>matches.
         if \<not> matches then rec_pure (Inl SourceFenceMismatch) else rec_pure (Inr (Some cp)))))))"

section \<open>Calls on the in-memory store\<close>

definition env_step :: "'st env \<Rightarrow> 'st \<times> nat \<Rightarrow> 'st \<times> nat" where
  "env_step env w = (env (snd w) (fst w), Suc (snd w))"

lemma env_only_env_step: "env_only env w (env_step env w)"
  by (cases w) (simp add: env_step_def env_only_step)

lemma env_step_live:
  "env_disciplined mem_live ms_view env \<Longrightarrow> mem_live (fst w) \<Longrightarrow> mem_live (fst (env_step env w))"
  by (simp add: env_step_def env_disciplined_def)

lemma rec_bind_pure [simp]:
  "rec_bind (rec_pure (Inr a)) f = f a" "rec_bind (rec_pure (Inl e)) f = rec_pure (Inl e)"
  by (simp_all add: fun_eq_iff rec_bind_def rec_pure_def)

lemma rec_bind_pure_at: "rec_bind (rec_pure r) f w = (case r of Inl e \<Rightarrow> (Inl e, w) | Inr a \<Rightarrow> f a w)"
  by (cases r) (simp_all add: rec_pure_def)

lemma rec_bind_cases:
  assumes "rec_bind m f w = (r, w')"
  obtains (err) e where "m w = (Inl e, w')" "r = Inl e"
  | (ok) a w1 where "m w = (Inr a, w1)" "f a w1 = (r, w')"
  using assms by (auto simp: rec_bind_def split: prod.splits sum.splits)

lemma recovery_keys_ok [simp]:
  "key_ok (PAYOUT_RECOVERY_HEAD_NAMESPACE, decimal n)" "key_ok (PAYOUT_RECOVERY_SOURCE_FENCE_NAMESPACE, decimal n)"
  using decimal_chars [of NUL n]
  by (auto simp: key_ok_def PAYOUT_RECOVERY_HEAD_NAMESPACE_def PAYOUT_RECOVERY_SOURCE_FENCE_NAMESPACE_def NUL_def)

lemma rec_get_live:
  assumes "env_disciplined mem_live ms_view env" "mem_live (fst w)" "key_ok (ns, key)"
  shows "rec_get memory_ops env ns key w = (Inr (ms_view (fst (env_step env w)) ns key), env_step env w)"
  using env_step_live [OF assms(1,2)] live_get [OF _ assms(3)]
  by (cases w) (simp add: rec_get_def rec_durable_def act_read_def env_step_def map_err_def)

lemma rec_load_live:
  assumes "env_disciplined mem_live ms_view env" "mem_live (fst w)" "hex_ok hx"
  shows "rec_load hx memory_ops env kind key w =
    (Inr (ms_view (fst (env_step env w)) (kind_namespace kind) (hex_encode hx key)), env_step env w)"
  using env_step_live [OF assms(1,2)] load_live [OF assms(3)]
  by (cases w) (simp add: rec_load_def rec_durable_def env_step_def map_err_def)

lemma load_checkpoint_at_head_live:
  assumes "env_disciplined mem_live ms_view env" "mem_live (fst w)" "hex_ok hx"
  shows "load_checkpoint_at_head H ed sz hx memory_ops env policy head w =
    (checkpoint_at_head H ed sz policy head (ms_view (fst (env_step env w)) (kind_namespace PayoutRecoveryCheckpoint)
      (hex_encode hx (rh_checkpoint_wrapper_id head))), env_step env w)"
  by (simp add: load_checkpoint_at_head_def rec_bind_def rec_load_live [OF assms] rec_pure_def)

lemma source_fence_matches_live:
  assumes "env_disciplined mem_live ms_view env" "mem_live (fst w)"
  shows "\<exists>r. source_fence_matches memory_ops env n f w = (r, env_step env w) \<and>
    (r = Inr True \<longleftrightarrow> ms_view (fst (env_step env w)) PAYOUT_RECOVERY_SOURCE_FENCE_NAMESPACE (decimal (unat n)) =
      Some (encode_source_fence n f) \<and> valid_fence default_limits f \<and> validate_coherence f = Inr ())"
  by (auto simp: source_fence_matches_def rec_bind_def rec_get_live [OF assms] rec_pure_def res_simps
      decode_source_fence_iff split: option.splits)

section \<open>Committing\<close>

lemma kind_namespace_recovery [simp]:
  "kind_namespace kind \<noteq> PAYOUT_RECOVERY_HEAD_NAMESPACE" "PAYOUT_RECOVERY_HEAD_NAMESPACE \<noteq> kind_namespace kind"
  "kind_namespace kind \<noteq> PAYOUT_RECOVERY_SOURCE_FENCE_NAMESPACE"
  "PAYOUT_RECOVERY_SOURCE_FENCE_NAMESPACE \<noteq> kind_namespace kind"
  "PAYOUT_RECOVERY_HEAD_NAMESPACE \<noteq> PAYOUT_RECOVERY_SOURCE_FENCE_NAMESPACE"
  "PAYOUT_RECOVERY_SOURCE_FENCE_NAMESPACE \<noteq> PAYOUT_RECOVERY_HEAD_NAMESPACE"
  by (cases kind; simp add: PAYOUT_RECOVERY_HEAD_NAMESPACE_def PAYOUT_RECOVERY_SOURCE_FENCE_NAMESPACE_def)+

lemma recovery_namespaces [simp]:
  "\<not> is_journal_namespace PAYOUT_RECOVERY_HEAD_NAMESPACE"
  "\<not> is_journal_namespace PAYOUT_RECOVERY_SOURCE_FENCE_NAMESPACE"
  by (auto simp: is_journal_namespace_def)

text \<open>The store after a commit, seen from the state the batch found.\<close>

definition installed :: "(bytes \<Rightarrow> hash256) \<Rightarrow> Hex \<Rightarrow> PayoutRecoveryCheckpointV1 \<Rightarrow> kv_view \<Rightarrow> kv_view" where
  "installed H hx cp m =
     (let head = checkpoint_head H cp (encode_PayoutRecoveryCheckpointV1 cp) in
      view_set PAYOUT_RECOVERY_HEAD_NAMESPACE (decimal (unat (rc_network_id cp))) (Some (encode_head head))
        (view_set (kind_namespace PayoutRecoveryCheckpoint) (hex_encode hx (rh_checkpoint_wrapper_id head))
          (Some (encode_PayoutRecoveryCheckpointV1 cp)) m))"

definition checkpoint_conditions :: "PayoutRecoveryCheckpointV1 \<Rightarrow> bytes option \<Rightarrow> BatchCondition list" where
  "checkpoint_conditions cp existing =
     [BatchCondition_new PAYOUT_RECOVERY_HEAD_NAMESPACE (decimal (unat (rc_network_id cp))) existing,
      BatchCondition_equals PAYOUT_RECOVERY_SOURCE_FENCE_NAMESPACE (decimal (unat (rc_network_id cp)))
        (encode_source_fence (rc_network_id cp) (rc_source_fence cp))]"

definition checkpoint_record :: "(bytes \<Rightarrow> hash256) \<Rightarrow> PayoutRecoveryCheckpointV1 \<Rightarrow> JournalBatchRecord" where
  "checkpoint_record H cp = JournalBatchRecord_new PayoutRecoveryCheckpoint
     (rh_checkpoint_wrapper_id (checkpoint_head H cp (encode_PayoutRecoveryCheckpointV1 cp)))
     (encode_PayoutRecoveryCheckpointV1 cp)"

definition checkpoint_operations :: "(bytes \<Rightarrow> hash256) \<Rightarrow> PayoutRecoveryCheckpointV1 \<Rightarrow> BatchOperation list" where
  "checkpoint_operations H cp = [Put PAYOUT_RECOVERY_HEAD_NAMESPACE (decimal (unat (rc_network_id cp)))
     (encode_head (checkpoint_head H cp (encode_PayoutRecoveryCheckpointV1 cp)))]"

lemmas checkpoint_batch_defs = checkpoint_conditions_def checkpoint_record_def checkpoint_operations_def
  BatchCondition_new_def BatchCondition_equals_def JournalBatchRecord_new_def prepared_record_def

lemma commit_rounds:
  assumes "env_disciplined mem_live ms_view env" "mem_live (fst w)" "hex_ok hx"
  obtains out w1 where
    "persist_records_with_conditions_and_batch hx memory_ops env [checkpoint_record H cp]
      (checkpoint_conditions cp existing) (checkpoint_operations H cp) w = (out, w1)"
    "mem_live (fst w1)"
    "rounds_outcome mem_live (\<lambda>e. False) ms_view env [prepared_record hx (checkpoint_record H cp)]
      (checkpoint_conditions cp existing) (checkpoint_operations H cp) w out w1"
proof -
  let ?q = "checkpoint_record H cp" and ?cs = "checkpoint_conditions cp existing" and ?ops = "checkpoint_operations H cp"
  obtain out w1 where run: "persist_records_with_conditions_and_batch hx memory_ops env [?q] ?cs ?ops w = (out, w1)"
    by (rule prod.exhaust)
  have valid: "invalid_request hx [?q] ?cs ?ops = None"
    by (auto simp: invalid_request_def checkpoint_batch_defs simp del: kind_namespace.simps)
  have "store_failure memory_ops mem_live (map (prepared_record hx) [?q]) ?cs ?ops = (\<lambda>e. False)"
    using memory_never_fails [OF assms(3), of ?cs ?ops "[?q]"] by (simp add: fun_eq_iff checkpoint_batch_defs)
  with live.persist_records_sound [OF assms(1,2) run valid] live.persist_records_inv [OF assms(1,2) run] run that
  show ?thesis by simp
qed

lemma commit_checkpoint_eq:
  "commit_checkpoint H hx ops env cp (encode_PayoutRecoveryCheckpointV1 cp) existing =
    rec_bind (rec_durable (persist_records_with_conditions_and_batch hx ops env [checkpoint_record H cp]
      (checkpoint_conditions cp existing) (checkpoint_operations H cp))) (\<lambda>outcome. case outcome of
        Committed \<Rightarrow> rec_pure (Inr CheckpointCommitted)
      | ExactRecord \<Rightarrow>
          rec_bind (source_fence_matches ops env (rc_network_id cp) (rc_source_fence cp)) (\<lambda>matches.
          if \<not> matches then rec_pure (Inl ConcurrentUpdate)
          else rec_bind (rec_get ops env PAYOUT_RECOVERY_HEAD_NAMESPACE (decimal (unat (rc_network_id cp)))) (\<lambda>found.
            rec_pure (if (case found of None \<Rightarrow> False
                | Some bs \<Rightarrow> decode_head (rc_network_id cp) bs = Inr (checkpoint_head H cp (encode_PayoutRecoveryCheckpointV1 cp)))
              then Inr AlreadyCurrent else Inl ConcurrentUpdate)))
      | PreconditionMismatch \<Rightarrow> rec_pure (Inl ConcurrentUpdate))"
  by (simp add: commit_checkpoint_def checkpoint_conditions_def checkpoint_record_def checkpoint_operations_def Let_def)

lemma commit_checkpoint_live:
  assumes "env_disciplined mem_live ms_view env" "mem_live (fst w)" "hex_ok hx"
    and "commit_checkpoint H hx memory_ops env cp (encode_PayoutRecoveryCheckpointV1 cp) existing w = (r, w')"
  shows "mem_live (fst w') \<and> (case r of
      Inr CheckpointCommitted \<Rightarrow> (\<exists>pre. env_only env w (pre, snd w') \<and>
        ms_view pre PAYOUT_RECOVERY_HEAD_NAMESPACE (decimal (unat (rc_network_id cp))) = existing \<and>
        ms_view pre PAYOUT_RECOVERY_SOURCE_FENCE_NAMESPACE (decimal (unat (rc_network_id cp))) =
          Some (encode_source_fence (rc_network_id cp) (rc_source_fence cp)) \<and>
        ms_view (fst w') = installed H hx cp (ms_view pre))
    | Inr AlreadyCurrent \<Rightarrow> env_only env w w' \<and>
        (\<exists>bs. ms_view (fst w') PAYOUT_RECOVERY_HEAD_NAMESPACE (decimal (unat (rc_network_id cp))) = Some bs \<and>
          decode_head (rc_network_id cp) bs = Inr (checkpoint_head H cp (encode_PayoutRecoveryCheckpointV1 cp)))
    | Inl e \<Rightarrow> env_only env w w')"
proof -
  obtain out w1 where run: "persist_records_with_conditions_and_batch hx memory_ops env [checkpoint_record H cp]
      (checkpoint_conditions cp existing) (checkpoint_operations H cp) w = (out, w1)"
    and live1: "mem_live (fst w1)"
    and sound: "rounds_outcome mem_live (\<lambda>e. False) ms_view env [prepared_record hx (checkpoint_record H cp)]
      (checkpoint_conditions cp existing) (checkpoint_operations H cp) w out w1"
    by (rule commit_rounds [OF assms(1-3)])
  consider (err) e where "out = Inl e" | (committed) "out = Inr Committed" | (exact) "out = Inr ExactRecord"
    | (mismatch) "out = Inr PreconditionMismatch"
    by (metis JournalBatchOutcome.exhaust sum.exhaust)
  then show ?thesis
  proof cases
    case committed
    then have "r = Inr CheckpointCommitted" "w' = w1"
      using assms(4) run by (auto simp: commit_checkpoint_eq rec_bind_def rec_durable_def rec_pure_def map_err_def)
    with sound committed live1 show ?thesis
      by (auto simp: rounds_outcome_def conditions_hold_def journal_operations_def checkpoint_batch_defs
          installed_def Let_def)
  next
    case exact
    have e1: "env_only env w w1" using sound exact by (simp add: rounds_outcome_def)
    obtain m where m: "source_fence_matches memory_ops env (rc_network_id cp) (rc_source_fence cp) w1 = (m, env_step env w1)"
      using source_fence_matches_live [OF assms(1) live1] by blast
    note l2 = env_step_live [OF assms(1) live1]
    note e2 = env_only_trans [OF e1 env_only_env_step]
    note e3 = env_only_trans [OF e2 env_only_env_step]
    show ?thesis
      using assms(4) run exact m rec_get_live [OF assms(1) l2, of PAYOUT_RECOVERY_HEAD_NAMESPACE "decimal (unat (rc_network_id cp))"] l2 e2 e3
        env_step_live [OF assms(1) l2]
      by (auto simp: commit_checkpoint_eq rec_bind_def rec_durable_def rec_pure_def map_err_def
          split: sum.splits if_splits option.splits)
  qed (use assms(4) run sound live1 in \<open>auto simp: commit_checkpoint_eq rec_bind_def rec_durable_def rec_pure_def
      map_err_def rounds_outcome_def\<close>)
qed

text \<open>The head that a checkpoint extends, in the state a batch finds.\<close>

definition extends_head ::
  "(bytes \<Rightarrow> hash256) \<Rightarrow> Ed25519 \<Rightarrow> nat \<Rightarrow> Hex \<Rightarrow> PayoutRecoveryCommitteePolicyV1 \<Rightarrow> PayoutRecoveryCheckpointV1 \<Rightarrow>
   kv_view \<Rightarrow> bool" where
  "extends_head H ed sz hx policy cp m \<longleftrightarrow>
     (case m PAYOUT_RECOVERY_HEAD_NAMESPACE (decimal (unat (rc_network_id cp))) of
        None \<Rightarrow> rc_checkpoint_sequence cp = 1 \<and> rc_previous_checkpoint_id cp = replicate 32 0
      | Some bs \<Rightarrow> \<exists>head previous. decode_head (rc_network_id cp) bs = Inr head \<and>
          unat (rc_checkpoint_sequence cp) = Suc (unat (rh_checkpoint_sequence head)) \<and>
          rc_previous_checkpoint_id cp = rh_checkpoint_id head \<and>
          checkpoint_at_head H ed sz policy head (m (kind_namespace PayoutRecoveryCheckpoint)
            (hex_encode hx (rh_checkpoint_wrapper_id head))) = Inr previous \<and>
          validate_checkpoint_transition previous cp = Inr ())"

lemma checkpoint_at_head_mono:
  assumes "checkpoint_at_head H ed sz policy head (m (kind_namespace kind) key) = Inr previous" "journal_le m m'"
  shows "checkpoint_at_head H ed sz policy head (m' (kind_namespace kind) key) = Inr previous"
  using assms
  by (cases "m (kind_namespace kind) key")
    (auto simp: checkpoint_at_head_def ok_or_def journal_le_def is_journal_namespace_def simp del: kind_namespace.simps)

lemma apply_nothing:
  "so_apply_batch_if_all memory_ops st cs [] = Inr (ok, st') \<Longrightarrow> st' = st"
  by (auto simp: memory_ops_def MemoryStore_apply_batch_if_all_def res_simps ms_lock_def split: if_splits)

lemma checked_succ: "checked_add a 1 = Some b \<Longrightarrow> unat b = Suc (unat (a :: u64))"
  by (simp add: checked_add_Some)

definition persist_outcome ::
  "(bytes \<Rightarrow> hash256) \<Rightarrow> Ed25519 \<Rightarrow> nat \<Rightarrow> Hex \<Rightarrow> MemoryStore env \<Rightarrow> PayoutRecoveryCommitteePolicyV1 \<Rightarrow>
   PayoutRecoveryCheckpointV1 \<Rightarrow> MemoryStore \<times> nat \<Rightarrow> PayoutRecoveryError + PayoutRecoveryPersistOutcome \<Rightarrow>
   MemoryStore \<times> nat \<Rightarrow> bool" where
  "persist_outcome H ed sz hx env policy cp w r w' \<longleftrightarrow> mem_live (fst w') \<and> (case r of
      Inr CheckpointCommitted \<Rightarrow> (\<exists>pre. env_only env w (pre, snd w') \<and>
        extends_head H ed sz hx policy cp (ms_view pre) \<and>
        ms_view pre PAYOUT_RECOVERY_SOURCE_FENCE_NAMESPACE (decimal (unat (rc_network_id cp))) =
          Some (encode_source_fence (rc_network_id cp) (rc_source_fence cp)) \<and>
        ms_view (fst w') = installed H hx cp (ms_view pre))
    | Inr AlreadyCurrent \<Rightarrow> env_only env w w' \<and>
        (\<exists>bs head. ms_view (fst w') PAYOUT_RECOVERY_HEAD_NAMESPACE (decimal (unat (rc_network_id cp))) = Some bs \<and>
          decode_head (rc_network_id cp) bs = Inr head \<and> rh_checkpoint_id head = object_id H (checkpoint_object cp) \<and>
          rh_checkpoint_sequence head = rc_checkpoint_sequence cp)
    | Inl e \<Rightarrow> env_only env w w')"

lemma persist_outcome_env:
  "env_only env w w' \<Longrightarrow> mem_live (fst w') \<Longrightarrow> persist_outcome H ed sz hx env policy cp w (Inl e) w'"
  by (simp add: persist_outcome_def)

lemma commit_outcome:
  assumes "env_disciplined mem_live ms_view env" "mem_live (fst w1)" "hex_ok hx" "env_only env w w1"
    and "commit_checkpoint H hx memory_ops env cp (encode_PayoutRecoveryCheckpointV1 cp) existing w1 = (r, w')"
    and ext: "\<And>m. journal_le (ms_view (fst w1)) m \<Longrightarrow>
      m PAYOUT_RECOVERY_HEAD_NAMESPACE (decimal (unat (rc_network_id cp))) = existing \<Longrightarrow> extends_head H ed sz hx policy cp m"
  shows "persist_outcome H ed sz hx env policy cp w r w'"
proof -
  note c = commit_checkpoint_live [OF assms(1-3,5)]
  have le: "journal_le (ms_view (fst w1)) (ms_view pre)" if "env_only env w1 (pre, snd w')" for pre
    using env_only_disciplined(2) [OF assms(1,2) that] by simp
  show ?thesis
  proof (cases "r = Inr CheckpointCommitted")
    case True
    with c obtain pre where pre: "env_only env w1 (pre, snd w')"
      "ms_view pre PAYOUT_RECOVERY_HEAD_NAMESPACE (decimal (unat (rc_network_id cp))) = existing"
      "ms_view pre PAYOUT_RECOVERY_SOURCE_FENCE_NAMESPACE (decimal (unat (rc_network_id cp))) =
          Some (encode_source_fence (rc_network_id cp) (rc_source_fence cp))"
      "ms_view (fst w') = installed H hx cp (ms_view pre)" by auto
    show ?thesis
      using True c pre ext [OF le [OF pre(1)] pre(2)] env_only_trans [OF assms(4) pre(1)]
      by (auto simp: persist_outcome_def)
  next
    case False
    with c env_only_trans [OF assms(4)] show ?thesis
      by (auto simp: persist_outcome_def checkpoint_head_def split: sum.splits PayoutRecoveryPersistOutcome.splits)
  qed
qed

text \<open>The part after the head was read, for a head that is not this checkpoint's.\<close>

lemma successor_outcome:
  assumes "env_disciplined mem_live ms_view env" "mem_live (fst w1)" "hex_ok hx" "env_only env w w1"
    and "decode_head (rc_network_id cp) bs = Inr current"
    and "unat (rc_checkpoint_sequence cp) = Suc (unat (rh_checkpoint_sequence current))"
    and "rc_previous_checkpoint_id cp = rh_checkpoint_id current"
    and "rec_bind (load_checkpoint_at_head H ed sz hx memory_ops env policy current) (\<lambda>previous.
      rec_bind (rec_pure (validate_checkpoint_transition previous cp)) (\<lambda>_.
      commit_checkpoint H hx memory_ops env cp (encode_PayoutRecoveryCheckpointV1 cp) (Some bs))) w1 = (r, w')"
  shows "persist_outcome H ed sz hx env policy cp w r w'"
proof -
  let ?w2 = "env_step env w1"
  note l2 = env_step_live [OF assms(1,2)]
  note e2 = env_only_trans [OF assms(4) env_only_env_step]
  from assms(8) show ?thesis
  proof (cases rule: rec_bind_cases)
    case (ok previous w2)
    then have at: "checkpoint_at_head H ed sz policy current (ms_view (fst ?w2) (kind_namespace PayoutRecoveryCheckpoint)
        (hex_encode hx (rh_checkpoint_wrapper_id current))) = Inr previous" and w2: "w2 = ?w2"
      using load_checkpoint_at_head_live [OF assms(1-3), of H ed sz policy current]
      by (auto simp del: kind_namespace.simps)
    show ?thesis
    proof (cases "validate_checkpoint_transition previous cp")
      case (Inl e)
      with ok w2 l2 e2 show ?thesis by (auto simp: rec_pure_def intro: persist_outcome_env)
    next
      case (Inr u)
      show ?thesis
      proof (rule commit_outcome [OF assms(1) l2 assms(3) e2])
        show "commit_checkpoint H hx memory_ops env cp (encode_PayoutRecoveryCheckpointV1 cp) (Some bs) ?w2 = (r, w')"
          using ok Inr w2 by simp
        show "extends_head H ed sz hx policy cp m" if "journal_le (ms_view (fst ?w2)) m"
          "m PAYOUT_RECOVERY_HEAD_NAMESPACE (decimal (unat (rc_network_id cp))) = Some bs" for m
          using that(2) assms(5-7) Inr checkpoint_at_head_mono [OF at that(1)]
          by (auto simp: extends_head_def)
      qed
    qed
  qed (use load_checkpoint_at_head_live [OF assms(1-3), of H ed sz policy current] e2 l2 in \<open>auto intro: persist_outcome_env\<close>)
qed

lemma retry_outcome:
  assumes "env_disciplined mem_live ms_view env" "mem_live (fst w1)" "hex_ok hx" "env_only env w w1"
    and "decode_head (rc_network_id cp) bs = Inr current" "rh_checkpoint_id current = object_id H (checkpoint_object cp)"
    and "rh_checkpoint_sequence current = rc_checkpoint_sequence cp"
    and "rec_bind (load_checkpoint_at_head H ed sz hx memory_ops env policy current) (\<lambda>_.
      rec_bind (rec_durable (act_write env (\<lambda>st. so_apply_batch_if_all memory_ops st
        [BatchCondition_equals PAYOUT_RECOVERY_HEAD_NAMESPACE (decimal (unat (rc_network_id cp))) bs,
         BatchCondition_equals PAYOUT_RECOVERY_SOURCE_FENCE_NAMESPACE (decimal (unat (rc_network_id cp))) fence] [])))
      (\<lambda>applied. rec_pure (if applied then Inr AlreadyCurrent else Inl ConcurrentUpdate))) w1 = (r, w')"
  shows "persist_outcome H ed sz hx env policy cp w r w'"
proof -
  let ?w2 = "env_step env w1"
  let ?w3 = "env_step env ?w2"
  let ?cs = "[BatchCondition_equals PAYOUT_RECOVERY_HEAD_NAMESPACE (decimal (unat (rc_network_id cp))) bs,
    BatchCondition_equals PAYOUT_RECOVERY_SOURCE_FENCE_NAMESPACE (decimal (unat (rc_network_id cp))) fence]"
  note l2 = env_step_live [OF assms(1,2)]
  note l3 = env_step_live [OF assms(1) l2]
  note e2 = env_only_trans [OF assms(4) env_only_env_step]
  note e3 = env_only_trans [OF e2 env_only_env_step]
  obtain ok st4 where batch: "so_apply_batch_if_all memory_ops (fst ?w3) ?cs [] = Inr (ok, st4)"
    using live_batch [OF l3, of ?cs "[]"] by (auto simp: BatchCondition_equals_def BatchCondition_new_def)
  note law = live.batch_law [OF l3 batch] and same = apply_nothing [OF batch]
  have w3: "?w3 = (fst ?w3, Suc (snd ?w2))" "fst ?w3 = env (snd ?w2) (fst ?w2)" by (simp_all add: env_step_def)
  have applied: "act_write env (\<lambda>st. so_apply_batch_if_all memory_ops st ?cs []) ?w2 = (Inr ok, ?w3)"
    using batch same w3 by (simp add: act_write_def case_prod_beta)
  show ?thesis
    using assms(5-8) load_checkpoint_at_head_live [OF assms(1-3), of H ed sz policy current] applied law same e2 e3 l2 l3
    by (auto simp: rec_bind_def rec_durable_def rec_pure_def map_err_def persist_outcome_def conditions_hold_def
        BatchCondition_equals_def BatchCondition_new_def split: sum.splits if_splits)
qed

lemma known_head_outcome:
  assumes "env_disciplined mem_live ms_view env" "mem_live (fst w2)" "hex_ok hx" "env_only env w w2"
    and "decode_head (rc_network_id cp) bs = Inr current"
    and run: "(if rh_checkpoint_id current = object_id H (checkpoint_object cp) then
         if rh_checkpoint_sequence current \<noteq> rc_checkpoint_sequence cp then rec_pure (Inl Sequence)
         else
         rec_bind (load_checkpoint_at_head H ed sz hx memory_ops env policy current) (\<lambda>_.
         rec_bind (rec_durable (act_write env (\<lambda>st. so_apply_batch_if_all memory_ops st
           [BatchCondition_equals PAYOUT_RECOVERY_HEAD_NAMESPACE (decimal (unat (rc_network_id cp))) bs,
            BatchCondition_equals PAYOUT_RECOVERY_SOURCE_FENCE_NAMESPACE (decimal (unat (rc_network_id cp))) fence] []))) (\<lambda>applied.
         rec_pure (if applied then Inr AlreadyCurrent else Inl ConcurrentUpdate)))
       else
         rec_bind (rec_pure (ok_or Sequence (checked_add (rh_checkpoint_sequence current) 1))) (\<lambda>next_sequence.
         if rc_checkpoint_sequence cp \<noteq> next_sequence \<or> rc_previous_checkpoint_id cp \<noteq> rh_checkpoint_id current
         then rec_pure (Inl Sequence)
         else
         rec_bind (load_checkpoint_at_head H ed sz hx memory_ops env policy current) (\<lambda>previous.
         rec_bind (rec_pure (validate_checkpoint_transition previous cp)) (\<lambda>_.
         commit_checkpoint H hx memory_ops env cp (encode_PayoutRecoveryCheckpointV1 cp) (Some bs))))) w2 = (r, w')"
  shows "persist_outcome H ed sz hx env policy cp w r w'"
proof -
  consider (reject) e where "r = Inl e" "w' = w2"
    | (retry) "rh_checkpoint_id current = object_id H (checkpoint_object cp)" "rh_checkpoint_sequence current = rc_checkpoint_sequence cp"
    | (succ) "rh_checkpoint_id current \<noteq> object_id H (checkpoint_object cp)"
        "checked_add (rh_checkpoint_sequence current) 1 = Some (rc_checkpoint_sequence cp)"
        "rc_previous_checkpoint_id cp = rh_checkpoint_id current"
    using run by (auto simp: rec_bind_pure_at rec_pure_def ok_or_def split: if_splits option.splits)
  then show ?thesis
  proof cases
    case reject
    with assms(2,4) show ?thesis by (simp add: persist_outcome_env)
  next
    case retry
    show ?thesis
      by (rule retry_outcome [OF assms(1-5) retry]) (use run retry in simp)
  next
    case succ
    show ?thesis
      by (rule successor_outcome [OF assms(1-5) checked_succ [OF succ(2)] succ(3)]) (use run succ in simp)
  qed
qed

lemma persist_payout_recovery_outcome:
  assumes "env_disciplined mem_live ms_view env" "mem_live (fst w)" "hex_ok hx"
    and "persist_payout_recovery_checkpoint H ed sz hx memory_ops env cp policy w = (r, w')"
  shows "persist_outcome H ed sz hx env policy cp w r w'"
proof -
  let ?w1 = "env_step env w"
  let ?w2 = "env_step env ?w1"
  let ?key = "decimal (unat (rc_network_id cp))"
  note l1 = env_step_live [OF assms(1,2)] and l2 = env_step_live [OF assms(1) env_step_live [OF assms(1,2)]]
  note e1 = env_only_env_step [of env w] and e2 = env_only_trans [OF env_only_env_step [of env w] env_only_env_step]
  note pure = persist_outcome_env [OF env_only_refl assms(2)] persist_outcome_env [OF e1 l1] persist_outcome_env [OF e2 l2]
  obtain m where m: "source_fence_matches memory_ops env (rc_network_id cp) (rc_source_fence cp) w = (m, ?w1)"
    using source_fence_matches_live [OF assms(1,2)] by blast
  note head = rec_get_live [OF assms(1) l1 recovery_keys_ok(1), of "unat (rc_network_id cp)"]
  note run = assms(4) [unfolded persist_payout_recovery_checkpoint_def Let_def]
  show ?thesis
  proof (cases "canonical_payload sz cp = Inr (encode_PayoutRecoveryCheckpointV1 cp) \<and> verify_checkpoint H ed policy cp = Inr () \<and> m = Inr True")
    case False
    then show ?thesis
      using run m pure canonical_payload_iff [of sz cp]
      by (cases "canonical_payload sz cp"; cases "verify_checkpoint H ed policy cp"; cases m)
        (auto simp: rec_bind_def rec_pure_def split: if_splits)
  next
    case True
    show ?thesis
    proof (cases "ms_view (fst ?w2) PAYOUT_RECOVERY_HEAD_NAMESPACE ?key")
      case None
      show ?thesis
      proof (cases "rc_checkpoint_sequence cp \<noteq> 1 \<or> rc_previous_checkpoint_id cp \<noteq> replicate 32 0")
        case False
        with run True m head None have "commit_checkpoint H hx memory_ops env cp (encode_PayoutRecoveryCheckpointV1 cp) None ?w2 = (r, w')"
          by (simp add: rec_bind_def rec_pure_def)
        then show ?thesis
          by (rule commit_outcome [OF assms(1) l2 assms(3) e2]) (use False in \<open>simp add: extends_head_def\<close>)
      qed (use run True m head None pure in \<open>auto simp: rec_bind_def rec_pure_def\<close>)
    next
      case (Some bs)
      show ?thesis
      proof (cases "decode_head (rc_network_id cp) bs")
        case (Inl e)
        with run True m head Some pure show ?thesis by (auto simp: rec_bind_def rec_pure_def)
      next
        case (Inr current)
        show ?thesis
          by (rule known_head_outcome [OF assms(1) l2 assms(3) e2 Inr])
            (use run True m head Some Inr in \<open>simp add: rec_bind_def [of "source_fence_matches _ _ _ _"]
              rec_bind_def [of "rec_get _ _ _ _"]\<close>)
      qed
    qed
  qed
qed

text \<open>
  C9: a commit extends the checkpoint chain. Whatever disciplined writers do between the calls, a checkpoint is
  reported as committed only if a threshold certificate authenticated it and one atomic batch installed
  its record and its head in a state where the stored head was its direct predecessor (or absent, for
  the first), with a valid transition from the predecessor's recorded checkpoint, and the stored source
  fence was the sealed one. If it is reported current, the head carries its identifier and sequence and
  nothing was written; on every error nothing was written.
\<close>

theorem checkpoint_commit_extends_chain:
  assumes "env_disciplined mem_live ms_view env" "mem_live st" "hex_ok hx"
    and "persist_payout_recovery_checkpoint H ed sz hx memory_ops env cp policy (st, n) = (r, (st', n'))"
  shows "case r of
      Inr CheckpointCommitted \<Rightarrow> verify_checkpoint H ed policy cp = Inr () \<and>
        (\<exists>pre. env_only env (st, n) (pre, n') \<and> extends_head H ed sz hx policy cp (ms_view pre) \<and>
          ms_view pre PAYOUT_RECOVERY_SOURCE_FENCE_NAMESPACE (decimal (unat (rc_network_id cp))) =
            Some (encode_source_fence (rc_network_id cp) (rc_source_fence cp)) \<and>
          ms_view st' = installed H hx cp (ms_view pre))
    | Inr AlreadyCurrent \<Rightarrow> env_only env (st, n) (st', n') \<and>
        (\<exists>bs head. ms_view st' PAYOUT_RECOVERY_HEAD_NAMESPACE (decimal (unat (rc_network_id cp))) = Some bs \<and>
          decode_head (rc_network_id cp) bs = Inr head \<and> rh_checkpoint_id head = object_id H (checkpoint_object cp) \<and>
          rh_checkpoint_sequence head = rc_checkpoint_sequence cp)
    | Inl e \<Rightarrow> env_only env (st, n) (st', n')"
proof -
  have "verify_checkpoint H ed policy cp = Inr ()" if "r = Inr x" for x
    using assms(4) that unfolding persist_payout_recovery_checkpoint_def
    by (cases "canonical_payload sz cp"; cases "verify_checkpoint H ed policy cp") (auto simp: rec_pure_def)
  moreover have "persist_outcome H ed sz hx env policy cp (st, n) r (st', n')"
    using persist_payout_recovery_outcome [OF assms(1) _ assms(3,4)] assms(2) by simp
  ultimately show ?thesis
    unfolding persist_outcome_def by (auto split: sum.splits PayoutRecoveryPersistOutcome.splits)
qed

section \<open>Loading\<close>

lemma contiguous_sequences:
  assumes "list_all (\<lambda>(offset, entry). Option.bind (u64_try_from offset) (checked_add start) = Some (f entry)) (enumerate k xs)"
  shows "map (\<lambda>x. unat (f x :: u64)) xs = [unat start + k..<unat start + k + length xs]"
  using assms
proof (induction xs arbitrary: k)
  case (Cons x xs)
  from Cons.prems have "unat (f x) = unat start + k"
    by (auto simp: u64_try_from_def checked_add_Some unat_of_nat bind_eq_Some_conv split: if_splits)
  moreover have "map (\<lambda>x. unat (f x)) xs = [unat start + Suc k..<unat start + Suc k + length xs]"
    by (rule Cons.IH) (use Cons.prems in simp)
  ultimately show ?case by (simp add: upt_conv_Cons del: upt_Suc)
qed simp

lemma guard_Inr: "(if b then Inl e else Inr u) = Inr v \<longleftrightarrow> \<not> b \<and> u = v"
  by simp

lemma guard_Some: "(if b then Some u else None) = Some v \<longleftrightarrow> b \<and> u = v"
  by simp

lemma validate_structure_queue:
  assumes "validate_structure sz cp = Inr ()"
  shows "map (\<lambda>x. unat (ep_plan_sequence x)) (rc_expected_plans cp) =
      [Suc (unat (sf_plan_count (rc_source_fence cp)))..<Suc (unat (sf_snapshot_count (rc_source_fence cp)))]"
    "canonical_accumulator sz (rc_accumulator cp) = Inr (rc_accumulator cp)"
proof -
  let ?f = "rc_source_fence cp"
  from assms obtain start where start: "checked_add (sf_plan_count ?f) 1 = Some start" "sf_plan_count ?f \<le> sf_snapshot_count ?f"
      "length (rc_expected_plans cp) = unat (sf_snapshot_count ?f - sf_plan_count ?f)"
      "list_all (\<lambda>(offset, entry). Option.bind (u64_try_from offset) (checked_add start) = Some (ep_plan_sequence entry))
        (enumerate 0 (rc_expected_plans cp))"
    and "canonical_accumulator sz (rc_accumulator cp) = Inr (rc_accumulator cp)"
    unfolding validate_structure_def Let_def res_bind_Inr_iff ok_or_Inr_iff guard_Inr de_Morgan_disj not_not guard_Some
    by (elim exE conjE) (rule that, (assumption | simp only:)+)
  then show "canonical_accumulator sz (rc_accumulator cp) = Inr (rc_accumulator cp)" by blast
  have "unat (sf_plan_count ?f) \<le> unat (sf_snapshot_count ?f)" using start(2) by (rule word_le_nat_alt [THEN iffD1])
  then have "unat start + 0 + length (rc_expected_plans cp) = Suc (unat (sf_snapshot_count ?f))"
    by (simp only: start(3) unat_sub [OF start(2)] checked_succ [OF start(1)])
  with contiguous_sequences [OF start(4)] show "map (\<lambda>x. unat (ep_plan_sequence x)) (rc_expected_plans cp) =
      [Suc (unat (sf_plan_count ?f))..<Suc (unat (sf_snapshot_count ?f))]"
    by (simp only: checked_succ [OF start(1)] add_0_right)
qed

lemma checkpoint_at_head_iff:
  "checkpoint_at_head H ed sz policy head found = Inr cp \<longleftrightarrow>
    found = Some (encode_PayoutRecoveryCheckpointV1 cp) \<and>
    canonical_payload sz cp = Inr (encode_PayoutRecoveryCheckpointV1 cp) \<and>
    head = checkpoint_head H cp (encode_PayoutRecoveryCheckpointV1 cp) \<and> verify_checkpoint H ed policy cp = Inr ()"
  using recovery_codec.from_canonical_bytes_iff [OF checkpoint_limits_usize]
  by (cases head)
    (auto simp: checkpoint_at_head_def res_simps map_err_Inr_iff canonical_payload_iff checkpoint_head_def
      checkpoint_limits_def split: if_splits)

lemma load_payout_recovery_live:
  assumes "env_disciplined mem_live ms_view env" "mem_live (fst w)" "hex_ok hx"
  defines "w1 \<equiv> env_step env w"
  defines "w2 \<equiv> env_step env w1"
  defines "w3 \<equiv> env_step env w2"
  shows "load_payout_recovery_checkpoint H ed sz hx memory_ops env policy w = (Inr (Some cp), w') \<longleftrightarrow>
    w' = w3 \<and> policy_validate policy = Inr () \<and>
    (\<exists>bs head. ms_view (fst w1) PAYOUT_RECOVERY_HEAD_NAMESPACE (decimal (unat (rp_network_id policy))) = Some bs \<and>
      decode_head (rp_network_id policy) bs = Inr head \<and>
      checkpoint_at_head H ed sz policy head (ms_view (fst w2) (kind_namespace PayoutRecoveryCheckpoint)
        (hex_encode hx (rh_checkpoint_wrapper_id head))) = Inr cp) \<and>
    ms_view (fst w3) PAYOUT_RECOVERY_SOURCE_FENCE_NAMESPACE (decimal (unat (rp_network_id policy))) =
      Some (encode_source_fence (rp_network_id policy) (rc_source_fence cp)) \<and>
    valid_fence default_limits (rc_source_fence cp) \<and> validate_coherence (rc_source_fence cp) = Inr ()"
proof -
  have l1: "mem_live (fst w1)" and l2: "mem_live (fst w2)"
    unfolding w1_def w2_def by (intro env_step_live assms)+
  note head = rec_get_live [OF assms(1,2) recovery_keys_ok(1), folded w1_def]
  note load = load_checkpoint_at_head_live [OF assms(1) l1 assms(3), folded w2_def]
  have fence: "source_fence_matches memory_ops env n f w2 = (Inr True, w') \<longleftrightarrow> w' = w3 \<and>
      ms_view (fst w3) PAYOUT_RECOVERY_SOURCE_FENCE_NAMESPACE (decimal (unat n)) = Some (encode_source_fence n f) \<and>
      valid_fence default_limits f \<and> validate_coherence f = Inr ()" for n f w'
    using source_fence_matches_live [OF assms(1) l2, of n f, folded w3_def] by auto
  have final: "rec_bind (source_fence_matches memory_ops env n (rc_source_fence c)) (\<lambda>matches.
      if \<not> matches then rec_pure (Inl SourceFenceMismatch) else rec_pure (Inr (Some c))) w2 = (Inr (Some cp), w') \<longleftrightarrow>
      c = cp \<and> source_fence_matches memory_ops env n (rc_source_fence cp) w2 = (Inr True, w')" for n c
    by (auto simp: rec_bind_def rec_pure_def split: prod.splits sum.splits if_splits)
  show ?thesis
    by (auto simp: load_payout_recovery_checkpoint_def Let_def rec_bind_pure_at rec_bind_def [of "rec_get _ _ _ _"]
        rec_bind_def [of "load_checkpoint_at_head _ _ _ _ _ _ _ _"] head load final fence rec_pure_def
        split: sum.splits option.splits simp del: kind_namespace.simps)
qed

lemma signers_meet_threshold:
  assumes "verify_checkpoint H ed policy cp = Inr ()"
  shows "unat (rp_threshold policy) \<le> card {key \<in> rp_members policy. \<exists>entry \<in> set (sset_signatures (rc_signer_set cp)).
      sgs_signer_pubkey entry = key \<and> signed_by H ed (rc_network_id cp) (checkpoint_object cp) entry}"
proof -
  let ?keys = "map sgs_signer_pubkey (sset_signatures (rc_signer_set cp))"
  note v = assms [unfolded verify_checkpoint_iff verify_certificate_iff]
  have "distinct ?keys" using v by (simp add: strict_sorted_iff)
  then have "length ?keys = card (set ?keys)" by (simp only: distinct_card)
  also have "set ?keys = {key \<in> rp_members policy. \<exists>entry \<in> set (sset_signatures (rc_signer_set cp)).
      sgs_signer_pubkey entry = key \<and> signed_by H ed (rc_network_id cp) (checkpoint_object cp) entry}"
    using v by auto
  finally show ?thesis using v by simp
qed

text \<open>
  C37: what recovery returns can be trusted. A checkpoint returned by loading, whatever disciplined writers do
  meanwhile, carries signatures of at least the threshold of distinct committee members on this very
  checkpoint, seals the source fence stored at the end of the load, restores an accumulator that
  satisfies the invariant of the running ones and whose checkpoint is the sealed one, and expects
  exactly the plan sequences after the last plan up to the last snapshot. Loading writes nothing.
\<close>

theorem recovered_checkpoint_sound:
  assumes "env_disciplined mem_live ms_view env" "mem_live st" "hex_ok hx"
    and "load_payout_recovery_checkpoint H ed sz hx memory_ops env policy (st, n) = (Inr (Some cp), (st', n'))"
  shows "env_only env (st, n) (st', n') \<and>
    unat (rp_threshold policy) \<le> card {key \<in> rp_members policy. \<exists>entry \<in> set (sset_signatures (rc_signer_set cp)).
      sgs_signer_pubkey entry = key \<and> signed_by H ed (rc_network_id cp) (checkpoint_object cp) entry} \<and>
    ms_view st' PAYOUT_RECOVERY_SOURCE_FENCE_NAMESPACE (decimal (unat (rc_network_id cp))) =
      Some (encode_source_fence (rc_network_id cp) (rc_source_fence cp)) \<and>
    (\<exists>acc. from_checkpoint sz (rc_accumulator cp) SnapshotAccumulatorLimits_default = Some (Inr acc) \<and>
      acc_inv sz acc \<and> checkpoint acc = Inr (rc_accumulator cp)) \<and>
    map (\<lambda>x. unat (ep_plan_sequence x)) (rc_expected_plans cp) =
      [Suc (unat (sf_plan_count (rc_source_fence cp)))..<Suc (unat (sf_snapshot_count (rc_source_fence cp)))]"
proof -
  let ?w = "(st, n)"
  let ?w3 = "env_step env (env_step env (env_step env ?w))"
  have live: "mem_live (fst ?w)" using assms(2) by simp
  note l = load_payout_recovery_live [OF assms(1) live assms(3), THEN iffD1, OF assms(4)]
  then have w3: "(st', n') = ?w3" by blast
  from l obtain head found where "checkpoint_at_head H ed sz policy head found = Inr cp" by blast
  then have cp: "validate_structure sz cp = Inr ()" "valid_recovery checkpoint_limits cp" "verify_checkpoint H ed policy cp = Inr ()"
    by (auto simp: checkpoint_at_head_iff canonical_payload_iff)
  note only = env_only_trans [OF env_only_trans [OF env_only_env_step env_only_env_step] env_only_env_step, of env ?w]
  have net: "rp_network_id policy = rc_network_id cp" using cp(3) by (simp add: verify_checkpoint_iff)
  have st': "st' = fst ?w3" using w3 by (metis fst_conv)
  have "valid_accumulator checkpoint_limits (rc_accumulator cp)" using cp(2) by (simp add: valid_recovery_def)
  note acc = canonical_accumulator_restores [OF validate_structure_queue(2) [OF cp(1)] this]
  show ?thesis
    using l only [folded w3] signers_meet_threshold [OF cp(3)] acc validate_structure_queue(1) [OF cp(1)]
    unfolding net st' by blast
qed

section \<open>Installing without other writers\<close>

lemma env_only_alone: "env_only alone w w' \<Longrightarrow> fst w' = fst w"
proof -
  have "fold alone ns st = st" for ns st by (induction ns) (simp_all add: alone_def)
  then show "env_only alone w w' \<Longrightarrow> fst w' = fst w" by (simp add: env_only_def)
qed

lemma env_step_alone [simp]: "fst (env_step alone w) = fst w"
  by (simp add: env_step_def alone_def)

lemma commit_alone:
  assumes "mem_live (fst w)" "hex_ok hx"
    and "ms_view (fst w) PAYOUT_RECOVERY_HEAD_NAMESPACE (decimal (unat (rc_network_id cp))) = existing"
    and "ms_view (fst w) PAYOUT_RECOVERY_SOURCE_FENCE_NAMESPACE (decimal (unat (rc_network_id cp))) =
      Some (encode_source_fence (rc_network_id cp) (rc_source_fence cp))"
    and "ms_view (fst w) (kind_namespace PayoutRecoveryCheckpoint) (hex_encode hx (rh_checkpoint_wrapper_id
        (checkpoint_head H cp (encode_PayoutRecoveryCheckpointV1 cp)))) \<in> {None, Some (encode_PayoutRecoveryCheckpointV1 cp)}"
  shows "\<exists>w'. commit_checkpoint H hx memory_ops alone cp (encode_PayoutRecoveryCheckpointV1 cp) existing w =
      (Inr CheckpointCommitted, w') \<and> mem_live (fst w') \<and> ms_view (fst w') = installed H hx cp (ms_view (fst w))"
proof -
  obtain out w1 where run: "persist_records_with_conditions_and_batch hx memory_ops alone [checkpoint_record H cp]
      (checkpoint_conditions cp existing) (checkpoint_operations H cp) w = (out, w1)"
    and live1: "mem_live (fst w1)"
    and sound: "rounds_outcome mem_live (\<lambda>e. False) ms_view alone [prepared_record hx (checkpoint_record H cp)]
      (checkpoint_conditions cp existing) (checkpoint_operations H cp) w out w1"
    by (rule commit_rounds [OF alone_disciplined assms(1,2)])
  have cs: "conditions_hold (checkpoint_conditions cp existing) (ms_view (fst v))" if "fst v = fst w" for v
    using that assms(3,4) by (simp add: conditions_hold_def checkpoint_batch_defs)
  have conflict: "\<not> conflicts_in (ms_view (fst w)) (prepared_record hx (checkpoint_record H cp))"
    using assms(5) by (auto simp: conflicts_in_def checkpoint_batch_defs)
  have "out = Inr Committed"
  proof (cases out)
    case (Inl e)
    with sound conflict env_only_alone [of w w1] show ?thesis by (auto simp: rounds_outcome_def)
  next
    case (Inr outcome)
    with sound cs env_only_alone show ?thesis
      by (cases outcome) (simp_all add: rounds_outcome_def del: split_paired_Ex, blast+)
  qed
  then have commit: "commit_checkpoint H hx memory_ops alone cp (encode_PayoutRecoveryCheckpointV1 cp) existing w =
      (Inr CheckpointCommitted, w1)"
    using run by (simp add: commit_checkpoint_eq rec_bind_def rec_durable_def map_err_def rec_pure_def)
  from commit_checkpoint_live [OF alone_disciplined assms(1,2) this] obtain pre where
    "env_only alone w (pre, snd w1)" "ms_view (fst w1) = installed H hx cp (ms_view pre)" by auto
  with commit live1 env_only_alone [of w "(pre, snd w1)"] show ?thesis by auto
qed

lemma validate_structure_coherent: "validate_structure sz cp = Inr () \<Longrightarrow> validate_coherence (rc_source_fence cp) = Inr ()"
  by (auto simp: validate_structure_def res_bind_Inr_iff Let_def)

lemma sealed_fence:
  assumes "canonical_payload sz cp = Inr sealed"
  shows "valid_fence default_limits (rc_source_fence cp)" "validate_coherence (rc_source_fence cp) = Inr ()"
    "rc_checkpoint_sequence cp \<noteq> 0"
proof -
  from assms have "validate_structure sz cp = Inr ()" "valid_recovery checkpoint_limits cp"
    by (simp_all add: canonical_payload_iff)
  then show "valid_fence default_limits (rc_source_fence cp)" "validate_coherence (rc_source_fence cp) = Inr ()"
    by (simp_all add: valid_recovery_def valid_fence_def validate_structure_coherent)
  from \<open>validate_structure sz cp = Inr ()\<close> show "rc_checkpoint_sequence cp \<noteq> 0"
    unfolding validate_structure_def Let_def res_bind_Inr_iff guard_Inr de_Morgan_disj by blast
qed

lemma persist_alone:
  assumes "mem_live (fst w)" "hex_ok hx" "canonical_payload sz cp = Inr (encode_PayoutRecoveryCheckpointV1 cp)"
    "verify_checkpoint H ed policy cp = Inr ()" "extends_head H ed sz hx policy cp (ms_view (fst w))"
    "object_id H (checkpoint_object cp) \<noteq> rc_previous_checkpoint_id cp"
    and fence: "ms_view (fst w) PAYOUT_RECOVERY_SOURCE_FENCE_NAMESPACE (decimal (unat (rc_network_id cp))) =
      Some (encode_source_fence (rc_network_id cp) (rc_source_fence cp))"
    and free: "ms_view (fst w) (kind_namespace PayoutRecoveryCheckpoint) (hex_encode hx (rh_checkpoint_wrapper_id
        (checkpoint_head H cp (encode_PayoutRecoveryCheckpointV1 cp)))) \<in> {None, Some (encode_PayoutRecoveryCheckpointV1 cp)}"
  shows "\<exists>w'. persist_payout_recovery_checkpoint H ed sz hx memory_ops alone cp policy w = (Inr CheckpointCommitted, w') \<and>
    mem_live (fst w') \<and> ms_view (fst w') = installed H hx cp (ms_view (fst w))"
proof -
  let ?w1 = "env_step alone w" and ?key = "decimal (unat (rc_network_id cp))"
  let ?w2 = "env_step alone ?w1"
  note l1 = env_step_live [OF alone_disciplined assms(1)] and l2 = env_step_live [OF alone_disciplined env_step_live [OF alone_disciplined assms(1)]]
  have m: "source_fence_matches memory_ops alone (rc_network_id cp) (rc_source_fence cp) w = (Inr True, ?w1)"
    using source_fence_matches_live [OF alone_disciplined assms(1), of "rc_network_id cp" "rc_source_fence cp"]
      sealed_fence [OF assms(3)] fence by auto
  note head = rec_get_live [OF alone_disciplined l1 recovery_keys_ok(1), of "unat (rc_network_id cp)", simplified]
  have commit: "\<exists>w'. commit_checkpoint H hx memory_ops alone cp (encode_PayoutRecoveryCheckpointV1 cp)
        (ms_view (fst w) PAYOUT_RECOVERY_HEAD_NAMESPACE ?key) v = (Inr CheckpointCommitted, w') \<and>
      mem_live (fst w') \<and> ms_view (fst w') = installed H hx cp (ms_view (fst w))" if "fst v = fst w" for v
    using commit_alone [of v hx cp "ms_view (fst w) PAYOUT_RECOVERY_HEAD_NAMESPACE ?key" H] assms(1,2) fence free that by simp
  show ?thesis
  proof (cases "ms_view (fst w) PAYOUT_RECOVERY_HEAD_NAMESPACE ?key")
    case None
    with commit [of ?w2] assms(3-5) m head show ?thesis
      by (simp add: persist_payout_recovery_checkpoint_def Let_def rec_bind_def [of "source_fence_matches _ _ _ _"]
          rec_bind_def [of "rec_get _ _ _ _"] extends_head_def)
  next
    case (Some bs)
    with assms(5) obtain current previous where d: "decode_head (rc_network_id cp) bs = Inr current"
      "unat (rc_checkpoint_sequence cp) = Suc (unat (rh_checkpoint_sequence current))"
      "rc_previous_checkpoint_id cp = rh_checkpoint_id current"
      "checkpoint_at_head H ed sz policy current (ms_view (fst w) (kind_namespace PayoutRecoveryCheckpoint)
            (hex_encode hx (rh_checkpoint_wrapper_id current))) = Inr previous"
      "validate_checkpoint_transition previous cp = Inr ()" by (auto simp: extends_head_def)
    have succ: "checked_add (rh_checkpoint_sequence current) 1 = Some (rc_checkpoint_sequence cp)"
      using d(2) by (simp add: checked_add_Some)
    have id: "rh_checkpoint_id current \<noteq> object_id H (checkpoint_object cp)" using d(3) assms(6) by simp
    have load: "load_checkpoint_at_head H ed sz hx memory_ops alone policy current ?w2 = (Inr previous, env_step alone ?w2)"
      using load_checkpoint_at_head_live [OF alone_disciplined l2 assms(2), of H ed sz policy current] d(4) by simp
    from commit [of "env_step alone ?w2"] Some assms(3,4) m head d succ id load show ?thesis
      by (simp add: persist_payout_recovery_checkpoint_def Let_def rec_bind_def [of "source_fence_matches _ _ _ _"]
          rec_bind_def [of "rec_get _ _ _ _"] rec_bind_def [of "load_checkpoint_at_head _ _ _ _ _ _ _ _"])
  qed
qed

lemma load_installed:
  assumes "mem_live st'" "hex_ok hx" "\<forall>bs. length (H bs) = 32"
    and "canonical_payload sz cp = Inr (encode_PayoutRecoveryCheckpointV1 cp)" "verify_checkpoint H ed policy cp = Inr ()"
    and "m PAYOUT_RECOVERY_SOURCE_FENCE_NAMESPACE (decimal (unat (rc_network_id cp))) =
      Some (encode_source_fence (rc_network_id cp) (rc_source_fence cp))"
    and "object_id H (checkpoint_object cp) \<noteq> replicate 32 0"
    and "domain_hash H PAYOUT_RECOVERY_WRAPPER_DOMAIN (encode_PayoutRecoveryCheckpointV1 cp) \<noteq> replicate 32 0"
    and st': "ms_view st' = installed H hx cp m"
  shows "load_payout_recovery_checkpoint H ed sz hx memory_ops alone policy (st', k) =
    (Inr (Some cp), env_step alone (env_step alone (env_step alone (st', k))))"
proof -
  let ?head = "checkpoint_head H cp (encode_PayoutRecoveryCheckpointV1 cp)"
  have net: "rp_network_id policy = rc_network_id cp" "policy_validate policy = Inr ()"
    using assms(5) by (simp_all add: verify_checkpoint_iff)
  have head: "decode_head (rc_network_id cp) (encode_head ?head) = Inr ?head"
    using assms(3,7,8) sealed_fence(3) [OF assms(4)]
    by (simp add: decode_head_iff checkpoint_head_def valid_hash_def object_id_def domain_hash_def blake2b_256_def)
  have at: "checkpoint_at_head H ed sz policy ?head (ms_view st' (kind_namespace PayoutRecoveryCheckpoint)
      (hex_encode hx (rh_checkpoint_wrapper_id ?head))) = Inr cp"
    using assms(4,5) by (simp add: checkpoint_at_head_iff st' installed_def view_set_def Let_def del: kind_namespace.simps)
  have views: "ms_view st' PAYOUT_RECOVERY_HEAD_NAMESPACE (decimal (unat (rc_network_id cp))) = Some (encode_head ?head)"
    "ms_view st' PAYOUT_RECOVERY_SOURCE_FENCE_NAMESPACE (decimal (unat (rc_network_id cp))) =
      Some (encode_source_fence (rc_network_id cp) (rc_source_fence cp))"
    using assms(6) by (simp_all add: st' installed_def view_set_def Let_def del: kind_namespace.simps)
  show ?thesis
    using assms(1) net head at views sealed_fence [OF assms(4)]
    by (subst load_payout_recovery_live [OF alone_disciplined _ assms(2)]) (simp_all del: kind_namespace.simps)
qed

text \<open>
  C38: an admissible checkpoint is installed and recovered. With nobody else writing, a valid, certified
  checkpoint that extends the stored head and seals the stored fence is committed, and loading afterwards
  returns exactly this checkpoint. Needed of the hash: identifiers of 32 bytes that are not all zero,
  the new identifier differs from its predecessor's, and no other bytes are stored under the record's
  identifier.
\<close>

theorem checkpoint_installed_and_recovered:
  assumes "mem_live st" "hex_ok hx" "\<forall>bs. length (H bs) = 32"
    and "canonical_payload sz cp = Inr (encode_PayoutRecoveryCheckpointV1 cp)" "verify_checkpoint H ed policy cp = Inr ()"
    and "extends_head H ed sz hx policy cp (ms_view st)"
    and "ms_view st PAYOUT_RECOVERY_SOURCE_FENCE_NAMESPACE (decimal (unat (rc_network_id cp))) =
      Some (encode_source_fence (rc_network_id cp) (rc_source_fence cp))"
    and "object_id H (checkpoint_object cp) \<notin> {replicate 32 0, rc_previous_checkpoint_id cp}"
    and "domain_hash H PAYOUT_RECOVERY_WRAPPER_DOMAIN (encode_PayoutRecoveryCheckpointV1 cp) \<noteq> replicate 32 0"
    and "journal_load hx memory_ops st PayoutRecoveryCheckpoint
      (domain_hash H PAYOUT_RECOVERY_WRAPPER_DOMAIN (encode_PayoutRecoveryCheckpointV1 cp)) \<in>
        {Inr None, Inr (Some (encode_PayoutRecoveryCheckpointV1 cp))}"
  shows "\<exists>st' n'. persist_payout_recovery_checkpoint H ed sz hx memory_ops alone cp policy (st, n) =
      (Inr CheckpointCommitted, (st', n')) \<and>
    (\<forall>m. fst (load_payout_recovery_checkpoint H ed sz hx memory_ops alone policy (st', m)) = Inr (Some cp))"
proof -
  let ?bs = "encode_PayoutRecoveryCheckpointV1 cp"
  have wrapper: "rh_checkpoint_wrapper_id (checkpoint_head H cp ?bs) = domain_hash H PAYOUT_RECOVERY_WRAPPER_DOMAIN ?bs"
    by (simp add: checkpoint_head_def)
  have "mem_live (fst (st, n))" using assms(1) by simp
  from persist_alone [OF this assms(2,4,5), simplified] assms(6-8,10) obtain st' n' where
    run: "persist_payout_recovery_checkpoint H ed sz hx memory_ops alone cp policy (st, n) = (Inr CheckpointCommitted, (st', n'))"
    and st': "mem_live st'" "ms_view st' = installed H hx cp (ms_view st)"
    by (auto simp: wrapper load_live [OF assms(2,1)])
  have "fst (load_payout_recovery_checkpoint H ed sz hx memory_ops alone policy (st', m)) = Inr (Some cp)" for m
    using load_installed [OF st'(1) assms(2-5,7) _ assms(9) st'(2)] assms(8) by simp
  with run show ?thesis by blast
qed

section \<open>Examples\<close>

text \<open>The first checkpoint of a network: nothing settled yet, certified by a committee of one.\<close>

definition prefix_hash :: "bytes \<Rightarrow> hash256" where
  "prefix_hash bs = take 32 (bs @ replicate 32 0)"

definition example_fence :: PayoutRecoverySourceFenceV1 where
  "example_fence = \<lparr>sf_disposition_count = 0, sf_disposition_commitment = replicate 32 0,
     sf_snapshot_count = 0, sf_snapshot_head_id = replicate 32 0, sf_plan_count = 0, sf_plan_head_id = replicate 32 0,
     sf_canonical_event_count = 0, sf_canonical_event_commitment = replicate 32 0\<rparr>"

definition example_initial :: SnapshotAccumulatorCheckpoint where
  "example_initial = \<lparr>ck_network_id = 0, ck_next_sequence = 1, ck_previous_snapshot_id = replicate 32 0,
     ck_snapshot_step_work = replicate 63 0 @ [8], ck_pplns_window_work = replicate 63 0 @ [4],
     ck_settlement_committee_id = replicate 32 3, ck_closed_sessions = [],
     ck_new_work_since_snapshot = replicate 64 0\<rparr>"

definition example_unsigned :: PayoutRecoveryCheckpointV1 where
  "example_unsigned = \<lparr>rc_core_protocol_version = 2, rc_checkpoint_version = 1, rc_network_id = 0,
     rc_checkpoint_sequence = 1, rc_previous_checkpoint_id = replicate 32 0,
     rc_payout_policy_fingerprint = replicate 32 6, rc_source_fence = example_fence,
     rc_accumulator = example_initial, rc_expected_plans = [], rc_canonical_plan_bindings = [],
     rc_signer_set = empty_ed25519\<rparr>"

definition example_sealed :: PayoutRecoveryCheckpointV1 where
  "example_sealed = example_unsigned\<lparr>rc_signer_set := \<lparr>sset_signature_suite = ED25519_SUITE,
     sset_signatures = [sign_certificate prefix_hash toy_ed [9] 0 (checkpoint_object example_unsigned)]\<rparr>\<rparr>"

definition example_policy :: PayoutRecoveryCommitteePolicyV1 where
  "example_policy = \<lparr>rp_network_id = 0, rp_settlement_committee_id = replicate 32 3,
     rp_payout_policy_fingerprint = replicate 32 6, rp_threshold = 1, rp_members = {ed_public toy_ed [9]}\<rparr>"

definition example_fenced_store :: MemoryStore where
  "example_fenced_store = \<lparr>ms_records = [(PAYOUT_RECOVERY_SOURCE_FENCE_NAMESPACE @ [NUL] @ decimal 0,
     encode_source_fence 0 example_fence)], ms_poisoned = False\<rparr>"

lemma example_object_same: "checkpoint_object example_sealed = checkpoint_object example_unsigned"
  by (simp add: checkpoint_object_def example_sealed_def encode_unsigned_PayoutRecoveryCheckpointV1_def)

lemma example_verifies: "verify_checkpoint prefix_hash toy_ed example_policy example_sealed = Inr ()"
  unfolding verify_checkpoint_iff verify_certificate_iff example_object_same
  using toy_ed_ok
  by (simp add: policy_validate_def example_policy_def example_sealed_def example_unsigned_def example_initial_def
      MAX_PAYOUT_RECOVERY_COMMITTEE_MEMBERS_def sign_certificate_def sign_object_def signed_by_def ed_ok_def)

lemma example_words:
  "be_pad 64 8 = replicate 63 0 @ [8]" "be_pad 64 4 = replicate 63 0 @ [4]" "be_pad 64 0 = replicate 64 0"
  "replicate 63 0 @ [8] \<noteq> (replicate 64 0 :: bytes)" "replicate 63 0 @ [4] \<noteq> (replicate 64 0 :: bytes)"
  by code_simp+

lemma example_canonical_accumulator: "canonical_accumulator 200 example_initial = Inr example_initial"
  by (simp add: canonical_accumulator_def from_checkpoint_def example_initial_def prune_retained_prefix_def
      ensure_limits_def ensure_retention_limits_def example_defs checkpoint_def big_to_u512_eq map_err_def example_words)

lemma example_structure: "validate_structure 200 example_sealed = Inr ()"
  using example_canonical_accumulator
  by (simp add: validate_structure_def example_sealed_def example_unsigned_def validate_coherence_def
      zero_count_has_nonzero_head_def example_fence_def example_initial_def CORE_V2_def PAYOUT_RECOVERY_CHECKPOINT_V1_def
      checked_add_def example_words)

lemma example_valid: "valid_recovery checkpoint_limits example_sealed"
  using toy_ed_ok
  by (simp add: valid_recovery_def example_sealed_def example_unsigned_def example_fence_def example_initial_def
      valid_fence_def valid_accumulator_def valid_vec_def valid_hash_def valid_u512_def valid_SignatureSet_def
      valid_SignerSignature_def valid_SignatureBytes_def valid_bytes_def sign_certificate_def sign_object_def ed_ok_def
      checkpoint_limits_def MAX_PAYOUT_CHECKPOINT_BYTES_def recovery_max_defs max_defs)

lemma example_payload: "canonical_payload 200 example_sealed = Inr (encode_PayoutRecoveryCheckpointV1 example_sealed)"
proof -
  have "length (encode_PayoutRecoveryCheckpointV1 example_sealed) \<le> 1000" by code_simp
  then show ?thesis
    by (simp add: canonical_payload_iff example_structure MAX_PAYOUT_CHECKPOINT_BYTES_def example_valid)
qed

lemma example_fenced_live: "mem_live example_fenced_store"
  by (simp add: example_fenced_store_def mem_live_def ms_inv_def bt_wf_def)

lemma example_fenced_view:
  "ms_view example_fenced_store PAYOUT_RECOVERY_SOURCE_FENCE_NAMESPACE (decimal 0) = Some (encode_source_fence 0 example_fence)"
  "ms_view example_fenced_store PAYOUT_RECOVERY_HEAD_NAMESPACE (decimal 0) = None"
  "ms_view example_fenced_store (kind_namespace PayoutRecoveryCheckpoint) (hex_encode lower_hex (domain_hash prefix_hash
     PAYOUT_RECOVERY_WRAPPER_DOMAIN (encode_PayoutRecoveryCheckpointV1 example_sealed))) = None"
  by code_simp+

lemma example_ids:
  "object_id prefix_hash (checkpoint_object example_sealed) \<noteq> replicate 32 0"
  "domain_hash prefix_hash PAYOUT_RECOVERY_WRAPPER_DOMAIN (encode_PayoutRecoveryCheckpointV1 example_sealed) \<noteq> replicate 32 0"
  by code_simp+

lemma example_parts [simp]:
  "rc_network_id example_sealed = 0" "rc_source_fence example_sealed = example_fence"
  "rc_previous_checkpoint_id example_sealed = replicate 32 0" "rc_checkpoint_sequence example_sealed = 1"
  by (simp_all add: example_sealed_def example_unsigned_def)

lemma example_extends: "extends_head prefix_hash toy_ed 200 lower_hex example_policy example_sealed (ms_view example_fenced_store)"
  by (simp add: extends_head_def example_fenced_view)

lemma example_free:
  "journal_load lower_hex memory_ops example_fenced_store PayoutRecoveryCheckpoint (domain_hash prefix_hash
    PAYOUT_RECOVERY_WRAPPER_DOMAIN (encode_PayoutRecoveryCheckpointV1 example_sealed)) = Inr None"
  by (simp only: load_live [OF hex_ok_lower_hex example_fenced_live] example_fenced_view)

abbreviation example_persist ::
  "MemoryStore \<times> nat \<Rightarrow> (PayoutRecoveryError + PayoutRecoveryPersistOutcome) \<times> (MemoryStore \<times> nat)" where
  "example_persist \<equiv> persist_payout_recovery_checkpoint prefix_hash toy_ed 200 lower_hex memory_ops alone example_sealed example_policy"

abbreviation example_load ::
  "MemoryStore \<times> nat \<Rightarrow> (PayoutRecoveryError + PayoutRecoveryCheckpointV1 option) \<times> (MemoryStore \<times> nat)" where
  "example_load \<equiv> load_payout_recovery_checkpoint prefix_hash toy_ed 200 lower_hex memory_ops alone example_policy"

lemma example_committed:
  obtains w' where "example_persist (example_fenced_store, 0) = (Inr CheckpointCommitted, w')" "mem_live (fst w')"
    "ms_view (fst w') = installed prefix_hash lower_hex example_sealed (ms_view example_fenced_store)"
proof -
  have "\<exists>w'. example_persist (example_fenced_store, 0) = (Inr CheckpointCommitted, w') \<and> mem_live (fst w') \<and>
      ms_view (fst w') = installed prefix_hash lower_hex example_sealed (ms_view (fst (example_fenced_store, 0::nat)))"
    by (rule persist_alone [OF _ hex_ok_lower_hex example_payload example_verifies])
      (simp_all add: example_fenced_live example_extends example_ids example_fenced_view checkpoint_head_def
        del: kind_namespace.simps)
  then show ?thesis using that by auto
qed

lemma prefix_hash_length: "\<forall>bs. length (prefix_hash bs) = 32"
  by (simp add: prefix_hash_def min_def)

theorem checkpoint_installed_and_recovered_witness:
  "\<exists>st' n'. example_persist (example_fenced_store, 0) = (Inr CheckpointCommitted, (st', n')) \<and>
    fst (example_load (st', 5)) = Inr (Some example_sealed)"
  using checkpoint_installed_and_recovered [OF example_fenced_live hex_ok_lower_hex prefix_hash_length example_payload
      example_verifies example_extends, of 0]
  by (simp add: example_fenced_view example_ids example_free) blast

theorem recovered_checkpoint_sound_witness:
  "\<exists>st' acc. fst (example_load (st', 5)) = Inr (Some example_sealed) \<and>
    1 \<le> card {key \<in> rp_members example_policy. \<exists>entry \<in> set (sset_signatures (rc_signer_set example_sealed)).
      sgs_signer_pubkey entry = key \<and> signed_by prefix_hash toy_ed 0 (checkpoint_object example_sealed) entry} \<and>
    from_checkpoint 200 (rc_accumulator example_sealed) SnapshotAccumulatorLimits_default = Some (Inr acc) \<and> acc_inv 200 acc"
proof -
  obtain w' where "example_persist (example_fenced_store, 0) = (Inr CheckpointCommitted, w')" and w': "mem_live (fst w')"
    "ms_view (fst w') = installed prefix_hash lower_hex example_sealed (ms_view example_fenced_store)"
    by (rule example_committed)
  have "example_load (fst w', 5) = (Inr (Some example_sealed), env_step alone (env_step alone (env_step alone (fst w', 5))))"
    by (rule load_installed [OF w'(1) hex_ok_lower_hex prefix_hash_length example_payload example_verifies _
        example_ids w'(2)]) (simp add: example_fenced_view)
  then obtain st2 n2 where run: "example_load (fst w', 5) = (Inr (Some example_sealed), (st2, n2))"
    by (metis prod.exhaust)
  have threshold: "unat (rp_threshold example_policy) = 1" by (simp add: example_policy_def)
  from run have "fst (example_load (fst w', 5)) = Inr (Some example_sealed)" by simp
  with recovered_checkpoint_sound [OF alone_disciplined w'(1) hex_ok_lower_hex run, unfolded threshold example_parts]
  show ?thesis by blast
qed

theorem checkpoint_commit_extends_chain_witness:
  "\<exists>st' n'. example_persist (example_fenced_store, 0) = (Inr CheckpointCommitted, (st', n')) \<and>
    ms_view st' = installed prefix_hash lower_hex example_sealed (ms_view example_fenced_store)"
proof -
  obtain st' n' where run: "example_persist (example_fenced_store, 0) = (Inr CheckpointCommitted, (st', n'))"
    by (metis example_committed prod.exhaust)
  from checkpoint_commit_extends_chain [OF alone_disciplined example_fenced_live hex_ok_lower_hex run]
  obtain pre where "env_only alone (example_fenced_store, 0) (pre, n')"
    "ms_view st' = installed prefix_hash lower_hex example_sealed (ms_view pre)" by auto
  with run env_only_alone [of "(example_fenced_store, 0)" "(pre, n')"] show ?thesis by auto
qed

end
