(* ===== verification/Spec2Isabelle.thy ===== *)
theory Spec2Isabelle
  imports Object_Ids Lifecycle Hns_Header Hns_Merkle Body_Package Journal_Recovery
    Settlement_Recovery
begin

text \<open>
  \<^bold>\<open>MeshMine: a verification library.\<close>

  MeshMine is a decentralised mining pool for Handshake (HNS). Operators agree on block bodies,
  hide the winning condition of a share behind a jointly generated mask, collect shares from miners,
  certify them in receipt batches, and pay the miners through the coinbase according to snapshots of
  the credit they earned. This library models the deterministic core of that system and proves the
  properties the rest relies on. Paths are relative to \<^verbatim>\<open>src/crates/\<close>.

  \<^bold>\<open>Conventions.\<close> Bytes are \<^verbatim>\<open>8 word\<close> lists, fixed-width integers are words of that width, \<^verbatim>\<open>usize\<close> is a
  natural number with its bound written out, a \<^verbatim>\<open>Result\<close> is a sum with the error on the left, and the
  question-mark operator is \<^verbatim>\<open>res_bind\<close>. Loops are structural recursions or functions with a
  termination proof; no definition uses fuel. Third-party code (Blake2b, SHA3, the hex crate) is a
  parameter of the definitions that call it; what a theorem needs of it is a named hypothesis, such as
  injectivity of the hash on the inputs in question, or the contract \<^verbatim>\<open>hex_ok\<close>.

  \<^bold>\<open>Theories.\<close>

  \<^item> \<^verbatim>\<open>Prelude\<close>: machine types, the result combinators, checked arithmetic, byte conversions, list lemmas.

  \<^item> \<^verbatim>\<open>Codec\<close> (\<^verbatim>\<open>meshmine-codec/src/lib.rs\<close>): the canonical encoder and the bounded decoder. The locale
    \<^verbatim>\<open>canonical_codec\<close> is the contract of an encodable type; every object type interprets it.

  \<^item> \<^verbatim>\<open>Core_Common\<close>, \<^verbatim>\<open>Objects_Payout\<close>, \<^verbatim>\<open>Objects_Body\<close>, \<^verbatim>\<open>Objects_Mining\<close>, \<^verbatim>\<open>Object_Ids\<close>
    (\<^verbatim>\<open>meshmine-types/src/common.rs\<close>, \<^verbatim>\<open>objects.rs\<close>): the Core v2 objects, one record, encoder, decoder
    and validity predicate each. Decoding accepts exactly the canonical encodings of valid objects;
    identifiers are domain separated and bind all unsigned fields (locale \<^verbatim>\<open>signed_object\<close>).

  \<^item> \<^verbatim>\<open>Lifecycle\<close> (\<^verbatim>\<open>meshmine-types/src/state.rs\<close>): the transition functions of bodies, mask sessions,
    shares and payouts, with reachability over request sequences (locale \<^verbatim>\<open>lifecycle\<close>).

  \<^item> \<^verbatim>\<open>Hns_Target\<close>, \<^verbatim>\<open>Hns_Header\<close>, \<^verbatim>\<open>Hns_Merkle\<close> (\<^verbatim>\<open>meshmine-hns/src\<close>): compact targets and capture
    parameters, consensus and miner headers with their hashes, the Merkle root.

  \<^item> \<^verbatim>\<open>Body_Package\<close> (\<^verbatim>\<open>meshmine-body/src/lib.rs\<close>): coinbase commitments, coinbase output order and weight
    reservation, body packages and what their validation hash commits to. The reservation is compared with
    the lengths of a serialisation in the node's layout, as the source documents it.

  \<^item> \<^verbatim>\<open>Ordered_Map\<close>: the standard library's ordered map as a sorted association list (locale
    \<^verbatim>\<open>ordered_map\<close>).

  \<^item> \<^verbatim>\<open>Durable_Store\<close>, \<^verbatim>\<open>Protocol_Journal\<close>, \<^verbatim>\<open>Journal_Recovery\<close> (\<^verbatim>\<open>meshmine-storage/src/lib.rs\<close>): the store trait as a record of
    operations, the in-memory store, the immutable journal and the signing guard. The locale
    \<^verbatim>\<open>durable_store\<close> is the contract of a store; the in-memory store interprets it twice, with and
    without a healthy lock. Other writers act between the store calls of an operation; the journal is
    verified against every environment that keeps the journal's own discipline, and is shown to keep
    it (rely and guarantee coincide). The loop of the persist operation needs at most one round more
    than there are records, which is the number of rounds the code allows itself. Recovery returns
    exactly the stored records, at once or page by page, and the signing guard never authorises two
    objects for one role, scope and sequence.

  \<^item> \<^verbatim>\<open>Settlement_Trackers\<close> (\<^verbatim>\<open>meshmine-settlement/src/lib.rs\<close>): plan payments, entropy plans and the overlay's view of the
    canonical chain, with reachability under connecting and disconnecting blocks. No open session
    stands on an orphaned block, and each plan is paid once, in order.

  \<^item> \<^verbatim>\<open>Settlement_Tickets\<close>, \<^verbatim>\<open>Settlement_Payouts\<close> (same file): the weighted draw, payout plans, their verification
    and the coinbase. The draw is fair over the accepted candidates and its rejection loop ends,
    because the counter is a 64-bit word that never repeats; verification is recomputation; the coinbase
    pays exactly what the tickets won.

  \<^item> \<^verbatim>\<open>Settlement_Snapshot\<close>, \<^verbatim>\<open>Settlement_Credits\<close>, \<^verbatim>\<open>Settlement_Durable\<close> (same file): the accumulator of closed sessions, its
    checkpoints and pruning, what snapshots contain, the service-credit ledger, and the durable variants
    over the journal. Pruning is shown to refine a specification that forgets nothing. A subtraction below
    zero panics in the code, and so does a missing payload size or session; these are the value None of
    the optional results here. The retained counters are exact, and therefore neither restoring a
    checkpoint nor closing sessions ever reaches it. Vector capacities are
    lengths (the vectors were just compacted), and the in-memory size of a credit is a parameter.

  \<^item> \<^verbatim>\<open>Crypto\<close> (\<^verbatim>\<open>meshmine-crypto/src/lib.rs\<close>): the signature context, signing behind the durable guard, and
    certificates. The Ed25519 crate is a record of functions with the contract \<^verbatim>\<open>ed_ok\<close>.

  \<^item> \<^verbatim>\<open>Recovery_Checkpoint\<close>, \<^verbatim>\<open>Settlement_Recovery\<close> (\<^verbatim>\<open>meshmine-settlement/src/recovery.rs\<close>): payout-recovery
    checkpoints with their codec, structural validation and committee policy, and their installation and
    loading over the journal among other writers. A commit advances the network's head by exactly one
    under the sealed source fence; a loaded checkpoint is certified by the committee's threshold and
    restores a well-formed accumulator; without other writers an admissible checkpoint is installed and
    loaded back. The committee's members are a set, and where the code would panic while restoring an
    accumulator the model answers an error, a branch shown to be unreachable for the fixed-size
    integers of the code.

  \<^bold>\<open>Not modelled.\<close> The redb-backed store (calls into a database), asynchronous transports, gateways and
  daemons (sockets, TLS, processes), the GPU backends, the MP-SPDZ driver and its circuits,
  body availability (its erasure coding is an external crate), and the offline risk analysis in
  floating point. Deterministic code that has no model yet: committee selection
  (\<^verbatim>\<open>meshmine-committee\<close>), share validation and receipts (\<^verbatim>\<open>meshmine-share\<close>), the gateway handoff
  (\<^verbatim>\<open>meshmine-handoff\<close>), work leases and planning (\<^verbatim>\<open>meshmine-work\<close>), the core link's message formats,
  the fast path, the service journal and the pool statistics.
\<close>

end
